(* ===== verification/Core_Prelude.thy ===== *)
theory Core_Prelude
  imports "HOL-Library.Word" "HOL-Library.AList"
begin

text \<open>
  What the components share: the machine types of the Rust code, its result type, slices and
  little-endian and big-endian integers, saturating and checked arithmetic, and hash maps.

  A byte is an \<open>8 word\<close>, a \<open>Vec<u8>\<close> or \<open>&[u8]\<close> is a list of bytes, \<open>u16\<close>, \<open>u32\<close>
  and \<open>u64\<close> keep their width, \<open>usize\<close> values that are lengths of lists are natural numbers.
  A \<open>Result<T, E>\<close> is \<open>'e + 't\<close> with the error on the left, and \<open>res_bind\<close> is the question
  mark operator.  A \<open>HashMap\<close> is an association list with distinct keys; the locale
  \<open>hash_map\<close> states what the code relies on, and the association list operations are shown to
  provide it.
\<close>

unbundle bit_operations_syntax

named_theorems wire_simps \<open>evaluation of slices and integer codecs\<close>
named_theorems result_simps \<open>evaluation of the result type\<close>
named_theorems result_iffs \<open>inversion of the result type\<close>

type_synonym u8 = "8 word"
type_synonym u16 = "16 word"
type_synonym u32 = "32 word"
type_synonym u64 = "64 word"
type_synonym bytes = "8 word list"

subsection \<open>The result type\<close>

definition res_bind :: "'e + 'a \<Rightarrow> ('a \<Rightarrow> 'e + 'b) \<Rightarrow> 'e + 'b" where
  "res_bind r f = (case r of Inl e \<Rightarrow> Inl e | Inr x \<Rightarrow> f x)"

definition map_err :: "('e \<Rightarrow> 'f) \<Rightarrow> 'e + 'a \<Rightarrow> 'f + 'a" where
  "map_err g r = (case r of Inl e \<Rightarrow> Inl (g e) | Inr x \<Rightarrow> Inr x)"

definition ok_or :: "'e \<Rightarrow> 'a option \<Rightarrow> 'e + 'a" where
  "ok_or e v = (case v of None \<Rightarrow> Inl e | Some x \<Rightarrow> Inr x)"

definition is_ok :: "'e + 'a \<Rightarrow> bool" where
  "is_ok r = (case r of Inl _ \<Rightarrow> False | Inr _ \<Rightarrow> True)"

subsection \<open>Slices and integers in byte order\<close>

definition subslice :: "nat \<Rightarrow> nat \<Rightarrow> 'a list \<Rightarrow> 'a list" where
  "subslice i j xs = take (j - i) (drop i xs)"

fun nat_le :: "nat \<Rightarrow> nat \<Rightarrow> bytes" where
  "nat_le 0 k = []"
| "nat_le (Suc n) k = of_nat (k mod 256) # nat_le n (k div 256)"

fun le_nat :: "bytes \<Rightarrow> nat" where
  "le_nat [] = 0"
| "le_nat (b # bs) = unat b + 256 * le_nat bs"

definition u16_to_le :: "u16 \<Rightarrow> bytes" where "u16_to_le w = nat_le 2 (unat w)"
definition u32_to_le :: "u32 \<Rightarrow> bytes" where "u32_to_le w = nat_le 4 (unat w)"
definition u64_to_le :: "u64 \<Rightarrow> bytes" where "u64_to_le w = nat_le 8 (unat w)"
definition u16_from_le :: "bytes \<Rightarrow> u16" where "u16_from_le bs = of_nat (le_nat bs)"
definition u32_from_le :: "bytes \<Rightarrow> u32" where "u32_from_le bs = of_nat (le_nat bs)"
definition u64_from_le :: "bytes \<Rightarrow> u64" where "u64_from_le bs = of_nat (le_nat bs)"

definition u16_to_be :: "u16 \<Rightarrow> bytes" where "u16_to_be w = rev (nat_le 2 (unat w))"
definition u32_to_be :: "u32 \<Rightarrow> bytes" where "u32_to_be w = rev (nat_le 4 (unat w))"
definition u64_to_be :: "u64 \<Rightarrow> bytes" where "u64_to_be w = rev (nat_le 8 (unat w))"
definition u16_from_be :: "bytes \<Rightarrow> u16" where "u16_from_be bs = of_nat (le_nat (rev bs))"
definition u32_from_be :: "bytes \<Rightarrow> u32" where "u32_from_be bs = of_nat (le_nat (rev bs))"
definition u64_from_be :: "bytes \<Rightarrow> u64" where "u64_from_be bs = of_nat (le_nat (rev bs))"

subsection \<open>Saturating and checked arithmetic\<close>

definition sat_add :: "'a::len word \<Rightarrow> 'a word \<Rightarrow> 'a word" where
  "sat_add a b = (if unat a + unat b < 2 ^ LENGTH('a) then a + b else - 1)"

definition sat_sub :: "'a::len word \<Rightarrow> 'a word \<Rightarrow> 'a word" where
  "sat_sub a b = (if b \<le> a then a - b else 0)"

definition checked_add :: "'a::len word \<Rightarrow> 'a word \<Rightarrow> 'a word option" where
  "checked_add a b = (if unat a + unat b < 2 ^ LENGTH('a) then Some (a + b) else None)"

subsection \<open>Hash maps\<close>

type_synonym ('k, 'v) hmap = "('k \<times> 'v) list"

definition hm_get :: "'k \<Rightarrow> ('k, 'v) hmap \<Rightarrow> 'v option" where
  "hm_get k m = map_of m k"

definition hm_insert :: "'k \<Rightarrow> 'v \<Rightarrow> ('k, 'v) hmap \<Rightarrow> ('k, 'v) hmap" where
  "hm_insert k v m = AList.update k v m"

definition hm_remove :: "'k \<Rightarrow> ('k, 'v) hmap \<Rightarrow> ('k, 'v) hmap" where
  "hm_remove k m = AList.delete k m"

definition hm_len :: "('k, 'v) hmap \<Rightarrow> nat" where
  "hm_len m = length m"

definition hm_retain :: "('k \<Rightarrow> 'v \<Rightarrow> bool) \<Rightarrow> ('k, 'v) hmap \<Rightarrow> ('k, 'v) hmap" where
  "hm_retain p m = filter (\<lambda>(k, v). p k v) m"

definition hm_wf :: "('k, 'v) hmap \<Rightarrow> bool" where
  "hm_wf m = distinct (map fst m)"

subsection \<open>Result lemmas\<close>

lemma res_bind_simps [simp, result_simps]:
  "res_bind (Inl e) f = Inl e"
  "res_bind (Inr x) f = f x"
  by (simp_all add: res_bind_def)

lemma res_bind_eq_Inr [result_iffs]:
  "res_bind r f = Inr y \<longleftrightarrow> (\<exists>x. r = Inr x \<and> f x = Inr y)"
  by (cases r) auto

lemma res_bind_eq_Inl [result_iffs]:
  "res_bind r f = Inl e \<longleftrightarrow> r = Inl e \<or> (\<exists>x. r = Inr x \<and> f x = Inl e)"
  by (cases r) auto

lemma map_err_simps [simp, result_simps]:
  "map_err g (Inl e) = Inl (g e)"
  "map_err g (Inr x) = Inr x"
  by (simp_all add: map_err_def)

lemma map_err_eq_Inr [simp]: "map_err g r = Inr x \<longleftrightarrow> r = Inr x"
  by (cases r) auto

lemma ok_or_simps [simp, result_simps]:
  "ok_or e None = Inl e"
  "ok_or e (Some x) = Inr x"
  by (simp_all add: ok_or_def)

lemma ok_or_eq_Inr [simp]: "ok_or e v = Inr x \<longleftrightarrow> v = Some x"
  by (cases v) auto

lemma is_ok_simps [simp, result_simps]:
  "\<not> is_ok (Inl e)"
  "is_ok (Inr x)"
  by (simp_all add: is_ok_def)

lemma is_ok_iff: "is_ok r \<longleftrightarrow> (\<exists>x. r = Inr x)"
  by (cases r) auto

subsection \<open>Slice and codec lemmas\<close>

lemma length_subslice [simp]: "j \<le> length xs \<Longrightarrow> length (subslice i j xs) = j - i"
  by (simp add: subslice_def)

lemma subslice_0 [simp]: "subslice 0 j xs = take j xs"
  by (simp add: subslice_def)

lemma take_extend_subslice:
  "i \<le> j \<Longrightarrow> take i xs @ subslice i j xs = take j xs"
  by (simp add: subslice_def flip: take_add)

lemma subslice_append:
  "i \<le> j \<Longrightarrow> j \<le> k \<Longrightarrow> subslice i j xs @ subslice j k xs = subslice i k xs"
  using take_add [of "j - i" "k - j" "drop i xs"] by (simp add: subslice_def)

lemma subslice_of_drop:
  assumes "drop i xs = ys @ zs" and "j = i + length ys"
  shows "subslice i j xs = ys"
  using assms by (simp add: subslice_def)

lemma drop_of_drop:
  assumes "drop i xs = ys @ zs" and "j = i + length ys"
  shows "drop j xs = zs"
  using assms by (metis add.commute append_eq_conv_conj drop_drop)

lemma length_of_drop:
  assumes "drop i xs = ys @ zs" and "i \<le> length xs"
  shows "length xs = i + length ys + length zs"
  using assms by (metis add.assoc le_add_diff_inverse length_append length_drop)

lemma drop_ConsD:
  assumes "drop k xs = y # ys"
  shows "xs ! k = y" "k < length xs" "drop (Suc k) xs = ys"
proof -
  show "xs ! k = y" using assms by (rule nth_via_drop)
  show "k < length xs" using assms by (metis drop_eq_Nil leI list.distinct(1))
  show "drop (Suc k) xs = ys" using assms by (simp add: drop_Suc flip: tl_drop)
qed

lemma subslice_Cons:
  assumes "i < length xs" "i < j"
  shows "subslice i j xs = xs ! i # subslice (Suc i) j xs"
proof -
  have "j - i = Suc (j - Suc i)" using assms by simp
  then show ?thesis using assms by (simp add: subslice_def Cons_nth_drop_Suc [symmetric])
qed

lemma unat_less_power: "unat w < 2 ^ LENGTH('a)" for w :: "'a::len word"
  by (rule unsigned_less)

lemma length_nat_le [simp]: "length (nat_le n k) = n"
  by (induction n k rule: nat_le.induct) simp_all

lemma unat_of_mod_256: "unat (of_nat (k mod 256) :: u8) = k mod 256"
  by (simp add: unat_of_nat)

lemma le_nat_nat_le: "le_nat (nat_le n k) = k mod 256 ^ n"
proof (induction n k rule: nat_le.induct)
  case (2 n k)
  have "k mod 256 ^ Suc n = k mod 256 + 256 * (k div 256 mod 256 ^ n)"
    by (simp add: mod_mult2_eq)
  then show ?case using 2 by (simp add: unat_of_mod_256)
qed simp

lemma le_nat_less: "le_nat bs < 256 ^ length bs"
proof (induction bs)
  case (Cons b bs)
  have "unat b < 256" using unat_less_power [of b] by simp
  with Cons have "unat b + 256 * le_nat bs < 256 + 256 * (256 ^ length bs - 1)"
    by (intro add_less_le_mono) (auto simp: Suc_leI le_diff_conv2)
  also have "\<dots> = 256 ^ length (b # bs)"
    by (simp add: diff_mult_distrib2)
  finally show ?case by simp
qed simp

lemma nat_le_le_nat: "n = length bs \<Longrightarrow> nat_le n (le_nat bs) = bs"
proof (induction bs arbitrary: n)
  case (Cons b bs)
  have "unat b < 256" using unat_less_power [of b] by simp
  then show ?case using Cons by simp
qed simp

lemma nat_le_inject:
  assumes "nat_le n k = nat_le n k'" "k < 256 ^ n" "k' < 256 ^ n"
  shows "k = k'"
  using assms by (metis le_nat_nat_le mod_less)

lemma unat_less_256: "unat (w :: u16) < 256 ^ 2" "unat (x :: u32) < 256 ^ 4" "unat (y :: u64) < 256 ^ 8"
  using unat_less_power [of w] unat_less_power [of x] unat_less_power [of y] by simp_all

lemma int_codec_lengths [simp, wire_simps]:
  "length (u16_to_le w) = 2" "length (u32_to_le x) = 4" "length (u64_to_le y) = 8"
  "length (u16_to_be w) = 2" "length (u32_to_be x) = 4" "length (u64_to_be y) = 8"
  by (simp_all add: u16_to_le_def u32_to_le_def u64_to_le_def u16_to_be_def u32_to_be_def u64_to_be_def)

lemma int_codec_roundtrip [simp]:
  "u16_from_le (u16_to_le w) = w" "u32_from_le (u32_to_le x) = x" "u64_from_le (u64_to_le y) = y"
  "u16_from_be (u16_to_be w) = w" "u32_from_be (u32_to_be x) = x" "u64_from_be (u64_to_be y) = y"
  using unat_less_256(1) [of w] unat_less_256(2) [of x] unat_less_256(3) [of y]
  by (simp_all add: u16_from_le_def u32_from_le_def u64_from_le_def u16_to_le_def u32_to_le_def
      u64_to_le_def u16_from_be_def u32_from_be_def u64_from_be_def u16_to_be_def u32_to_be_def
      u64_to_be_def le_nat_nat_le)

lemma int_codec_inverse:
  "length bs = 2 \<Longrightarrow> u16_to_le (u16_from_le bs) = bs"
  "length bs = 4 \<Longrightarrow> u32_to_le (u32_from_le bs) = bs"
  "length bs = 8 \<Longrightarrow> u64_to_le (u64_from_le bs) = bs"
  "length bs = 2 \<Longrightarrow> u16_to_be (u16_from_be bs) = bs"
  "length bs = 4 \<Longrightarrow> u32_to_be (u32_from_be bs) = bs"
  "length bs = 8 \<Longrightarrow> u64_to_be (u64_from_be bs) = bs"
  using le_nat_less [of bs] le_nat_less [of "rev bs"] nat_le_le_nat [of _ bs] nat_le_le_nat [of _ "rev bs"]
  by (simp_all add: u16_from_le_def u32_from_le_def u64_from_le_def u16_to_le_def u32_to_le_def
      u64_to_le_def u16_from_be_def u32_from_be_def u64_from_be_def u16_to_be_def u32_to_be_def
      u64_to_be_def unat_of_nat)

lemma int_codec_inject [simp]:
  "u16_to_le w = u16_to_le w' \<longleftrightarrow> w = w'" "u32_to_le x = u32_to_le x' \<longleftrightarrow> x = x'"
  "u64_to_le y = u64_to_le y' \<longleftrightarrow> y = y'" "u16_to_be w = u16_to_be w' \<longleftrightarrow> w = w'"
  "u32_to_be x = u32_to_be x' \<longleftrightarrow> x = x'" "u64_to_be y = u64_to_be y' \<longleftrightarrow> y = y'"
  by (metis int_codec_roundtrip)+

subsection \<open>Arithmetic lemmas\<close>

lemma unat_sat_add: "unat (sat_add a b) = min (unat a + unat b) (2 ^ LENGTH('a) - 1)"
  for a b :: "'a::len word"
  using unat_less_power [of a] unat_less_power [of b]
  by (auto simp: sat_add_def unat_word_ariths unsigned_minus_1_eq_mask mask_eq_exp_minus_1)

lemma unat_sat_sub: "unat (sat_sub a b) = unat a - unat b"
  by (auto simp: sat_sub_def unat_sub word_le_nat_alt not_le)

lemma checked_add_SomeD:
  assumes "checked_add a b = Some c"
  shows "unat c = unat a + unat b" and "c = a + b"
  using assms by (auto simp: checked_add_def unat_word_ariths split: if_splits)

lemma sat_sub_self [simp]: "sat_sub a a = 0"
  by (simp add: sat_sub_def)

subsection \<open>The hash map interface\<close>

locale hash_map =
  fixes get :: "'k \<Rightarrow> 'm \<Rightarrow> 'v option"
    and insert :: "'k \<Rightarrow> 'v \<Rightarrow> 'm \<Rightarrow> 'm"
    and remove :: "'k \<Rightarrow> 'm \<Rightarrow> 'm"
    and retain :: "('k \<Rightarrow> 'v \<Rightarrow> bool) \<Rightarrow> 'm \<Rightarrow> 'm"
    and len :: "'m \<Rightarrow> nat"
    and wf :: "'m \<Rightarrow> bool"
  assumes get_insert: "get k (insert k' v m) = (if k = k' then Some v else get k m)"
    and get_remove: "get k (remove k' m) = (if k = k' then None else get k m)"
    and get_retain: "wf m \<Longrightarrow> get k (retain p m) =
          (case get k m of None \<Rightarrow> None | Some v \<Rightarrow> if p k v then Some v else None)"
    and wf_insert: "wf m \<Longrightarrow> wf (insert k v m)"
    and wf_remove: "wf m \<Longrightarrow> wf (remove k m)"
    and wf_retain: "wf m \<Longrightarrow> wf (retain p m)"
    and len_insert: "len (insert k v m) = (if get k m = None then Suc (len m) else len m)"
    and len_remove: "wf m \<Longrightarrow> len (remove k m) = (if get k m = None then len m else len m - 1)"
    and len_retain: "len (retain p m) \<le> len m"
begin

lemma bounded_insert: "len m < n \<Longrightarrow> len (insert k v m) \<le> n"
  by (simp add: len_insert)

lemma bounded_remove: "wf m \<Longrightarrow> len m \<le> n \<Longrightarrow> len (remove k m) \<le> n"
  by (auto simp: len_remove)

lemma bounded_retain: "len m \<le> n \<Longrightarrow> len (retain p m) \<le> n"
  using len_retain [of p m] by simp

lemma insert_frame: "get k m = get k m' \<Longrightarrow> get k (insert k' v m) = get k (insert k' v m')"
  by (simp add: get_insert)

lemma retain_subset: "wf m \<Longrightarrow> get k (retain p m) = Some v \<Longrightarrow> get k m = Some v \<and> p k v"
  by (auto simp: get_retain split: option.splits if_splits)

end

lemma hm_delete_filter: "hm_remove k m = filter (\<lambda>(k', v). k' \<noteq> k) m"
  unfolding hm_remove_def AList.delete_eq by (rule filter_cong) auto

lemma hm_delete_length:
  "hm_wf m \<Longrightarrow> length (filter (\<lambda>(k', v). k' \<noteq> k) m) =
    (if map_of m k = None then length m else length m - 1)"
proof (induction m)
  case (Cons a m)
  obtain k' v where a: "a = (k', v)" by (cases a)
  have "map_of m k = None \<Longrightarrow> filter (\<lambda>(k', v). k' \<noteq> k) m = m"
    by (rule filter_True) (force simp: map_of_eq_None_iff)
  moreover have "map_of m k \<noteq> None \<Longrightarrow> length m \<noteq> 0"
    by auto
  moreover have "k' = k \<Longrightarrow> map_of m k = None"
    using Cons.prems a by (auto simp: hm_wf_def map_of_eq_None_iff)
  ultimately show ?case
    using Cons a by (auto simp: hm_wf_def)
qed simp

lemma hm_retain_get:
  "hm_wf m \<Longrightarrow> hm_get k (hm_retain p m) =
    (case hm_get k m of None \<Rightarrow> None | Some v \<Rightarrow> if p k v then Some v else None)"
proof (induction m)
  case (Cons a m)
  obtain k' v where a: "a = (k', v)" by (cases a)
  have "k' = k \<Longrightarrow> map_of (filter (\<lambda>(k, v). p k v) m) k = None"
    using Cons.prems a by (auto simp: hm_wf_def map_of_eq_None_iff)
  then show ?case
    using Cons a by (auto simp: hm_wf_def hm_get_def hm_retain_def)
qed (simp add: hm_get_def hm_retain_def)

lemma hm_insert_length:
  "length (AList.update k v m) = (if map_of m k = None then Suc (length m) else length m)"
  by (induction m) auto

lemma hm_remove_get: "hm_get k (hm_remove k' m) = (if k = k' then None else hm_get k m)"
  by (simp add: hm_get_def hm_remove_def delete_conv)

interpretation hm: hash_map hm_get hm_insert hm_remove hm_retain hm_len hm_wf
proof
  show "hm_wf m \<Longrightarrow> hm_wf (hm_insert k v m)" for k v and m :: "('a, 'b) hmap"
    by (simp add: hm_wf_def hm_insert_def distinct_update)
  show "hm_wf m \<Longrightarrow> hm_wf (hm_remove k m)" for k and m :: "('a, 'b) hmap"
    by (simp add: hm_wf_def hm_remove_def distinct_delete)
  show "hm_wf m \<Longrightarrow> hm_wf (hm_retain p m)" for p and m :: "('a, 'b) hmap"
    by (simp add: hm_wf_def hm_retain_def distinct_map_filter)
  show "hm_wf m \<Longrightarrow> hm_len (hm_remove k m) = (if hm_get k m = None then hm_len m else hm_len m - 1)"
    for k and m :: "('a, 'b) hmap"
    by (simp add: hm_len_def hm_delete_filter hm_delete_length hm_get_def)
  show "hm_len (hm_insert k v m) = (if hm_get k m = None then Suc (hm_len m) else hm_len m)"
    for k v and m :: "('a, 'b) hmap"
    by (simp add: hm_len_def hm_insert_def hm_insert_length hm_get_def)
qed (rule hm_remove_get hm_retain_get | assumption |
    simp add: hm_get_def hm_insert_def update_conv hm_len_def hm_retain_def)+

lemma hm_empty [simp]: "hm_get k [] = None" "hm_len [] = 0" "hm_wf []" "hm_remove k [] = []"
  by (simp_all add: hm_get_def hm_len_def hm_wf_def hm_remove_def)

lemma hm_get_fold_remove: "hm_get k (fold hm_remove ks m) = (if k \<in> set ks then None else hm_get k m)"
  by (induction ks arbitrary: m) (auto simp: hm.get_remove)

lemma hm_len_remove_le: "hm_len (hm_remove k m) \<le> hm_len m"
  by (simp add: hm_len_def hm_delete_filter)

lemma hm_len_fold_remove: "hm_len (fold hm_remove ks m) \<le> hm_len m"
  by (induction ks arbitrary: m) (auto intro: order.trans [OF _ hm_len_remove_le])

end
