(* ===== verification/Suite_Id.thy ===== *)
theory Suite_Id
  imports Core_Prelude
begin

text \<open>
  The crypto suite identifier (\<open>src/crypto/suite_id.rs\<close>) and the global configuration
  (\<open>src/config.rs\<close>).  A \<open>SuiteID\<close> wraps a \<open>u16\<close>; the checked constructor accepts the three
  suites this build runs and refuses every other number, the retired suite 3 among them.
\<close>

datatype suite_id = SuiteID (as_u16: u16)

datatype invalid_suite_id = InvalidSuiteId u16

definition CLASSIC :: suite_id where "CLASSIC = SuiteID 1"
definition PQ_HYBRID :: suite_id where "PQ_HYBRID = SuiteID 2"
definition PQ_RATCHET :: suite_id where "PQ_RATCHET = SuiteID 4"
definition RETIRED_PQ_RATCHET_V1 :: u16 where "RETIRED_PQ_RATCHET_V1 = 3"

definition suite_new :: "u16 \<Rightarrow> invalid_suite_id + suite_id" where
  "suite_new n =
    (if n = 1 then Inr CLASSIC
     else if n = 2 then Inr PQ_HYBRID
     else if n = 4 then Inr PQ_RATCHET
     else Inl (InvalidSuiteId n))"

definition from_u16_unchecked :: "u16 \<Rightarrow> suite_id" where
  "from_u16_unchecked n = SuiteID n"

definition is_classic :: "suite_id \<Rightarrow> bool" where "is_classic s = (as_u16 s = 1)"
definition is_pq_hybrid :: "suite_id \<Rightarrow> bool" where "is_pq_hybrid s = (as_u16 s = 2)"
definition is_pq_ratchet :: "suite_id \<Rightarrow> bool" where "is_pq_ratchet s = (as_u16 s = 4)"

definition is_supported :: "u16 \<Rightarrow> bool" where
  "is_supported n = (n = 1 \<or> n = 2 \<or> n = 4)"

definition suite_name :: "suite_id \<Rightarrow> string" where
  "suite_name s =
    (if as_u16 s = 1 then ''CLASSIC''
     else if as_u16 s = 2 then ''PQ_HYBRID''
     else if as_u16 s = 4 then ''PQ_RATCHET''
     else ''UNKNOWN'')"

record config =
  chacha_nonce_length :: nat
  max_skipped_messages :: u32
  max_message_jump :: u32
  max_skipped_message_age_seconds :: int
  pq_ratchet_interval :: u32
  pq_ratchet_max_age_seconds :: u64
  prekey_cleanup_period_secs :: int

definition SPK_RETENTION_AFTER_ROTATION_SECS :: u64 where
  "SPK_RETENTION_AFTER_ROTATION_SECS = 14 * 24 * 3600"

definition config_default :: config where
  "config_default =
    \<lparr> chacha_nonce_length = 12,
      max_skipped_messages = 1000,
      max_message_jump = 2000,
      max_skipped_message_age_seconds = 7 * 24 * 60 * 60,
      pq_ratchet_interval = 16,
      pq_ratchet_max_age_seconds = 7 * 24 * 60 * 60,
      prekey_cleanup_period_secs = sint SPK_RETENTION_AFTER_ROTATION_SECS \<rparr>"

subsection \<open>Lemmas\<close>

lemma suite_new_ok_iff: "suite_new n = Inr s \<longleftrightarrow> is_supported n \<and> s = SuiteID n"
  by (auto simp: suite_new_def is_supported_def CLASSIC_def PQ_HYBRID_def PQ_RATCHET_def)

lemma suite_new_retired: "suite_new RETIRED_PQ_RATCHET_V1 = Inl (InvalidSuiteId 3)"
  by (simp add: suite_new_def RETIRED_PQ_RATCHET_V1_def)

lemma suite_kinds:
  "is_classic CLASSIC" "is_pq_hybrid PQ_HYBRID" "is_pq_ratchet PQ_RATCHET"
  "\<not> is_pq_ratchet CLASSIC" "\<not> is_pq_ratchet PQ_HYBRID"
  by (simp_all add: is_classic_def is_pq_hybrid_def is_pq_ratchet_def CLASSIC_def PQ_HYBRID_def
      PQ_RATCHET_def)

lemma is_pq_ratchet_SuiteID [simp]: "is_pq_ratchet (SuiteID n) \<longleftrightarrow> n = 4"
  by (simp add: is_pq_ratchet_def)

end
