(* ===== verification/Padding.thy ===== *)
theory Padding
  imports Core_Prelude
begin

text \<open>
  Message padding (\<open>src/traffic_protection/padding.rs\<close>): PKCS\#7-style padding to a multiple of a
  block size of at most 255 bytes.  The check of the padding bytes is the accumulator loop of the
  code, \<open>diff |= byte ^ expected\<close>, and is shown to accept exactly a run of the expected byte.
\<close>

definition DEFAULT_BLOCK_SIZE :: nat where "DEFAULT_BLOCK_SIZE = 255"
definition MAX_BLOCK_SIZE :: nat where "MAX_BLOCK_SIZE = 255"
definition MAX_MESSAGE_SIZE :: nat where "MAX_MESSAGE_SIZE = 65536"

datatype padding_error =
    MessageTooLarge nat nat
  | InvalidPadding
  | EmptyMessage
  | InvalidBlockSize nat

definition pad_message :: "bytes \<Rightarrow> nat \<Rightarrow> padding_error + bytes" where
  "pad_message plaintext block_size =
    (if block_size = 0 \<or> MAX_BLOCK_SIZE < block_size then Inl (InvalidBlockSize block_size)
     else if MAX_MESSAGE_SIZE < length plaintext
       then Inl (MessageTooLarge (length plaintext) MAX_MESSAGE_SIZE)
     else
       (let blocks = length plaintext div block_size + 1;
            padded_len = blocks * block_size;
            padding_len = padded_len - length plaintext;
            padding_byte = (of_nat padding_len :: u8)
        in Inr (plaintext @ replicate padding_len padding_byte)))"

definition pad_message_default :: "bytes \<Rightarrow> padding_error + bytes" where
  "pad_message_default plaintext = pad_message plaintext DEFAULT_BLOCK_SIZE"

definition padding_diff :: "u8 \<Rightarrow> bytes \<Rightarrow> u8" where
  "padding_diff expected bs = fold (\<lambda>byte diff. diff OR (byte XOR expected)) bs 0"

definition unpad_message :: "bytes \<Rightarrow> padding_error + bytes" where
  "unpad_message padded =
    (if padded = [] then Inl EmptyMessage
     else
       (let padding_len = unat (last padded)
        in if padding_len = 0 \<or> length padded < padding_len \<or> 255 < padding_len
           then Inl InvalidPadding
           else
             (let start = length padded - padding_len;
                  expected_byte = (of_nat padding_len :: u8);
                  diff = padding_diff expected_byte (drop start padded)
              in if diff \<noteq> 0 then Inl InvalidPadding else Inr (take start padded))))"

subsection \<open>The accumulator accepts exactly the expected run\<close>

lemma xor_zero_iff: "a XOR b = 0 \<longleftrightarrow> a = b" for a b :: "'a::len word"
  by (metis xor.assoc xor.left_neutral xor_self_eq)

lemma or_zero_iff: "a OR b = 0 \<longleftrightarrow> a = 0 \<and> b = 0" for a b :: "'a::len word"
  by (metis or.left_neutral or.right_neutral or_eq_0_iff)

lemma padding_diff_fold:
  "fold (\<lambda>byte diff. diff OR (byte XOR e)) bs acc = 0 \<longleftrightarrow> acc = 0 \<and> (\<forall>b\<in>set bs. b = e)"
  for e :: u8
  by (induction bs arbitrary: acc) (auto simp: or_zero_iff xor_zero_iff)

lemma padding_diff_zero_iff: "padding_diff e bs = 0 \<longleftrightarrow> bs = replicate (length bs) e"
  unfolding padding_diff_def padding_diff_fold
  by (metis in_set_replicate replicate_eqI)

subsection \<open>Padding and unpadding\<close>

lemma padding_amount:
  fixes n block :: nat
  assumes "0 < block"
  shows "(n div block + 1) * block - n = block - n mod block"
    and "n + (block - n mod block) = (n div block + 1) * block"
proof -
  have n: "n = n div block * block + n mod block" by (rule div_mult_mod_eq [symmetric])
  have m: "n mod block < block" using assms by simp
  have e: "(n div block + 1) * block = n div block * block + block" by simp
  show "n + (block - n mod block) = (n div block + 1) * block" using n m e by linarith
  then show "(n div block + 1) * block - n = block - n mod block" by linarith
qed

lemma pad_message_ok:
  assumes "0 < block" "block \<le> 255" "length pt \<le> 65536"
  defines "k \<equiv> block - length pt mod block"
  shows "pad_message pt block = Inr (pt @ replicate k (of_nat k))"
  using assms padding_amount [of block "length pt"]
  by (simp add: pad_message_def MAX_BLOCK_SIZE_def MAX_MESSAGE_SIZE_def Let_def)

lemma unpad_run:
  assumes "0 < k" "k \<le> 255"
  shows "unpad_message (pt @ replicate k (of_nat k)) = Inr pt"
proof -
  have "unat (of_nat k :: u8) = k" using assms by (simp add: unat_of_nat)
  moreover have "padding_diff (of_nat k) (replicate k (of_nat k)) = 0"
    by (simp add: padding_diff_zero_iff)
  ultimately show ?thesis
    using assms by (simp add: unpad_message_def Let_def last_append)
qed

lemma unpad_message_ok_iff:
  "unpad_message padded = Inr pt \<longleftrightarrow>
    (\<exists>k. 0 < k \<and> k \<le> 255 \<and> padded = pt @ replicate k (of_nat k))" (is "?l \<longleftrightarrow> ?r")
proof
  assume l: ?l
  define k where "k = unat (last padded)"
  from l have k: "0 < k" "k \<le> 255" "k \<le> length padded" "pt = take (length padded - k) padded"
    and d: "padding_diff (of_nat k) (drop (length padded - k) padded) = 0"
    by (auto simp: unpad_message_def Let_def k_def split: if_splits)
  from d k have "drop (length padded - k) padded = replicate k (of_nat k)"
    by (simp add: padding_diff_zero_iff)
  with k show ?r by (metis append_take_drop_id)
next
  assume ?r
  then show ?l using unpad_run by auto
qed

lemma pad_default_unpad:
  assumes "pad_message_default pt = Inr padded"
  shows "unpad_message padded = Inr pt"
proof -
  have len: "length pt \<le> 65536"
    using assms by (auto simp: pad_message_default_def pad_message_def MAX_MESSAGE_SIZE_def Let_def split: if_splits)
  define k where "k = 255 - length pt mod 255"
  have "length pt mod 255 < 255" by simp
  then have k: "0 < k" "k \<le> 255" by (simp_all add: k_def)
  have "padded = pt @ replicate k (of_nat k)"
    using assms pad_message_ok [of 255 pt] len
    by (simp add: pad_message_default_def DEFAULT_BLOCK_SIZE_def k_def)
  then show ?thesis using unpad_run [OF k] by simp
qed

text \<open>
  C1.  Padding then unpadding gives back the message, and the padded length is a multiple of the
  block size that exceeds the message by at least one and at most one block.
\<close>

theorem pad_unpad_roundtrip:
  assumes "0 < block" "block \<le> 255" "length pt \<le> 65536"
  shows "\<exists>padded. pad_message pt block = Inr padded \<and> unpad_message padded = Inr pt \<and>
    length padded mod block = 0 \<and> length pt < length padded \<and> length padded \<le> length pt + block"
proof -
  define k where "k = block - length pt mod block"
  have k: "0 < k" "k \<le> block" using assms by (simp_all add: k_def)
  have "(length pt + k) mod block = 0"
    using padding_amount(2) [OF assms(1), of "length pt"] by (simp add: k_def)
  moreover have "pad_message pt block = Inr (pt @ replicate k (of_nat k))"
    using assms pad_message_ok by (simp add: k_def)
  ultimately show ?thesis
    using k assms by (auto simp: unpad_run)
qed

theorem pad_unpad_roundtrip_witness:
  "\<exists>padded. pad_message [1, 2, 3] 255 = Inr padded \<and> unpad_message padded = Inr [1, 2, 3] \<and>
    length padded mod 255 = 0 \<and> length ([1, 2, 3] :: bytes) < length padded \<and>
    length padded \<le> length ([1, 2, 3] :: bytes) + 255"
  by (rule pad_unpad_roundtrip) simp_all

end
