(* ===== verification/Wire_Payload.thy ===== *)
theory Wire_Payload
  imports Suite_Id
begin

text \<open>
  The wire format of an encrypted message (\<open>src/wire_payload.rs\<close>): a fixed 52-byte header, an
  optional ML-KEM ciphertext, two optional ML-KEM-1024 objects, the post-quantum ratchet section of
  suite 4, and the sealed box.  \<open>pack_message\<close> writes it, \<open>unpack\<close> reads it with a cursor, as the
  code does; every index is guarded by the length check that the code makes.

  The lemmas show that reading inverts writing on every message the writer accepts and the reader
  does not refuse, and that the reader accepts one byte string per decoded message only.
\<close>

definition DH_KEY_SIZE :: nat where "DH_KEY_SIZE = 32"
definition HEADER_SIZE :: nat where "HEADER_SIZE = 4 + 32 + 4 + 4 + 2 + 4 + 2"
definition PQXDH_V2_FLAG :: u16 where "PQXDH_V2_FLAG = 0x0100"
definition KEM_IDENTITY_FLAG :: u16 where "KEM_IDENTITY_FLAG = 0x0200"
definition IDENTITY_PROOF_FLAG :: u16 where "IDENTITY_PROOF_FLAG = 0x0400"
definition AD_V4_FLAG :: u16 where "AD_V4_FLAG = 0x0800"
definition WIRE_FLAGS :: u16 where
  "WIRE_FLAGS = PQXDH_V2_FLAG OR KEM_IDENTITY_FLAG OR IDENTITY_PROOF_FLAG OR AD_V4_FLAG"
definition KEM_IDENTITY_OBJECT_SIZE :: nat where "KEM_IDENTITY_OBJECT_SIZE = 1568"
definition PQ_RATCHET_SUITE :: u16 where "PQ_RATCHET_SUITE = as_u16 PQ_RATCHET"

definition AD_VERSION_LEGACY :: u8 where "AD_VERSION_LEGACY = 3"
definition AD_VERSION_HEADER :: u8 where "AD_VERSION_HEADER = 4"

datatype pq_ratchet_wire_field =
    PublicKey (field_epoch: u32) (field_key: bytes)
  | Ciphertext (field_epoch: u32) (field_ek_hash: bytes) (field_ct: bytes)

record decoded_wire_payload =
  wp_message_number :: u32
  wp_dh_public_key :: bytes
  wp_one_time_prekey_id :: u32
  wp_kyber_otpk_id :: u32
  wp_previous_chain_length :: u32
  wp_suite_id :: u16
  wp_kem_ciphertext :: "bytes option"
  wp_pqxdh_v2 :: bool
  wp_kem_identity :: "bytes option"
  wp_identity_proof_ciphertext :: "bytes option"
  wp_sealed_box :: bytes
  wp_pq_message_epoch :: u32
  wp_pq_key_index :: u32
  wp_pq_ratchet_field :: "pq_ratchet_wire_field option"
  wp_ad_version :: u8

datatype wire_payload_error =
    InvalidDhPublicKey nat
  | KemTooLarge nat
  | PqFieldTooLarge nat
  | InvalidPqFieldType u8
  | TooShort nat
  | PqxdhFlagWithoutCiphertext
  | KemIdentityWithoutHandshake
  | KemIdentityObjectSize nat
  | RetiredSuite u16
  | PqKeyIndexWithoutEpoch u32
  | NonCanonicalKeyIndex

subsection \<open>LEB128\<close>

function write_leb128 :: "u32 \<Rightarrow> bytes" where
  "write_leb128 v =
    (let byte = (ucast (v AND 0x7f) :: u8);
         v' = drop_bit 7 v
     in if v' = 0 then [byte] else (byte OR 0x80) # write_leb128 v')"
  by pat_completeness auto

lemma drop_bit_7_decreases: "drop_bit 7 v \<noteq> 0 \<Longrightarrow> unat (drop_bit 7 v) < unat v" for v :: u32
proof -
  assume "drop_bit 7 v \<noteq> 0"
  moreover have "unat (drop_bit 7 v) = unat v div 128"
    by (simp add: drop_bit_eq_div unat_div)
  ultimately show ?thesis
    by (metis div_less_dividend gr0I one_less_numeral_iff semiring_norm(76) unat_eq_zero div_0 zero_neq_numeral)
qed

termination write_leb128
  by (relation "measure unat") (simp_all add: drop_bit_7_decreases)

declare write_leb128.simps [simp del]

function read_leb128_loop :: "bytes \<Rightarrow> nat \<Rightarrow> nat \<Rightarrow> u32 \<Rightarrow> wire_payload_error + (u32 \<times> nat)" where
  "read_leb128_loop data cursor i v =
    (if 5 \<le> i then Inl NonCanonicalKeyIndex
     else if length data \<le> cursor + i then Inl (TooShort (length data))
     else
       (let byte = data ! (cursor + i);
            group = (ucast (byte AND 0x7f) :: u32)
        in if i = 4 \<and> 0x0f < group then Inl NonCanonicalKeyIndex
           else
             (let v' = v OR push_bit (7 * i) group
              in if byte AND 0x80 = 0
                 then if 0 < i \<and> byte = 0 then Inl NonCanonicalKeyIndex
                      else Inr (v', cursor + i + 1)
                 else read_leb128_loop data cursor (i + 1) v')))"
  by pat_completeness auto

termination read_leb128_loop
  by (relation "measure (\<lambda>(data, cursor, i, v). 5 - i)") auto

declare read_leb128_loop.simps [simp del]

definition read_leb128 :: "bytes \<Rightarrow> nat \<Rightarrow> wire_payload_error + (u32 \<times> nat)" where
  "read_leb128 data cursor = read_leb128_loop data cursor 0 0"

subsection \<open>Packing\<close>

definition pack_objects :: "bytes option list \<Rightarrow> bytes" where
  "pack_objects objects =
    concat (map (\<lambda>ob. case ob of None \<Rightarrow> [] | Some ob \<Rightarrow> u16_to_le (of_nat (length ob)) @ ob) objects)"

definition pack_pq_field :: "pq_ratchet_wire_field option \<Rightarrow> wire_payload_error + bytes" where
  "pack_pq_field field = (case field of
     None \<Rightarrow> Inr [0]
   | Some (PublicKey ep key) \<Rightarrow>
       if 65535 < length key then Inl (PqFieldTooLarge (length key))
       else Inr ([1] @ u32_to_le ep @ u16_to_le (of_nat (length key)) @ key)
   | Some (Ciphertext ep ek_hash ct) \<Rightarrow>
       if 65535 < length ct then Inl (PqFieldTooLarge (length ct))
       else Inr ([2] @ u32_to_le ep @ ek_hash @ u16_to_le (of_nat (length ct)) @ ct))"

definition pack_pq_section ::
    "u32 \<Rightarrow> u32 \<Rightarrow> pq_ratchet_wire_field option \<Rightarrow> wire_payload_error + bytes" where
  "pack_pq_section epoch index field =
    res_bind (pack_pq_field field) (\<lambda>b. Inr (u32_to_le epoch @ write_leb128 index @ b))"

definition check_object_size :: "bytes option \<Rightarrow> wire_payload_error + unit" where
  "check_object_size ob = (case ob of
     None \<Rightarrow> Inr ()
   | Some ob \<Rightarrow> if length ob \<noteq> KEM_IDENTITY_OBJECT_SIZE then Inl (KemIdentityObjectSize (length ob))
                else Inr ())"

definition wire_suite_flags :: "u8 \<Rightarrow> nat \<Rightarrow> bytes option \<Rightarrow> bytes option \<Rightarrow> u16" where
  "wire_suite_flags ad_version kem_len kem_identity identity_proof_ct =
    (if AD_VERSION_HEADER \<le> ad_version then AD_V4_FLAG else 0) OR
    (if 0 < kem_len then PQXDH_V2_FLAG else 0) OR
    (if kem_identity \<noteq> None then KEM_IDENTITY_FLAG else 0) OR
    (if identity_proof_ct \<noteq> None then IDENTITY_PROOF_FLAG else 0)"

definition pack_message ::
    "u8 \<Rightarrow> bytes \<Rightarrow> u32 \<Rightarrow> u32 \<Rightarrow> u32 \<Rightarrow> u32 \<Rightarrow> u16 \<Rightarrow> bytes option \<Rightarrow> bytes option \<Rightarrow> bytes option
     \<Rightarrow> bytes \<Rightarrow> u32 \<Rightarrow> u32 \<Rightarrow> pq_ratchet_wire_field option \<Rightarrow> wire_payload_error + bytes" where
  "pack_message ad_version dh_public_key message_number one_time_prekey_id kyber_otpk_id
      previous_chain_length suite_id kem_ciphertext kem_identity identity_proof_ct sealed_box
      pq_message_epoch pq_key_index pq_ratchet_field =
    (let kem_len = (case kem_ciphertext of None \<Rightarrow> 0 | Some k \<Rightarrow> length k)
     in if length dh_public_key \<noteq> DH_KEY_SIZE then Inl (InvalidDhPublicKey (length dh_public_key))
        else if 65535 < kem_len then Inl (KemTooLarge kem_len)
        else if kem_identity \<noteq> None \<and> kem_len = 0 then Inl KemIdentityWithoutHandshake
        else
          res_bind (check_object_size kem_identity) (\<lambda>_.
          res_bind (check_object_size identity_proof_ct) (\<lambda>_.
            (let suite_id = suite_id AND NOT WIRE_FLAGS;
                 wire_suite_id = suite_id OR wire_suite_flags ad_version kem_len kem_identity
                   identity_proof_ct
             in res_bind (if suite_id = PQ_RATCHET_SUITE
                          then pack_pq_section pq_message_epoch pq_key_index pq_ratchet_field
                          else Inr []) (\<lambda>pq_bytes.
                  Inr (u32_to_le message_number @ dh_public_key @ u32_to_le one_time_prekey_id @
                       u32_to_le kyber_otpk_id @ u16_to_le (of_nat kem_len) @
                       u32_to_le previous_chain_length @ u16_to_le wire_suite_id @
                       (case kem_ciphertext of None \<Rightarrow> [] | Some kem \<Rightarrow> kem) @
                       pack_objects [kem_identity, identity_proof_ct] @ pq_bytes @ sealed_box))))))"

definition pack ::
    "bytes \<Rightarrow> u32 \<Rightarrow> u32 \<Rightarrow> u32 \<Rightarrow> u32 \<Rightarrow> u16 \<Rightarrow> bytes option \<Rightarrow> bytes option \<Rightarrow> bytes option
     \<Rightarrow> bytes \<Rightarrow> u32 \<Rightarrow> u32 \<Rightarrow> pq_ratchet_wire_field option \<Rightarrow> wire_payload_error + bytes" where
  "pack = pack_message AD_VERSION_LEGACY"

subsection \<open>Unpacking\<close>

definition kem_identity_object ::
    "bytes \<Rightarrow> bool \<Rightarrow> nat \<Rightarrow> wire_payload_error + (bytes option \<times> nat)" where
  "kem_identity_object data present cursor =
    (if \<not> present then Inr (None, cursor)
     else if length data < cursor + 2 then Inl (TooShort (length data))
     else
       (let len = unat (u16_from_le (subslice cursor (cursor + 2) data))
        in if len \<noteq> KEM_IDENTITY_OBJECT_SIZE then Inl (KemIdentityObjectSize len)
           else
             (let cursor = cursor + 2
              in if length data < cursor + len then Inl (TooShort (length data))
                 else Inr (Some (subslice cursor (cursor + len) data), cursor + len))))"

definition unpack_pq_field ::
    "bytes \<Rightarrow> nat \<Rightarrow> wire_payload_error + (pq_ratchet_wire_field option \<times> nat)" where
  "unpack_pq_field data cursor =
    (if length data < cursor + 1 then Inl (TooShort (length data))
     else
       (let typ = data ! cursor; cursor = cursor + 1
        in if typ = 0 then Inr (None, cursor)
           else if typ = 1 then
             if length data < cursor + 6 then Inl (TooShort (length data))
             else
               (let epoch = u32_from_le (subslice cursor (cursor + 4) data);
                    len = unat (u16_from_le (subslice (cursor + 4) (cursor + 6) data));
                    cursor = cursor + 6
                in if length data < cursor + len then Inl (TooShort (length data))
                   else Inr (Some (PublicKey epoch (subslice cursor (cursor + len) data)), cursor + len))
           else if typ = 2 then
             if length data < cursor + 14 then Inl (TooShort (length data))
             else
               (let epoch = u32_from_le (subslice cursor (cursor + 4) data);
                    ek_hash = subslice (cursor + 4) (cursor + 12) data;
                    len = unat (u16_from_le (subslice (cursor + 12) (cursor + 14) data));
                    cursor = cursor + 14
                in if length data < cursor + len then Inl (TooShort (length data))
                   else Inr (Some (Ciphertext epoch ek_hash (subslice cursor (cursor + len) data)),
                             cursor + len))
           else Inl (InvalidPqFieldType typ)))"

definition unpack_pq_section ::
    "bytes \<Rightarrow> nat \<Rightarrow> wire_payload_error + (u32 \<times> u32 \<times> pq_ratchet_wire_field option \<times> nat)" where
  "unpack_pq_section data cursor =
    (if length data < cursor + 4 then Inl (TooShort (length data))
     else
       (let epoch = u32_from_le (subslice cursor (cursor + 4) data)
        in res_bind (read_leb128 data (cursor + 4)) (\<lambda>(index, cursor).
             if epoch = 0 \<and> index \<noteq> 0 then Inl (PqKeyIndexWithoutEpoch index)
             else res_bind (unpack_pq_field data cursor) (\<lambda>(field, cursor).
               Inr (epoch, index, field, cursor)))))"

definition unpack_body ::
    "bytes \<Rightarrow> u16 \<Rightarrow> nat \<Rightarrow> wire_payload_error + decoded_wire_payload" where
  "unpack_body data wire_suite_id kem_len =
    (let pqxdh_v2 = (wire_suite_id AND PQXDH_V2_FLAG \<noteq> 0);
         has_kem_identity = (wire_suite_id AND KEM_IDENTITY_FLAG \<noteq> 0);
         has_identity_proof = (wire_suite_id AND IDENTITY_PROOF_FLAG \<noteq> 0);
         ad_version = (if wire_suite_id AND AD_V4_FLAG \<noteq> 0 then AD_VERSION_HEADER
                       else AD_VERSION_LEGACY);
         suite_id = wire_suite_id AND NOT WIRE_FLAGS
     in if pqxdh_v2 \<and> kem_len = 0 then Inl PqxdhFlagWithoutCiphertext
        else if has_kem_identity \<and> \<not> pqxdh_v2 then Inl KemIdentityWithoutHandshake
        else
          (let sealed_box_start = HEADER_SIZE + kem_len
           in if length data \<le> sealed_box_start then Inl (TooShort (length data))
              else
                res_bind (kem_identity_object data has_kem_identity sealed_box_start)
                  (\<lambda>(kem_identity, cursor).
                res_bind (kem_identity_object data has_identity_proof cursor)
                  (\<lambda>(identity_proof_ciphertext, cursor).
                if suite_id = RETIRED_PQ_RATCHET_V1 then Inl (RetiredSuite suite_id)
                else
                  res_bind (if suite_id = PQ_RATCHET_SUITE then unpack_pq_section data cursor
                            else Inr (0, 0, None, cursor))
                    (\<lambda>(pq_message_epoch, pq_key_index, pq_ratchet_field, cursor).
                  if length data \<le> cursor then Inl (TooShort (length data))
                  else Inr \<lparr> wp_message_number = u32_from_le (subslice 0 4 data),
                             wp_dh_public_key = subslice 4 36 data,
                             wp_one_time_prekey_id = u32_from_le (subslice 36 40 data),
                             wp_kyber_otpk_id = u32_from_le (subslice 40 44 data),
                             wp_previous_chain_length = u32_from_le (subslice 46 50 data),
                             wp_suite_id = suite_id,
                             wp_kem_ciphertext =
                               (if 0 < kem_len then Some (subslice HEADER_SIZE sealed_box_start data)
                                else None),
                             wp_pqxdh_v2 = pqxdh_v2,
                             wp_kem_identity = kem_identity,
                             wp_identity_proof_ciphertext = identity_proof_ciphertext,
                             wp_sealed_box = drop cursor data,
                             wp_pq_message_epoch = pq_message_epoch,
                             wp_pq_key_index = pq_key_index,
                             wp_pq_ratchet_field = pq_ratchet_field,
                             wp_ad_version = ad_version \<rparr>)))))"

definition unpack :: "bytes \<Rightarrow> wire_payload_error + decoded_wire_payload" where
  "unpack data =
    (if length data \<le> HEADER_SIZE then Inl (TooShort (length data))
     else unpack_body data (u16_from_le (subslice 50 52 data))
            (unat (u16_from_le (subslice 44 46 data))))"

subsection \<open>LEB128 is read back, and read only in its shortest form\<close>

lemma leb_mask_bits:
  "bit (0x7f :: int) n \<longleftrightarrow> n < 7" "bit (0x80 :: int) n \<longleftrightarrow> n = 7"
proof -
  have "mask 7 = (0x7f :: int)" by (simp add: mask_eq_exp_minus_1)
  then show "bit (0x7f :: int) n \<longleftrightarrow> n < 7" by (metis bit_mask_iff possible_bit_int)
  have "(2 :: int) ^ 7 = 0x80" by simp
  then show "bit (0x80 :: int) n \<longleftrightarrow> n = 7" by (metis bit_exp_iff possible_bit_int)
qed

lemma leb_group:
  "(ucast ((ucast (v AND 0x7f) :: u8) AND 0x7f) :: u32) = v AND 0x7f"
  "(ucast (((ucast (v AND 0x7f) :: u8) OR 0x80) AND 0x7f) :: u32) = v AND 0x7f" for v :: u32
  by (rule bit_word_eqI, auto simp: bit_simps leb_mask_bits)+

lemma bit_eq_zero: "w = 0 \<longleftrightarrow> (\<forall>n < LENGTH('a). \<not> bit w n)" for w :: "'a::len word"
  by (auto intro: bit_word_eqI)

lemma leb_more:
  "(ucast (v AND 0x7f) :: u8) AND 0x80 = 0"
  "((b :: u8) OR 0x80) AND 0x80 \<noteq> 0"
  "(b AND 0x80 = 0) \<longleftrightarrow> \<not> bit b 7" for v :: u32
  by (auto simp: bit_eq_zero bit_simps leb_mask_bits dest: spec [where x = 7])

lemma leb_join: "push_bit k (v AND 0x7f) OR push_bit (k + 7) (drop_bit 7 v) = push_bit k v" for v :: u32
proof (rule bit_word_eqI)
  fix n assume "n < LENGTH(32)"
  then show "bit (push_bit k (v AND 0x7f) OR push_bit (k + 7) (drop_bit 7 v)) n \<longleftrightarrow> bit (push_bit k v) n"
    by (cases "k + 7 \<le> n") (auto simp: bit_simps leb_mask_bits)
qed

lemma leb_byte_split:
  "byte AND 0x80 \<noteq> 0 \<Longrightarrow> byte = (byte AND 0x7f) OR 0x80"
  "byte AND 0x80 = 0 \<Longrightarrow> byte AND 0x7f = byte" for byte :: u8
proof -
  have *: "n < 8 \<Longrightarrow> n < 7 \<or> n = 7" for n :: nat by auto
  show "byte AND 0x80 \<noteq> 0 \<Longrightarrow> byte = (byte AND 0x7f) OR 0x80"
    "byte AND 0x80 = 0 \<Longrightarrow> byte AND 0x7f = byte"
    by (rule bit_word_eqI, use * in \<open>auto simp: bit_simps leb_mask_bits leb_more(3)\<close>)+
qed

lemma leb_bound_drop: "unat v < 2 ^ (k + 7) \<Longrightarrow> unat (drop_bit 7 v) < 2 ^ k" for v :: u32
  by (simp add: drop_bit_eq_div unat_div power_add less_mult_imp_div_less)

lemma leb_zero_and: "v AND 0x7f = 0 \<Longrightarrow> drop_bit 7 v = 0 \<Longrightarrow> v = 0" for v :: u32
  using leb_join [of 0 v] by simp


lemma write_leb128_last: "drop_bit 7 v = 0 \<Longrightarrow> write_leb128 v = [ucast (v AND 0x7f)]"
  by (subst write_leb128.simps) (simp add: Let_def)

lemma write_leb128_more:
  "drop_bit 7 v \<noteq> 0 \<Longrightarrow> write_leb128 v = (ucast (v AND 0x7f) OR 0x80) # write_leb128 (drop_bit 7 v)"
  by (subst write_leb128.simps) (simp add: Let_def)

lemma leb_fifth_group:
  fixes v :: u32
  assumes "unat v < 16"
  shows "\<not> 0x0f < v AND 0x7f" "drop_bit 7 v = 0"
proof -
  have "v AND 0x7f \<le> v" by (rule word_and_le2)
  then show "\<not> 0x0f < v AND 0x7f" using assms by (simp add: word_le_nat_alt word_less_nat_alt)
  show "drop_bit 7 v = 0"
    using assms by (simp add: drop_bit_eq_div unat_div word_unat_eq_iff)
qed

lemma read_write_leb128_loop:
  assumes "drop (cur + i) data = write_leb128 v @ rest" "i < 5" "unat v < 2 ^ (32 - 7 * i)"
    and "0 < i \<Longrightarrow> v \<noteq> 0"
  shows "read_leb128_loop data cur i acc =
    Inr (acc OR push_bit (7 * i) v, cur + i + length (write_leb128 v))"
  using assms
proof (induction v arbitrary: i acc rule: write_leb128.induct)
  case (1 v)
  have five: "i = 4 \<Longrightarrow> unat v < 16" using "1.prems"(3) by simp
  show ?case
  proof (cases "drop_bit 7 v = 0")
    case True
    with "1.prems"(1) have d: "drop (cur + i) data = ucast (v AND 0x7f) # rest"
      by (simp add: write_leb128_last)
    note n = drop_ConsD [OF d]
    have "0 < i \<Longrightarrow> (ucast (v AND 0x7f) :: u8) \<noteq> 0"
      using leb_group(1) [of v] leb_zero_and [OF _ True] "1.prems"(4) by auto
    then show ?thesis
      using n "1.prems"(2) five leb_join [of "7 * i" v] True
      by (subst read_leb128_loop.simps)
        (auto simp: Let_def leb_group leb_more leb_fifth_group write_leb128_last)
  next
    case False
    then have i: "i < 4" using "1.prems"(2) five leb_fifth_group(2) by fastforce
    have d: "drop (cur + i) data = (ucast (v AND 0x7f) OR 0x80) # (write_leb128 (drop_bit 7 v) @ rest)"
      using "1.prems"(1) False by (simp add: write_leb128_more)
    note n = drop_ConsD [OF d]
    have "32 - 7 * i = (32 - 7 * (i + 1)) + 7" using i by simp
    then have b: "unat (drop_bit 7 v) < 2 ^ (32 - 7 * (i + 1))"
      using "1.prems"(3) leb_bound_drop by metis
    have "drop (cur + (i + 1)) data = write_leb128 (drop_bit 7 v) @ rest"
      using n(3) by simp
    with "1.IH" [OF refl refl False, of "i + 1"] i b False
    have "read_leb128_loop data cur (i + 1) acc' =
      Inr (acc' OR push_bit (7 * (i + 1)) (drop_bit 7 v), cur + (i + 1) + length (write_leb128 (drop_bit 7 v)))"
      for acc' by simp
    moreover have "read_leb128_loop data cur i acc =
        read_leb128_loop data cur (i + 1) (acc OR push_bit (7 * i) (v AND 0x7f))"
      using n(1,2) i leb_more(2)
      by (subst read_leb128_loop.simps) (simp only: Let_def leb_group if_False if_True, simp)
    ultimately show ?thesis
      using leb_join [of "7 * i" v] False by (simp add: write_leb128_more or.assoc add.commute)
  qed
qed

lemma read_write_leb128:
  assumes "drop cur data = write_leb128 v @ rest"
  shows "read_leb128 data cur = Inr (v, cur + length (write_leb128 v))"
  using read_write_leb128_loop [of cur 0 data v rest 0] assms unat_less_power [of v]
  by (simp add: read_leb128_def)

lemma leb_extend:
  fixes b :: u8 and w :: u32
  assumes "unat w < 2 ^ k" "k \<le> 25"
  defines "v \<equiv> ucast (b AND 0x7f) OR push_bit 7 w"
  shows "drop_bit 7 v = w" "(ucast (v AND 0x7f) :: u8) = b AND 0x7f" "unat v < 2 ^ (k + 7)"
    "push_bit n (ucast (b AND 0x7f)) OR push_bit (n + 7) w = push_bit n v"
proof -
  have w: "bit w m \<Longrightarrow> m < k" for m
    using assms(1) by (metis bit_take_bit_iff take_bit_nat_eq_self_iff unsigned_take_bit_eq word_unat_eq_iff)
  have bv: "bit v m \<longleftrightarrow> (m < 7 \<and> bit b m) \<or> (7 \<le> m \<and> m < 32 \<and> bit w (m - 7))" for m
    by (auto simp: v_def bit_simps leb_mask_bits)
  show "drop_bit 7 v = w"
    by (rule bit_word_eqI) (use w assms(2) in \<open>auto simp: bit_drop_bit_eq bv\<close>, fastforce)
  show "(ucast (v AND 0x7f) :: u8) = b AND 0x7f"
    by (rule bit_word_eqI) (auto simp: bit_simps bv leb_mask_bits)
  have "take_bit (k + 7) v = v"
    by (rule bit_word_eqI) (auto simp: bit_simps bv dest: w)
  then show "unat v < 2 ^ (k + 7)"
    by (metis take_bit_nat_less_exp unsigned_take_bit_eq)
  show "push_bit n (ucast (b AND 0x7f)) OR push_bit (n + 7) w = push_bit n v"
    by (simp add: v_def push_bit_or)
qed

lemma leb_single:
  fixes b :: u8
  assumes "b AND 0x80 = 0"
  defines "g \<equiv> ucast (b AND 0x7f) :: u32"
  shows "write_leb128 g = [b]" "b \<noteq> 0 \<Longrightarrow> g \<noteq> 0" "unat g < 128"
proof -
  have b: "b AND 0x7f = b" using leb_byte_split(2) [OF assms(1)] .
  have "drop_bit 7 g = 0"
    unfolding g_def by (rule bit_word_eqI) (auto simp: bit_simps leb_mask_bits)
  moreover have u: "(ucast (g AND 0x7f) :: u8) = b AND 0x7f"
    unfolding g_def by (rule bit_word_eqI) (auto simp: bit_simps leb_mask_bits)
  ultimately show "write_leb128 g = [b]" using b by (simp add: write_leb128_last)
  show "b \<noteq> 0 \<Longrightarrow> g \<noteq> 0" using u b by auto
  have "take_bit 7 g = g"
    unfolding g_def by (rule bit_word_eqI) (auto simp: bit_simps leb_mask_bits)
  then have "unat g < 2 ^ 7" by (metis take_bit_nat_less_exp unsigned_take_bit_eq)
  then show "unat g < 128" by simp
qed

lemma read_leb128_loop_canonical:
  assumes "read_leb128_loop data cur i acc = Inr (r, cur')"
  shows "\<exists>v. r = acc OR push_bit (7 * i) v \<and> cur + i < cur' \<and> cur' \<le> length data \<and> i < 5 \<and>
    subslice (cur + i) cur' data = write_leb128 v \<and> (0 < i \<longrightarrow> v \<noteq> 0) \<and> unat v < 2 ^ (32 - 7 * i)"
  using assms
proof (induction data cur i acc rule: read_leb128_loop.induct)
  case (1 data cur i acc)
  let ?b = "data ! (cur + i)" and ?g = "ucast (data ! (cur + i) AND 0x7f) :: u32"
  from "1.prems" have i: "i < 5" "cur + i < length data" "\<not> (i = 4 \<and> 0x0f < ?g)"
    by (subst (asm) read_leb128_loop.simps, simp add: Let_def split: if_splits)+
  show ?case
  proof (cases "?b AND 0x80 = 0")
    case True
    note g = leb_single [OF True]
    have "r = acc OR push_bit (7 * i) ?g \<and> cur' = cur + i + 1 \<and> (0 < i \<longrightarrow> ?b \<noteq> 0)"
      using "1.prems" True
      by (subst (asm) read_leb128_loop.simps) (auto simp: Let_def split: if_splits)
    moreover have "unat ?g < 2 ^ (32 - 7 * i)"
    proof (cases "i = 4")
      case True
      with i(3) show ?thesis by (simp add: word_less_nat_alt)
    next
      case False
      then have "(2 :: nat) ^ 7 \<le> 2 ^ (32 - 7 * i)" using i(1) by (intro power_increasing) auto
      with g(3) show ?thesis by simp
    qed
    moreover have "subslice (cur + i) (cur + i + 1) data = [?b]"
      using i(2) by (simp add: subslice_Cons) (simp add: subslice_def)
    ultimately show ?thesis
      using i g(1,2) by (intro exI [of _ ?g]) auto
  next
    case False
    from "1.prems" False i have "read_leb128_loop data cur (i + 1) (acc OR push_bit (7 * i) ?g) = Inr (r, cur')"
      by (subst (asm) read_leb128_loop.simps) (simp add: Let_def split: if_splits)
    with "1.IH" [OF _ _ refl refl _ refl False] i obtain w where
      w: "r = acc OR push_bit (7 * i) ?g OR push_bit (7 * (i + 1)) w" "cur + (i + 1) < cur'"
        "cur' \<le> length data" "i + 1 < 5" "subslice (cur + (i + 1)) cur' data = write_leb128 w" "w \<noteq> 0"
        "unat w < 2 ^ (32 - 7 * (i + 1))"
      by (auto simp: or.assoc)
    define v where "v = ?g OR push_bit 7 w"
    have "32 - 7 * (i + 1) \<le> 25" "32 - 7 * (i + 1) + 7 = 32 - 7 * i" using w(4) by simp_all
    note e = leb_extend [OF w(7) this(1), where b = ?b, folded v_def, unfolded this(2)]
    have "write_leb128 v = ?b # write_leb128 w"
      using write_leb128_more [of v] e(1,2) w(6) leb_byte_split(1) [OF False] by simp
    moreover have "v \<noteq> 0" using e(1) w(6) by auto
    ultimately show ?thesis
      using w i e(3) e(4) [of "7 * i"]
      by (intro exI [of _ v]) (auto simp: subslice_Cons or.assoc add.commute)
  qed
qed

lemma read_leb128_canonical:
  assumes "read_leb128 data cur = Inr (v, cur')"
  shows "cur < cur'" "cur' \<le> length data" "subslice cur cur' data = write_leb128 v"
  using read_leb128_loop_canonical [of data cur 0 0 v cur'] assms
  by (auto simp: read_leb128_def)

subsection \<open>Each section is read back, and read in one form only\<close>

definition valid_wire_field :: "pq_ratchet_wire_field option \<Rightarrow> bool" where
  "valid_wire_field field = (case field of Some (Ciphertext _ h _) \<Rightarrow> length h = 8 | _ \<Rightarrow> True)"

lemma u16_len_roundtrip: "n \<le> 65535 \<Longrightarrow> unat (of_nat n :: u16) = n"
  by (simp add: unat_of_nat)

lemma u16_slice:
  "length bs = 2 \<Longrightarrow> unat (u16_from_le bs) = n \<Longrightarrow> bs = u16_to_le (of_nat n)"
  using int_codec_inverse(1) [of bs] by auto

lemma pack_objects_single:
  "pack_objects [None] = []" "pack_objects [Some ob] = u16_to_le (of_nat (length ob)) @ ob"
  "pack_objects [a, b] = pack_objects [a] @ pack_objects [b]"
  by (simp_all add: pack_objects_def)

lemma kem_identity_object_read:
  assumes "drop cur data = pack_objects [ob] @ rest" "cur \<le> length data"
    and "check_object_size ob = Inr ()" "present \<longleftrightarrow> ob \<noteq> None"
  shows "kem_identity_object data present cur = Inr (ob, cur + length (pack_objects [ob]))"
proof (cases ob)
  case None
  then show ?thesis using assms by (simp add: kem_identity_object_def pack_objects_single)
next
  case (Some x)
  have x: "length x = 1568"
    using assms(3) Some by (auto simp: check_object_size_def KEM_IDENTITY_OBJECT_SIZE_def split: if_splits)
  have d: "drop cur data = u16_to_le (of_nat (length x)) @ x @ rest"
    using assms(1) Some by (simp add: pack_objects_single)
  have l: "length data = cur + 2 + 1568 + length rest"
    using length_of_drop [OF d assms(2)] x by simp
  have s: "subslice cur (cur + 2) data = u16_to_le (of_nat (length x))"
    by (rule subslice_of_drop [OF d]) simp
  have "drop (cur + 2) data = x @ rest" by (rule drop_of_drop [OF d]) simp
  then have "subslice (cur + 2) (cur + 2 + 1568) data = x"
    by (rule subslice_of_drop) (simp add: x)
  then show ?thesis
    using assms(4) Some l s x
    by (simp add: kem_identity_object_def KEM_IDENTITY_OBJECT_SIZE_def Let_def u16_len_roundtrip
        pack_objects_single)
qed

lemma kem_identity_object_canonical:
  assumes "kem_identity_object data present cur = Inr (ob, cur')" "cur \<le> length data"
  shows "cur \<le> cur'" "cur' \<le> length data" "subslice cur cur' data = pack_objects [ob]"
    "check_object_size ob = Inr ()" "present \<longleftrightarrow> ob \<noteq> None"
proof -
  have "cur \<le> cur' \<and> cur' \<le> length data \<and> subslice cur cur' data = pack_objects [ob] \<and>
    check_object_size ob = Inr () \<and> (present \<longleftrightarrow> ob \<noteq> None)"
  proof (cases present)
    case False
    then show ?thesis using assms
      by (auto simp: kem_identity_object_def pack_objects_single subslice_def check_object_size_def)
  next
    case True
    let ?l = "subslice cur (cur + 2) data"
    from assms True have c: "cur + 2 + 1568 \<le> length data" "unat (u16_from_le ?l) = 1568"
      "cur' = cur + 2 + 1568" "ob = Some (subslice (cur + 2) (cur + 2 + 1568) data)"
      by (auto simp: kem_identity_object_def KEM_IDENTITY_OBJECT_SIZE_def Let_def split: if_splits)
    have "?l = u16_to_le (of_nat 1568)"
      by (rule u16_slice) (use c in simp_all)
    moreover have "subslice cur cur' data = ?l @ subslice (cur + 2) (cur + 2 + 1568) data"
      unfolding c(3) by (rule subslice_append [symmetric]) simp_all
    ultimately show ?thesis
      using c True by (simp add: pack_objects_single check_object_size_def KEM_IDENTITY_OBJECT_SIZE_def)
  qed
  then show "cur \<le> cur'" "cur' \<le> length data" "subslice cur cur' data = pack_objects [ob]"
    "check_object_size ob = Inr ()" "present \<longleftrightarrow> ob \<noteq> None" by auto
qed


lemma unpack_pq_field_read:
  assumes "drop cur data = fb @ rest" "cur \<le> length data" "pack_pq_field field = Inr fb"
    and "valid_wire_field field"
  shows "unpack_pq_field data cur = Inr (field, cur + length fb)"
proof (cases field)
  case None
  with assms(3) have "drop cur data = 0 # rest" using assms(1) by (simp add: pack_pq_field_def)
  from drop_ConsD [OF this] show ?thesis
    using None assms(3) by (auto simp: unpack_pq_field_def pack_pq_field_def Let_def)
next
  case (Some f)
  show ?thesis
  proof (cases f)
    case (PublicKey ep key)
    with Some assms(3) have k: "length key \<le> 65535"
      and fb: "fb = [1] @ u32_to_le ep @ u16_to_le (of_nat (length key)) @ key"
      by (simp_all add: pack_pq_field_def split: if_splits)
    have d: "drop cur data = 1 # (u32_to_le ep @ u16_to_le (of_nat (length key)) @ key @ rest)"
      using assms(1) fb by simp
    note d1 = drop_ConsD [OF d]
    have d2: "drop (5 + cur) data = u16_to_le (of_nat (length key)) @ key @ rest"
      by (rule drop_of_drop [OF d1(3)]) simp
    have d3: "drop (7 + cur) data = key @ rest" by (rule drop_of_drop [OF d2]) simp
    have "subslice (Suc cur) (5 + cur) data = u32_to_le ep"
      by (rule subslice_of_drop [OF d1(3)]) simp
    moreover have "subslice (5 + cur) (7 + cur) data = u16_to_le (of_nat (length key))"
      by (rule subslice_of_drop [OF d2]) simp
    moreover have "subslice (7 + cur) (7 + cur + length key) data = key"
      by (rule subslice_of_drop [OF d3]) simp
    moreover have "length data = 7 + cur + length key + length rest"
      using length_of_drop [OF assms(1,2)] fb by simp
    ultimately show ?thesis
      using Some PublicKey d1(1) k fb by (simp add: unpack_pq_field_def Let_def u16_len_roundtrip)
  next
    case (Ciphertext ep h ct)
    with Some assms(3,4) have k: "length ct \<le> 65535" "length h = 8"
      and fb: "fb = [2] @ u32_to_le ep @ h @ u16_to_le (of_nat (length ct)) @ ct"
      by (simp_all add: pack_pq_field_def valid_wire_field_def split: if_splits)
    have d: "drop cur data = 2 # (u32_to_le ep @ h @ u16_to_le (of_nat (length ct)) @ ct @ rest)"
      using assms(1) fb by simp
    note d1 = drop_ConsD [OF d]
    have d2: "drop (5 + cur) data = h @ u16_to_le (of_nat (length ct)) @ ct @ rest"
      by (rule drop_of_drop [OF d1(3)]) simp
    have d3: "drop (13 + cur) data = u16_to_le (of_nat (length ct)) @ ct @ rest"
      by (rule drop_of_drop [OF d2]) (simp add: k)
    have d4: "drop (15 + cur) data = ct @ rest" by (rule drop_of_drop [OF d3]) simp
    have "subslice (Suc cur) (5 + cur) data = u32_to_le ep"
      by (rule subslice_of_drop [OF d1(3)]) simp
    moreover have "subslice (5 + cur) (13 + cur) data = h"
      by (rule subslice_of_drop [OF d2]) (simp add: k)
    moreover have "subslice (13 + cur) (15 + cur) data = u16_to_le (of_nat (length ct))"
      by (rule subslice_of_drop [OF d3]) simp
    moreover have "subslice (15 + cur) (15 + cur + length ct) data = ct"
      by (rule subslice_of_drop [OF d4]) simp
    moreover have "length data = 15 + cur + length ct + length rest"
      using length_of_drop [OF assms(1,2)] fb k by simp
    ultimately show ?thesis
      using Some Ciphertext d1(1) k fb by (simp add: unpack_pq_field_def Let_def u16_len_roundtrip)
  qed
qed

lemma unpack_pq_field_canonical:
  assumes "unpack_pq_field data cur = Inr (field, cur')"
  shows "cur \<le> cur'" "cur' \<le> length data" "pack_pq_field field = Inr (subslice cur cur' data)"
    "valid_wire_field field"
proof -
  from assms have c: "cur < length data"
    by (simp add: unpack_pq_field_def split: if_splits)
  have e: "subslice cur n data = data ! cur # subslice (Suc cur) n data" if "cur < n" for n
    using subslice_Cons [OF c that] .
  consider "data ! cur = 0" "field = None" "cur' = Suc cur"
    | len where "data ! cur = 1" "len = unat (u16_from_le (subslice (5 + cur) (7 + cur) data))"
       "cur' = 7 + cur + len" "cur' \<le> length data"
       "field = Some (PublicKey (u32_from_le (subslice (Suc cur) (5 + cur) data))
                  (subslice (7 + cur) (7 + cur + len) data))"
    | len where "data ! cur = 2" "len = unat (u16_from_le (subslice (13 + cur) (15 + cur) data))"
       "cur' = 15 + cur + len" "cur' \<le> length data"
       "field = Some (Ciphertext (u32_from_le (subslice (Suc cur) (5 + cur) data))
                  (subslice (5 + cur) (13 + cur) data) (subslice (15 + cur) (15 + cur + len) data))"
    using assms by (auto simp: unpack_pq_field_def Let_def split: if_splits)
  then have "cur \<le> cur' \<and> cur' \<le> length data \<and> pack_pq_field field = Inr (subslice cur cur' data) \<and>
    valid_wire_field field"
  proof cases
    case 1
    then show ?thesis
      using c e [of "Suc cur"] by (simp add: pack_pq_field_def valid_wire_field_def) (simp add: subslice_def)
  next
    case (2 len)
    have "len \<le> 65535" using 2(2) unat_less_256(1) by (simp add: less_Suc_eq_le [symmetric])
    moreover have "subslice (5 + cur) (7 + cur) data = u16_to_le (of_nat len)"
      by (rule u16_slice) (use 2 in simp_all)
    moreover have "u32_to_le (u32_from_le (subslice (Suc cur) (5 + cur) data)) = subslice (Suc cur) (5 + cur) data"
      by (rule int_codec_inverse) (use 2 in simp)
    moreover have "subslice (Suc cur) cur' data = subslice (Suc cur) (5 + cur) data @
       subslice (5 + cur) (7 + cur) data @ subslice (7 + cur) (7 + cur + len) data"
      using 2(3) by (simp add: subslice_append)
    ultimately show ?thesis
      using 2(1,3-5) e [of cur'] by (simp add: pack_pq_field_def valid_wire_field_def)
  next
    case (3 len)
    have "len \<le> 65535" using 3(2) unat_less_256(1) by (simp add: less_Suc_eq_le [symmetric])
    moreover have "subslice (13 + cur) (15 + cur) data = u16_to_le (of_nat len)"
      by (rule u16_slice) (use 3 in simp_all)
    moreover have "u32_to_le (u32_from_le (subslice (Suc cur) (5 + cur) data)) = subslice (Suc cur) (5 + cur) data"
      by (rule int_codec_inverse) (use 3 in simp)
    moreover have "subslice (Suc cur) cur' data = subslice (Suc cur) (5 + cur) data @
       subslice (5 + cur) (13 + cur) data @ subslice (13 + cur) (15 + cur) data @
       subslice (15 + cur) (15 + cur + len) data"
      using 3(3) by (simp add: subslice_append)
    ultimately show ?thesis
      using 3(1,3-5) e [of cur'] by (simp add: pack_pq_field_def valid_wire_field_def)
  qed
  then show "cur \<le> cur'" "cur' \<le> length data" "pack_pq_field field = Inr (subslice cur cur' data)"
    "valid_wire_field field" by auto
qed


lemma unpack_pq_section_read:
  assumes "drop cur data = pb @ rest" "cur \<le> length data" "pack_pq_section ep idx field = Inr pb"
    and "valid_wire_field field" "ep = 0 \<Longrightarrow> idx = 0"
  shows "unpack_pq_section data cur = Inr (ep, idx, field, cur + length pb)"
proof -
  obtain fb where fb: "pack_pq_field field = Inr fb" "pb = u32_to_le ep @ write_leb128 idx @ fb"
    using assms(3) by (auto simp: pack_pq_section_def result_iffs)
  have d: "drop cur data = u32_to_le ep @ write_leb128 idx @ fb @ rest" using assms(1) fb by simp
  have d1: "drop (cur + 4) data = write_leb128 idx @ fb @ rest" by (rule drop_of_drop [OF d]) simp
  have d2: "drop (cur + 4 + length (write_leb128 idx)) data = fb @ rest"
    by (rule drop_of_drop [OF d1]) simp
  have l: "length data = cur + length pb + length rest"
    using length_of_drop [OF assms(1,2)] .
  have "subslice cur (cur + 4) data = u32_to_le ep" by (rule subslice_of_drop [OF d]) simp
  moreover have "unpack_pq_field data (cur + 4 + length (write_leb128 idx)) =
      Inr (field, cur + 4 + length (write_leb128 idx) + length fb)"
    by (rule unpack_pq_field_read [OF d2 _ fb(1) assms(4)]) (simp add: l fb)
  ultimately show ?thesis
    using read_write_leb128 [OF d1] assms(5) l fb(2) by (auto simp: unpack_pq_section_def Let_def)
qed

lemma unpack_pq_section_canonical:
  assumes "unpack_pq_section data cur = Inr (ep, idx, field, cur')"
  shows "cur \<le> cur'" "cur' \<le> length data" "pack_pq_section ep idx field = Inr (subslice cur cur' data)"
    "valid_wire_field field"
proof -
  from assms obtain c1 where c: "cur + 4 \<le> length data" "ep = u32_from_le (subslice cur (cur + 4) data)"
    "read_leb128 data (cur + 4) = Inr (idx, c1)" "unpack_pq_field data c1 = Inr (field, cur')"
    by (auto simp: unpack_pq_section_def Let_def result_iffs split: if_splits)
  note r = read_leb128_canonical [OF c(3)] and f = unpack_pq_field_canonical [OF c(4)]
  show "cur \<le> cur'" using r f by simp
  show "cur' \<le> length data" by (rule f)
  show "valid_wire_field field" by (rule f)
  have "u32_to_le ep = subslice cur (cur + 4) data"
    unfolding c(2) by (rule int_codec_inverse) (use c(1) in simp)
  then show "pack_pq_section ep idx field = Inr (subslice cur cur' data)"
    using r f c(1) by (simp add: pack_pq_section_def subslice_append flip: r(3))
qed

lemma wire_flag_bits:
  "bit (0x100 :: int) n \<longleftrightarrow> n = 8" "bit (0x200 :: int) n \<longleftrightarrow> n = 9"
  "bit (0x400 :: int) n \<longleftrightarrow> n = 10" "bit (0x800 :: int) n \<longleftrightarrow> n = 11"
  "bit (0xF00 :: int) n \<longleftrightarrow> n \<in> {8, 9, 10, 11}"
proof -
  have p: "bit (2 ^ k :: int) n \<longleftrightarrow> n = k" for k by (simp add: bit_exp_iff)
  show b: "bit (0x100 :: int) n \<longleftrightarrow> n = 8" "bit (0x200 :: int) n \<longleftrightarrow> n = 9"
    "bit (0x400 :: int) n \<longleftrightarrow> n = 10" "bit (0x800 :: int) n \<longleftrightarrow> n = 11"
    using p [of 8] p [of 9] p [of 10] p [of 11] by simp_all
  have "(0xF00 :: int) = 0x100 OR 0x200 OR 0x400 OR 0x800" by simp
  then show "bit (0xF00 :: int) n \<longleftrightarrow> n \<in> {8, 9, 10, 11}"
    using b by (simp only: bit_or_iff) simp
qed

lemmas wire_flag_defs = WIRE_FLAGS_def PQXDH_V2_FLAG_def KEM_IDENTITY_FLAG_def
  IDENTITY_PROOF_FLAG_def AD_V4_FLAG_def

lemma wire_flag_iff:
  "w AND PQXDH_V2_FLAG \<noteq> 0 \<longleftrightarrow> bit w 8" "w AND KEM_IDENTITY_FLAG \<noteq> 0 \<longleftrightarrow> bit w 9"
  "w AND IDENTITY_PROOF_FLAG \<noteq> 0 \<longleftrightarrow> bit w 10" "w AND AD_V4_FLAG \<noteq> 0 \<longleftrightarrow> bit w 11"
  by (auto simp: wire_flag_defs bit_eq_zero bit_simps wire_flag_bits)

lemma bit_wire_flag:
  "bit PQXDH_V2_FLAG n \<longleftrightarrow> n = 8" "bit KEM_IDENTITY_FLAG n \<longleftrightarrow> n = 9"
  "bit IDENTITY_PROOF_FLAG n \<longleftrightarrow> n = 10" "bit AD_V4_FLAG n \<longleftrightarrow> n = 11"
  "bit WIRE_FLAGS n \<longleftrightarrow> n \<in> {8, 9, 10, 11}"
  by (auto simp: wire_flag_defs wire_flag_bits)

lemma wire_suite_split:
  "w = (w AND NOT WIRE_FLAGS) OR (if bit w 11 then AD_V4_FLAG else 0) OR
    (if bit w 8 then PQXDH_V2_FLAG else 0) OR (if bit w 9 then KEM_IDENTITY_FLAG else 0) OR
    (if bit w 10 then IDENTITY_PROOF_FLAG else 0)"
  by (rule bit_word_eqI) (auto simp: bit_simps bit_wire_flag)

lemma wire_suite_join:
  defines "w s a k i p \<equiv> (s AND NOT WIRE_FLAGS) OR wire_suite_flags a k i p"
  shows "w s a k i p AND NOT WIRE_FLAGS = s AND NOT WIRE_FLAGS"
    "bit (w s a k i p) 8 \<longleftrightarrow> 0 < k" "bit (w s a k i p) 9 \<longleftrightarrow> i \<noteq> None"
    "bit (w s a k i p) 10 \<longleftrightarrow> p \<noteq> None" "bit (w s a k i p) 11 \<longleftrightarrow> AD_VERSION_HEADER \<le> a"
proof -
  show "w s a k i p AND NOT WIRE_FLAGS = s AND NOT WIRE_FLAGS"
    by (rule bit_word_eqI) (auto simp: w_def wire_suite_flags_def bit_simps bit_wire_flag)
qed (auto simp: w_def wire_suite_flags_def bit_simps bit_wire_flag)

subsection \<open>The whole message\<close>

lemma wire_header_slices:
  assumes "data = a @ b @ c @ d @ e @ f @ g @ body"
    and "length a = 4" "length b = 32" "length c = 4" "length d = 4" "length e = 2" "length f = 4" "length g = 2"
  shows "subslice 0 4 data = a" "subslice 4 36 data = b" "subslice 36 40 data = c" "subslice 40 44 data = d"
    "subslice 44 46 data = e" "subslice 46 50 data = f" "subslice 50 52 data = g" "drop 52 data = body"
    "length data = 52 + length body"
  using assms by (simp_all add: subslice_def)

lemma wire_header_join:
  assumes "52 \<le> length data"
  shows "data = subslice 0 4 data @ subslice 4 36 data @ subslice 36 40 data @ subslice 40 44 data @
    subslice 44 46 data @ subslice 46 50 data @ subslice 50 52 data @ drop 52 data"
proof -
  have "data = subslice 0 52 data @ drop 52 data" by simp
  also have "subslice 0 52 data = subslice 0 4 data @ subslice 4 36 data @ subslice 36 40 data @
      subslice 40 44 data @ subslice 44 46 data @ subslice 46 50 data @ subslice 50 52 data"
    by (simp add: subslice_append del: subslice_0)
  finally show ?thesis by simp
qed

definition pq_section_bytes :: "u16 \<Rightarrow> u32 \<Rightarrow> u32 \<Rightarrow> pq_ratchet_wire_field option \<Rightarrow> wire_payload_error + bytes" where
  "pq_section_bytes suite ep idx field =
    (if suite = PQ_RATCHET_SUITE then pack_pq_section ep idx field else Inr [])"

text \<open>What a packed message decodes to: the wire flags of the caller are dropped, an empty KEM
  ciphertext reads as none, and only suite 4 carries the post-quantum section.\<close>

definition wire_decoded ::
    "u8 \<Rightarrow> bytes \<Rightarrow> u32 \<Rightarrow> u32 \<Rightarrow> u32 \<Rightarrow> u32 \<Rightarrow> u16 \<Rightarrow> bytes option \<Rightarrow> bytes option \<Rightarrow> bytes option
     \<Rightarrow> bytes \<Rightarrow> u32 \<Rightarrow> u32 \<Rightarrow> pq_ratchet_wire_field option \<Rightarrow> decoded_wire_payload" where
  "wire_decoded adv dh mn ot ko pc suite kem ki ip sb ep idx field =
    (let s = suite AND NOT WIRE_FLAGS; pq = (s = PQ_RATCHET_SUITE)
     in \<lparr> wp_message_number = mn, wp_dh_public_key = dh, wp_one_time_prekey_id = ot,
          wp_kyber_otpk_id = ko, wp_previous_chain_length = pc, wp_suite_id = s,
          wp_kem_ciphertext = (if kem = Some [] then None else kem),
          wp_pqxdh_v2 = (kem \<noteq> None \<and> kem \<noteq> Some []),
          wp_kem_identity = ki, wp_identity_proof_ciphertext = ip, wp_sealed_box = sb,
          wp_pq_message_epoch = (if pq then ep else 0),
          wp_pq_key_index = (if pq then idx else 0),
          wp_pq_ratchet_field = (if pq then field else None),
          wp_ad_version = (if AD_VERSION_HEADER \<le> adv then AD_VERSION_HEADER else AD_VERSION_LEGACY) \<rparr>)"

lemma pack_message_layout:
  assumes "pack_message adv dh mn ot ko pc suite kem ki ip sb ep idx field = Inr data"
  defines "s \<equiv> suite AND NOT WIRE_FLAGS"
    and "kl \<equiv> (case kem of None \<Rightarrow> 0 | Some k \<Rightarrow> length k)"
  obtains pb where "pq_section_bytes s ep idx field = Inr pb"
    "length dh = 32" "kl \<le> 65535" "ki \<noteq> None \<Longrightarrow> 0 < kl"
    "check_object_size ki = Inr ()" "check_object_size ip = Inr ()"
    "data = u32_to_le mn @ dh @ u32_to_le ot @ u32_to_le ko @ u16_to_le (of_nat kl) @ u32_to_le pc @
      u16_to_le (s OR wire_suite_flags adv kl ki ip) @
      ((case kem of None \<Rightarrow> [] | Some k \<Rightarrow> k) @ pack_objects [ki] @ pack_objects [ip] @ pb @ sb)"
  using assms
  by (auto simp: pack_message_def Let_def DH_KEY_SIZE_def pq_section_bytes_def pack_objects_single(3) result_iffs
      split: if_splits)

lemma unpack_pack_message:
  assumes p: "pack_message adv dh mn ot ko pc suite kem ki ip sb ep idx field = Inr data"
    and sb: "sb \<noteq> []" and s3: "suite AND NOT WIRE_FLAGS \<noteq> RETIRED_PQ_RATCHET_V1"
    and pq: "suite AND NOT WIRE_FLAGS = PQ_RATCHET_SUITE \<Longrightarrow> ep = 0 \<Longrightarrow> idx = 0"
    and vf: "valid_wire_field field"
  shows "unpack data = Inr (wire_decoded adv dh mn ot ko pc suite kem ki ip sb ep idx field)"
proof -
  define s where "s = suite AND NOT WIRE_FLAGS"
  define kl where "kl = (case kem of None \<Rightarrow> 0 | Some k \<Rightarrow> length k)"
  define ws where "ws = s OR wire_suite_flags adv kl ki ip"
  define kb where "kb = (case kem of None \<Rightarrow> [] | Some k \<Rightarrow> k)"
  have kb: "length kb = kl" by (simp add: kb_def kl_def split: option.split)
  from pack_message_layout [OF p] obtain pb where
    pb: "pq_section_bytes s ep idx field = Inr pb" and dh: "length dh = 32" and kl: "kl \<le> 65535"
    and ki: "ki \<noteq> None \<Longrightarrow> 0 < kl" and cs: "check_object_size ki = Inr ()" "check_object_size ip = Inr ()"
    and data: "data = u32_to_le mn @ dh @ u32_to_le ot @ u32_to_le ko @ u16_to_le (of_nat kl) @
      u32_to_le pc @ u16_to_le ws @ (kb @ pack_objects [ki] @ pack_objects [ip] @ pb @ sb)"
    unfolding s_def kl_def ws_def kb_def by metis
  note h = wire_header_slices [OF data _ dh, simplified]
  note f = wire_suite_join [of suite adv kl ki ip, folded s_def, folded ws_def]
  have d0: "drop 52 data = kb @ pack_objects [ki] @ pack_objects [ip] @ pb @ sb" using h by simp
  have d1: "drop (52 + kl) data = pack_objects [ki] @ pack_objects [ip] @ pb @ sb"
    by (rule drop_of_drop [OF d0]) (simp add: kb)
  define c1 where "c1 = 52 + kl + length (pack_objects [ki])"
  have d2: "drop c1 data = pack_objects [ip] @ pb @ sb"
    by (rule drop_of_drop [OF d1]) (simp add: c1_def)
  define c2 where "c2 = c1 + length (pack_objects [ip])"
  have d3: "drop c2 data = pb @ sb" by (rule drop_of_drop [OF d2]) (simp add: c2_def)
  have d4: "drop (c2 + length pb) data = sb" by (rule drop_of_drop [OF d3]) simp
  have len: "length data = c2 + length pb + length sb"
    using h(9) kb by (simp add: c1_def c2_def)
  have o1: "kem_identity_object data (ki \<noteq> None) (52 + kl) = Inr (ki, c1)"
    unfolding c1_def by (rule kem_identity_object_read [OF d1 _ cs(1) refl]) (simp add: len c1_def c2_def)
  have o2: "kem_identity_object data (ip \<noteq> None) c1 = Inr (ip, c2)"
    unfolding c2_def by (rule kem_identity_object_read [OF d2 _ cs(2) refl]) (simp add: len c2_def)
  have o3: "(if s = PQ_RATCHET_SUITE then unpack_pq_section data c2 else Inr (0, 0, None, c2)) =
    Inr (if s = PQ_RATCHET_SUITE then ep else 0, if s = PQ_RATCHET_SUITE then idx else 0,
         if s = PQ_RATCHET_SUITE then field else None, c2 + length pb)"
    using unpack_pq_section_read [OF d3 _ _ vf] pb pq len
    by (auto simp: s_def pq_section_bytes_def)
  have k: "subslice 52 (52 + kl) data = kb" by (rule subslice_of_drop [OF d0]) (simp add: kb)
  have ke: "(if 0 < kl then Some kb else None) = (if kem = Some [] then None else kem)"
    "0 < kl \<longleftrightarrow> kem \<noteq> None \<and> kem \<noteq> Some []"
    by (auto simp: kl_def kb_def split: option.splits)
  have "unpack_body data ws kl = Inr (wire_decoded adv dh mn ot ko pc suite kem ki ip sb ep idx field)"
  proof -
    have H: "HEADER_SIZE = 52" by (simp add: HEADER_SIZE_def)
    have kik: "\<not> (ki \<noteq> None \<and> \<not> 0 < kl)" using ki by blast
    have g: "\<not> (0 < kl \<and> kl = 0)" "\<not> length data \<le> 52 + kl"
      "\<not> length data \<le> c2 + length pb" "s \<noteq> RETIRED_PQ_RATCHET_V1"
      using sb s3 len by (auto simp: c1_def c2_def s_def)
    show ?thesis
      unfolding unpack_body_def Let_def wire_flag_iff f H
      by (simp only: g kik if_False o1 o2 o3 res_bind_simps prod.case)
        (auto simp: h d4 k ke(2) kb_def wire_decoded_def Let_def s_def)
  qed
  moreover have "unat (of_nat kl :: u16) = kl" by (rule u16_len_roundtrip [OF kl])
  ultimately show ?thesis
    unfolding unpack_def using h sb by (simp add: HEADER_SIZE_def)
qed


definition wire_image :: "decoded_wire_payload \<Rightarrow> bytes \<Rightarrow> bytes" where
  "wire_image p pb =
    (let kb = (case wp_kem_ciphertext p of None \<Rightarrow> [] | Some k \<Rightarrow> k)
     in u32_to_le (wp_message_number p) @ wp_dh_public_key p @ u32_to_le (wp_one_time_prekey_id p) @
        u32_to_le (wp_kyber_otpk_id p) @ u16_to_le (of_nat (length kb)) @
        u32_to_le (wp_previous_chain_length p) @
        u16_to_le (wp_suite_id p OR (if wp_ad_version p = AD_VERSION_HEADER then AD_V4_FLAG else 0) OR
          (if wp_pqxdh_v2 p then PQXDH_V2_FLAG else 0) OR
          (if wp_kem_identity p \<noteq> None then KEM_IDENTITY_FLAG else 0) OR
          (if wp_identity_proof_ciphertext p \<noteq> None then IDENTITY_PROOF_FLAG else 0)) @
        kb @ pack_objects [wp_kem_identity p] @ pack_objects [wp_identity_proof_ciphertext p] @
        pb @ wp_sealed_box p)"

lemma unpack_canonical:
  assumes "unpack data = Inr p"
  obtains pb where
    "pq_section_bytes (wp_suite_id p) (wp_pq_message_epoch p) (wp_pq_key_index p)
       (wp_pq_ratchet_field p) = Inr pb"
    "data = wire_image p pb"
    "length (wp_dh_public_key p) = 32" "wp_suite_id p AND NOT WIRE_FLAGS = wp_suite_id p"
    "wp_kem_ciphertext p \<noteq> Some []" "\<And>k. wp_kem_ciphertext p = Some k \<Longrightarrow> length k \<le> 65535"
    "wp_ad_version p \<in> {AD_VERSION_LEGACY, AD_VERSION_HEADER}"
    "wp_pqxdh_v2 p \<Longrightarrow> wp_kem_ciphertext p \<noteq> None"
    "wp_kem_identity p \<noteq> None \<Longrightarrow> wp_pqxdh_v2 p"
    "check_object_size (wp_kem_identity p) = Inr ()"
    "check_object_size (wp_identity_proof_ciphertext p) = Inr ()"
    "wp_sealed_box p \<noteq> []"
proof -
  define kl where "kl = unat (u16_from_le (subslice 44 46 data))"
  define ws where "ws = u16_from_le (subslice 50 52 data)"
  define s where "s = ws AND NOT WIRE_FLAGS"
  have H: "HEADER_SIZE = 52" by (simp add: HEADER_SIZE_def)
  from assms have len: "52 < length data" and b: "unpack_body data ws kl = Inr p"
    by (auto simp: unpack_def H kl_def ws_def split: if_splits)
  from b obtain ki c1 ip c2 ep idx field c3 where
    g: "\<not> (bit ws 8 \<and> kl = 0)" "\<not> (bit ws 9 \<and> \<not> bit ws 8)" "52 + kl < length data" "c3 < length data"
    and o1: "kem_identity_object data (bit ws 9) (52 + kl) = Inr (ki, c1)"
    and o2: "kem_identity_object data (bit ws 10) c1 = Inr (ip, c2)"
    and o3: "(if s = PQ_RATCHET_SUITE then unpack_pq_section data c2 else Inr (0, 0, None, c2)) =
       Inr (ep, idx, field, c3)"
    and p: "p = \<lparr> wp_message_number = u32_from_le (subslice 0 4 data),
       wp_dh_public_key = subslice 4 36 data, wp_one_time_prekey_id = u32_from_le (subslice 36 40 data),
       wp_kyber_otpk_id = u32_from_le (subslice 40 44 data),
       wp_previous_chain_length = u32_from_le (subslice 46 50 data), wp_suite_id = s,
       wp_kem_ciphertext = (if 0 < kl then Some (subslice 52 (52 + kl) data) else None),
       wp_pqxdh_v2 = bit ws 8, wp_kem_identity = ki, wp_identity_proof_ciphertext = ip,
       wp_sealed_box = drop c3 data, wp_pq_message_epoch = ep, wp_pq_key_index = idx,
       wp_pq_ratchet_field = field,
       wp_ad_version = (if bit ws 11 then AD_VERSION_HEADER else AD_VERSION_LEGACY) \<rparr>"
    unfolding unpack_body_def Let_def wire_flag_iff H s_def
    by (clarsimp simp: result_iffs not_le split: if_splits)
  note k1 = kem_identity_object_canonical [OF o1 less_imp_le [OF g(3)]]
  note k2 = kem_identity_object_canonical [OF o2 k1(2)]
  have k3: "c2 \<le> c3" "pq_section_bytes s ep idx field = Inr (subslice c2 c3 data)"
    using o3 unpack_pq_section_canonical [of data c2 ep idx field c3] k2(2)
    by (auto simp: pq_section_bytes_def subslice_def split: if_splits)
  have body: "drop 52 data = subslice 52 (52 + kl) data @ pack_objects [ki] @ pack_objects [ip] @
      subslice c2 c3 data @ drop c3 data"
  proof -
    have "subslice 52 c3 data = subslice 52 (52 + kl) data @ subslice (52 + kl) c1 data @
        subslice c1 c2 data @ subslice c2 c3 data"
      using k1(1) k2(1) k3(1) by (simp add: subslice_append)
    moreover have "drop 52 data = subslice 52 c3 data @ drop c3 data"
      using k1(1) k2(1) k3(1) by (simp add: subslice_def) (metis append_take_drop_id drop_drop le_add_diff_inverse2 le_trans add_leE)
    ultimately show ?thesis using k1(3) k2(3) by simp
  qed
  have kb: "(case wp_kem_ciphertext p of None \<Rightarrow> [] | Some k \<Rightarrow> k) = subslice 52 (52 + kl) data"
    by (simp add: p subslice_def)
  have kl: "kl \<le> 65535" "length (subslice 52 (52 + kl) data) = kl"
    using unat_less_256(1) [of "u16_from_le (subslice 44 46 data)"] g(3) by (simp_all add: kl_def)
  have i: "u32_to_le (u32_from_le (subslice 0 4 data)) = subslice 0 4 data"
    "u32_to_le (u32_from_le (subslice 36 40 data)) = subslice 36 40 data"
    "u32_to_le (u32_from_le (subslice 40 44 data)) = subslice 40 44 data"
    "u32_to_le (u32_from_le (subslice 46 50 data)) = subslice 46 50 data"
    "u16_to_le ws = subslice 50 52 data"
    unfolding ws_def by (rule int_codec_inverse; use len in simp)+
  have l: "u16_to_le (of_nat kl) = subslice 44 46 data"
    by (rule u16_slice [symmetric]) (use len in \<open>simp_all add: kl_def\<close>)
  have a: "wp_ad_version p = AD_VERSION_HEADER \<longleftrightarrow> bit ws 11"
    by (simp add: p AD_VERSION_HEADER_def AD_VERSION_LEGACY_def)
  have "data = wire_image p (subslice c2 c3 data)"
  proof -
    have "wire_image p (subslice c2 c3 data) = subslice 0 4 data @ subslice 4 36 data @
       subslice 36 40 data @ subslice 40 44 data @ subslice 44 46 data @ subslice 46 50 data @
       u16_to_le ws @ drop 52 data"
      unfolding wire_image_def Let_def kb kl(2) l a
      using i wire_suite_split [of ws] body k1(5) k2(5) by (simp add: p s_def or.assoc)
    then show ?thesis using wire_header_join [of data] len i(5) by simp
  qed
  then show thesis
  proof (rule that [rotated 1])
    show "pq_section_bytes (wp_suite_id p) (wp_pq_message_epoch p) (wp_pq_key_index p)
       (wp_pq_ratchet_field p) = Inr (subslice c2 c3 data)" using k3(2) by (simp add: p)
    show "wp_kem_ciphertext p \<noteq> Some []" using kl(2) by (auto simp: p)
    show "wp_suite_id p AND NOT WIRE_FLAGS = wp_suite_id p" by (simp add: p s_def and.assoc)
    show "length k \<le> 65535" if "wp_kem_ciphertext p = Some k" for k
      using that kl by (auto simp: p split: if_splits)
  qed (use g k1 k2 len in \<open>auto simp: p\<close>)
qed


lemma pack_unpack_message:
  assumes "unpack data = Inr p" "wp_pqxdh_v2 p \<longleftrightarrow> wp_kem_ciphertext p \<noteq> None"
  shows "pack_message (wp_ad_version p) (wp_dh_public_key p) (wp_message_number p)
    (wp_one_time_prekey_id p) (wp_kyber_otpk_id p) (wp_previous_chain_length p) (wp_suite_id p)
    (wp_kem_ciphertext p) (wp_kem_identity p) (wp_identity_proof_ciphertext p) (wp_sealed_box p)
    (wp_pq_message_epoch p) (wp_pq_key_index p) (wp_pq_ratchet_field p) = Inr data"
proof -
  obtain pb where c:
    "pq_section_bytes (wp_suite_id p) (wp_pq_message_epoch p) (wp_pq_key_index p)
       (wp_pq_ratchet_field p) = Inr pb"
    "data = wire_image p pb" "length (wp_dh_public_key p) = 32"
    "wp_suite_id p AND NOT WIRE_FLAGS = wp_suite_id p"
    "wp_kem_ciphertext p \<noteq> Some []" "\<And>k. wp_kem_ciphertext p = Some k \<Longrightarrow> length k \<le> 65535"
    "wp_ad_version p \<in> {AD_VERSION_LEGACY, AD_VERSION_HEADER}"
    "wp_kem_identity p \<noteq> None \<Longrightarrow> wp_pqxdh_v2 p"
    "check_object_size (wp_kem_identity p) = Inr ()"
    "check_object_size (wp_identity_proof_ciphertext p) = Inr ()"
    using unpack_canonical [OF assms(1)] by metis
  have a: "AD_VERSION_HEADER \<le> wp_ad_version p \<longleftrightarrow> wp_ad_version p = AD_VERSION_HEADER"
    using c(7) by (auto simp: AD_VERSION_HEADER_def AD_VERSION_LEGACY_def)
  show ?thesis
  proof (cases "wp_kem_ciphertext p")
    case None
    then have "wp_kem_identity p = None" using c(8) assms(2) by blast
    then show ?thesis
      using None c(1-7,9-10) a assms(2)
      by (simp add: pack_message_def wire_image_def DH_KEY_SIZE_def pq_section_bytes_def
          wire_suite_flags_def pack_objects_single or.assoc)
  next
    case (Some k)
    have "length k \<le> 65535" "0 < length k" using c(5,6) Some by auto
    then show ?thesis
      using Some c(1-4,7-10) a assms(2)
      by (simp add: pack_message_def wire_image_def DH_KEY_SIZE_def pq_section_bytes_def
          wire_suite_flags_def pack_objects_single or.assoc Let_def)
  qed
qed

subsection \<open>Properties\<close>

text \<open>
  C2.  Whatever \<open>pack_message\<close> writes, \<open>unpack\<close> reads back: every header field, the handshake
  objects, the sealed box, the AD version and, for suite 4, the post-quantum section.  The hypotheses
  are the messages \<open>unpack\<close> refuses by design (no sealed box, the retired suite, a key index with no
  epoch) and the eight-byte type of the key hash.
\<close>

theorem pack_unpack_roundtrip:
  assumes "pack_message adv dh mn ot ko pc suite kem ki ip sb ep idx field = Inr data"
    and "sb \<noteq> []" "suite AND NOT WIRE_FLAGS \<noteq> RETIRED_PQ_RATCHET_V1"
    and "suite AND NOT WIRE_FLAGS = PQ_RATCHET_SUITE \<Longrightarrow> ep = 0 \<Longrightarrow> idx = 0"
    and "valid_wire_field field"
  shows "unpack data = Inr (wire_decoded adv dh mn ot ko pc suite kem ki ip sb ep idx field)"
  using unpack_pack_message [OF assms] .

theorem pack_unpack_roundtrip_witness:
  "\<exists>data. pack_message 4 (replicate 32 7) 5 0 0 2 4 None None None [1, 2, 3] 1 300
      (Some (PublicKey 2 [9, 9])) = Inr data \<and>
    unpack data = Inr (wire_decoded 4 (replicate 32 7) 5 0 0 2 4 None None None [1, 2, 3] 1 300
      (Some (PublicKey 2 [9, 9])))"
proof -
  obtain data where d: "pack_message 4 (replicate 32 7) 5 0 0 2 4 None None None [1, 2, 3] 1 300
      (Some (PublicKey 2 [9, 9])) = Inr data"
    by (simp add: pack_message_def DH_KEY_SIZE_def check_object_size_def pack_pq_section_def
        pack_pq_field_def Let_def wire_flag_defs PQ_RATCHET_SUITE_def PQ_RATCHET_def)
  moreover have "unpack data = Inr (wire_decoded 4 (replicate 32 7) 5 0 0 2 4 None None None [1, 2, 3]
      1 300 (Some (PublicKey 2 [9, 9])))"
    by (rule pack_unpack_roundtrip [OF d])
      (simp_all add: wire_flag_defs RETIRED_PQ_RATCHET_V1_def valid_wire_field_def)
  ultimately show ?thesis by blast
qed

text \<open>
  C3.  The reader accepts one encoding per message: two byte strings that decode to the same message
  are equal, so a relay cannot re-encode a message without changing what it decodes to.
\<close>

theorem unpack_injective:
  assumes "unpack data = Inr p" "unpack data' = Inr p"
  shows "data = data'"
proof -
  obtain pb pb' where
    "pq_section_bytes (wp_suite_id p) (wp_pq_message_epoch p) (wp_pq_key_index p)
       (wp_pq_ratchet_field p) = Inr pb" "data = wire_image p pb"
    "pq_section_bytes (wp_suite_id p) (wp_pq_message_epoch p) (wp_pq_key_index p)
       (wp_pq_ratchet_field p) = Inr pb'" "data' = wire_image p pb'"
    using unpack_canonical [OF assms(1)] unpack_canonical [OF assms(2)] by metis
  then show ?thesis by simp
qed

theorem unpack_injective_witness:
  "\<exists>data data' p. unpack data = Inr p \<and> unpack data' = Inr p \<and> data = data'"
proof -
  let ?d = "replicate 50 0 @ [1, 0, 5] :: bytes"
  have "subslice 44 46 ?d = [0, 0]" "subslice 50 52 ?d = [1, 0]"
    by (simp_all add: subslice_def numeral_eq_Suc)
  then have "\<exists>p. unpack ?d = Inr p"
    by (simp add: unpack_def HEADER_SIZE_def unpack_body_def Let_def wire_flag_defs u16_from_le_def
        kem_identity_object_def RETIRED_PQ_RATCHET_V1_def PQ_RATCHET_SUITE_def PQ_RATCHET_def)
  then show ?thesis using unpack_injective by blast
qed

end
