(* ===== verification/Core_Effects.thy ===== *)
theory Core_Effects
  imports Core_Prelude "HOL-Library.List_Lexorder"
begin

text \<open>
  Effects of methods that take \<open>&mut self\<close> and return a \<open>Result\<close>: a function from the state to an
  error or a value, and the state as the method left it.  An early return with the question mark
  operator keeps the changes made before it, so the state is returned on the error side too.

  Also the text of the code: a Rust string is modelled by its UTF-8 bytes, whose order on lists is
  the order of \<open>&str\<close>; \<open>ascii\<close> turns a literal into bytes, and \<open>hex_encode\<close> and \<open>hex_decode\<close> are
  the two functions of the hex crate the code calls.
\<close>

type_synonym ('s, 'e, 'a) eff = "'s \<Rightarrow> ('e + 'a) \<times> 's"

definition st_return :: "'a \<Rightarrow> ('s, 'e, 'a) eff" where
  "st_return x = (\<lambda>s. (Inr x, s))"

definition st_throw :: "'e \<Rightarrow> ('s, 'e, 'a) eff" where
  "st_throw e = (\<lambda>s. (Inl e, s))"

definition st_bind :: "('s, 'e, 'a) eff \<Rightarrow> ('a \<Rightarrow> ('s, 'e, 'b) eff) \<Rightarrow> ('s, 'e, 'b) eff" where
  "st_bind m f = (\<lambda>s. case m s of (Inl e, s') \<Rightarrow> (Inl e, s') | (Inr x, s') \<Rightarrow> f x s')"

definition st_get :: "('s, 'e, 's) eff" where
  "st_get = (\<lambda>s. (Inr s, s))"

definition st_modify :: "('s \<Rightarrow> 's) \<Rightarrow> ('s, 'e, unit) eff" where
  "st_modify f = (\<lambda>s. (Inr (), f s))"

definition st_lift :: "'e + 'a \<Rightarrow> ('s, 'e, 'a) eff" where
  "st_lift r = (\<lambda>s. (r, s))"

definition st_inspect_err :: "('s \<Rightarrow> 's) \<Rightarrow> ('s, 'e, 'a) eff \<Rightarrow> ('s, 'e, 'a) eff" where
  "st_inspect_err g m = (\<lambda>s. case m s of (Inl e, s') \<Rightarrow> (Inl e, g s') | (Inr x, s') \<Rightarrow> (Inr x, s'))"

lemmas st_defs = st_return_def st_throw_def st_bind_def st_get_def st_modify_def st_lift_def
  st_inspect_err_def

definition ascii :: "string \<Rightarrow> bytes" where
  "ascii cs = map of_char cs"

definition hex_digit :: "u8 \<Rightarrow> u8" where
  "hex_digit n = (if n < 10 then 48 + n else 87 + n)"

definition hex_value :: "u8 \<Rightarrow> u8 option" where
  "hex_value c =
    (if 48 \<le> c \<and> c \<le> 57 then Some (c - 48)
     else if 97 \<le> c \<and> c \<le> 102 then Some (c - 87)
     else if 65 \<le> c \<and> c \<le> 70 then Some (c - 55)
     else None)"

definition hex_encode :: "bytes \<Rightarrow> bytes" where
  "hex_encode bs = concat (map (\<lambda>b. [hex_digit (b div 16), hex_digit (b mod 16)]) bs)"

fun hex_decode :: "bytes \<Rightarrow> bytes option" where
  "hex_decode [] = Some []"
| "hex_decode [c] = None"
| "hex_decode (c # d # cs) =
    (case (hex_value c, hex_value d, hex_decode cs) of
       (Some a, Some b, Some bs) \<Rightarrow> Some ((a * 16 + b) # bs)
     | _ \<Rightarrow> None)"

subsection \<open>Lemmas\<close>

lemma st_bind_eval [simp]:
  "m s = (Inr x, s') \<Longrightarrow> st_bind m f s = f x s'"
  "m s = (Inl e, s') \<Longrightarrow> st_bind m f s = (Inl e, s')"
  by (simp_all add: st_bind_def)

lemma st_prim_eval [simp]:
  "st_return x s = (Inr x, s)" "st_throw e s = (Inl e, s)" "st_get s = (Inr s, s)"
  "st_modify f s = (Inr (), f s)" "st_lift r s = (r, s)"
  by (simp_all add: st_defs)

lemma st_bind_prim [simp]:
  "st_bind (st_return x) f s = f x s" "st_bind (st_throw e) f s = (Inl e, s)"
  "st_bind st_get g s = g s s" "st_bind (st_modify h) k s = k () (h s)"
  "st_bind (st_lift (Inr x)) f s = f x s" "st_bind (st_lift (Inl e)) f s = (Inl e, s)"
  by (simp_all add: st_defs)

lemma st_bind_Inr_iff:
  "st_bind m f s = (Inr y, s'') \<longleftrightarrow> (\<exists>x s'. m s = (Inr x, s') \<and> f x s' = (Inr y, s''))"
  by (auto simp: st_bind_def split: prod.splits sum.splits)

lemma st_bind_Inl_iff:
  "st_bind m f s = (Inl e, s'') \<longleftrightarrow>
    m s = (Inl e, s'') \<or> (\<exists>x s'. m s = (Inr x, s') \<and> f x s' = (Inl e, s''))"
  by (auto simp: st_bind_def split: prod.splits sum.splits)

lemma st_inspect_err_Inr_iff [simp]:
  "st_inspect_err g m s = (Inr x, s') \<longleftrightarrow> m s = (Inr x, s')"
  by (auto simp: st_inspect_err_def split: prod.splits sum.splits)

lemma st_inspect_err_Inl_iff:
  "st_inspect_err g m s = (Inl e, s') \<longleftrightarrow> (\<exists>s1. m s = (Inl e, s1) \<and> s' = g s1)"
  by (auto simp: st_inspect_err_def split: prod.splits sum.splits)

text \<open>A predicate kept by every step is kept by the whole method, on success and on error.\<close>

definition st_keeps :: "('s \<Rightarrow> bool) \<Rightarrow> ('s, 'e, 'a) eff \<Rightarrow> bool" where
  "st_keeps I m = (\<forall>s. I s \<longrightarrow> I (snd (m s)))"

lemma st_keeps_bind: "st_keeps I m \<Longrightarrow> (\<And>x. st_keeps I (f x)) \<Longrightarrow> st_keeps I (st_bind m f)"
  unfolding st_keeps_def st_bind_def by (auto split: prod.split sum.split)

lemma st_keeps_prim:
  "st_keeps I (st_return x)" "st_keeps I (st_throw e)" "st_keeps I st_get" "st_keeps I (st_lift r)"
  "(\<And>s. I s \<Longrightarrow> I (f s)) \<Longrightarrow> st_keeps I (st_modify f)"
  by (simp_all add: st_keeps_def)

text \<open>A predicate kept by every successful step is kept by the whole method when it succeeds.\<close>

definition st_keeps_ok :: "('s \<Rightarrow> bool) \<Rightarrow> ('s, 'e, 'a) eff \<Rightarrow> bool" where
  "st_keeps_ok I m = (\<forall>s a s'. I s \<longrightarrow> m s = (Inr a, s') \<longrightarrow> I s')"

lemma st_keeps_ok_bind:
  "st_keeps_ok I m \<Longrightarrow> (\<And>x. st_keeps_ok I (f x)) \<Longrightarrow> st_keeps_ok I (st_bind m f)"
  unfolding st_keeps_ok_def st_bind_Inr_iff by blast

lemma st_keeps_ok_prim:
  "st_keeps_ok I (st_return x)" "st_keeps_ok I (st_throw e)" "st_keeps_ok I st_get" "st_keeps_ok I (st_lift r)"
  "(\<And>s. I s \<Longrightarrow> I (f s)) \<Longrightarrow> st_keeps_ok I (st_modify f)"
  by (auto simp: st_keeps_ok_def)

lemma st_keeps_ok_split:
  "st_keeps_ok I (case p of (a, b) \<Rightarrow> f a b) \<longleftrightarrow> (case p of (a, b) \<Rightarrow> st_keeps_ok I (f a b))"
  "st_keeps_ok I (if c then m else m') \<longleftrightarrow> (if c then st_keeps_ok I m else st_keeps_ok I m')"
  by (auto split: prod.splits)

lemma st_keeps_ok_inspect: "st_keeps_ok I m \<Longrightarrow> st_keeps_ok I (st_inspect_err g m)"
  by (simp add: st_keeps_ok_def)

lemma st_keeps_imp_ok: "st_keeps I m \<Longrightarrow> st_keeps_ok I m"
  unfolding st_keeps_def st_keeps_ok_def by (metis snd_conv)

lemma ascii_length [simp]: "length (ascii cs) = length cs"
  by (simp add: ascii_def)

lemma hex_value_digit: "n < 16 \<Longrightarrow> hex_value (hex_digit n) = Some n"
proof -
  assume "n < 16"
  then have "unat n \<in> set [0..<16]" by (simp add: word_less_nat_alt)
  moreover have "\<forall>m \<in> set [0..<16]. hex_value (hex_digit (of_nat m :: u8)) = Some (of_nat m)"
    by code_simp
  ultimately have "hex_value (hex_digit (of_nat (unat n))) = Some (of_nat (unat n))" by blast
  then show ?thesis by simp
qed

lemma hex_nibbles: "b div 16 < 16" "b mod 16 < 16" "(b div 16) * 16 + b mod 16 = b" for b :: u8
proof -
  have "unat b < 256" using unat_less_power [of b] by simp
  then have "unat b div 16 < 16" by simp
  then show "b div 16 < 16" by (simp add: word_less_nat_alt unat_div)
  show "b mod 16 < 16" by (simp add: word_less_nat_alt unat_mod)
  show "(b div 16) * 16 + b mod 16 = b" by (rule div_mult_mod_eq)
qed

lemma hex_decode_encode [simp]: "hex_decode (hex_encode bs) = Some bs"
  by (induction bs) (simp_all add: hex_encode_def hex_value_digit hex_nibbles)

lemma length_hex_encode [simp]: "length (hex_encode bs) = 2 * length bs"
  by (induction bs) (simp_all add: hex_encode_def)

end
