(* ===== verification/Crypto_Provider.thy ===== *)
theory Crypto_Provider
  imports Core_Effects Suite_Id
begin

text \<open>
  The cryptographic provider (\<open>src/crypto/provider.rs\<close>), the classic suite built on it
  (\<open>src/crypto/suites/classic.rs\<close>) and the size-checked ML-KEM-768 operations
  (\<open>src/crypto/pq_x3dh.rs\<close>).

  The primitives are third-party code: HKDF-SHA256, ChaCha20-Poly1305, X25519, Ed25519, ML-DSA-65 and
  ML-KEM.  They are
  the record \<open>primitives\<close>, a parameter of everything below; the provider methods of the classic
  suite are translated over it.  Keys are byte lists, as \<open>SecretBytes\<close> and \<open>Vec<u8>\<close> are.
  Random draws and the clock are the record \<open>draws\<close>: what one call of an operation gets from the
  random source and from \<open>utils::time::now\<close>.

  What the code relies on is stated as named predicates on the primitives: \<open>aead_correct\<close>,
  \<open>hkdf_total\<close>, \<open>dh_commutes\<close>, \<open>ed25519_correct\<close> and \<open>mlkem1024_correct\<close>.
\<close>

datatype crypto_error =
    KeyGenerationError
  | SigningError
  | SignatureVerificationError
  | KemEncapsulationError
  | KemDecapsulationError
  | AeadEncryptionError
  | AeadDecryptionError
  | KeyDerivationError
  | NonceGenerationError
  | InvalidInputError
  | SerializationError
  | DeserializationError
  | InvalidKeyData
  | InvalidCiphertext
  | OtherCryptoError

record primitives =
  hkdf_sha256 :: "bytes \<Rightarrow> bytes \<Rightarrow> bytes \<Rightarrow> nat \<Rightarrow> bytes option"
  chacha_seal :: "bytes \<Rightarrow> bytes \<Rightarrow> bytes \<Rightarrow> bytes \<Rightarrow> bytes option"
  chacha_open :: "bytes \<Rightarrow> bytes \<Rightarrow> bytes \<Rightarrow> bytes \<Rightarrow> bytes option"
  x25519_base :: "bytes \<Rightarrow> bytes"
  x25519 :: "bytes \<Rightarrow> bytes \<Rightarrow> bytes"
  sha256 :: "bytes \<Rightarrow> bytes"
  hmac_sha256 :: "bytes \<Rightarrow> bytes \<Rightarrow> bytes"
  mlkem768_dec :: "bytes \<Rightarrow> bytes \<Rightarrow> bytes option"
  mlkem1024_ek :: "bytes \<Rightarrow> bytes"
  mlkem1024_dec :: "bytes \<Rightarrow> bytes \<Rightarrow> bytes option"
  ed25519_vk :: "bytes \<Rightarrow> bytes"
  ed25519_vk_ok :: "bytes \<Rightarrow> bool"
  ed25519_sig :: "bytes \<Rightarrow> bytes \<Rightarrow> bytes"
  ed25519_check :: "bytes \<Rightarrow> bytes \<Rightarrow> bytes \<Rightarrow> bool"
  mldsa65_vk :: "bytes \<Rightarrow> bytes"
  mldsa65_sig :: "bytes \<Rightarrow> bytes \<Rightarrow> bytes option"
  mldsa65_sig_ok :: "bytes \<Rightarrow> bool"
  mldsa65_check :: "bytes \<Rightarrow> bytes \<Rightarrow> bytes \<Rightarrow> bool"

record draws =
  now :: u64
  drawn_x25519 :: bytes
  drawn_nonce :: "nat \<Rightarrow> bytes"
  drawn_mlkem768 :: "bytes \<times> bytes"
  drawn_encapsulation :: "bytes \<Rightarrow> (bytes \<times> bytes) option"
  drawn_mlkem1024_seed :: bytes
  drawn_encapsulation1024 :: "bytes \<Rightarrow> (bytes \<times> bytes) option"
  drawn_ed25519 :: bytes
  drawn_hybrid_seeds :: bytes

subsection \<open>The classic suite\<close>

definition generate_kem_keys :: "primitives \<Rightarrow> draws \<Rightarrow> crypto_error + (bytes \<times> bytes)" where
  "generate_kem_keys P E = Inr (drawn_x25519 E, x25519_base P (drawn_x25519 E))"

definition from_private_key_to_public_key :: "primitives \<Rightarrow> bytes \<Rightarrow> crypto_error + bytes" where
  "from_private_key_to_public_key P private_key =
    (if length private_key \<noteq> 32 then Inl InvalidInputError else Inr (x25519_base P private_key))"

definition kem_decapsulate :: "primitives \<Rightarrow> bytes \<Rightarrow> bytes \<Rightarrow> crypto_error + bytes" where
  "kem_decapsulate P private_key ciphertext =
    (if length private_key \<noteq> 32 then Inl InvalidInputError
     else if length ciphertext \<noteq> 32 then Inl InvalidInputError
     else
       (let shared_secret = x25519 P private_key ciphertext
        in if shared_secret = replicate 32 0 then Inl InvalidInputError else Inr shared_secret))"

definition aead_encrypt ::
    "primitives \<Rightarrow> bytes \<Rightarrow> bytes \<Rightarrow> bytes \<Rightarrow> bytes option \<Rightarrow> crypto_error + bytes" where
  "aead_encrypt P key nonce plaintext associated_data =
    ok_or AeadEncryptionError
      (chacha_seal P key nonce plaintext (case associated_data of None \<Rightarrow> [] | Some aad \<Rightarrow> aad))"

definition aead_decrypt ::
    "primitives \<Rightarrow> bytes \<Rightarrow> bytes \<Rightarrow> bytes \<Rightarrow> bytes option \<Rightarrow> crypto_error + bytes" where
  "aead_decrypt P key nonce ciphertext associated_data =
    ok_or AeadDecryptionError
      (chacha_open P key nonce ciphertext (case associated_data of None \<Rightarrow> [] | Some aad \<Rightarrow> aad))"

definition hkdf_derive_key :: "primitives \<Rightarrow> bytes \<Rightarrow> bytes \<Rightarrow> bytes \<Rightarrow> nat \<Rightarrow> crypto_error + bytes" where
  "hkdf_derive_key P salt ikm info len = ok_or KeyDerivationError (hkdf_sha256 P salt ikm info len)"

definition kdf_rk :: "primitives \<Rightarrow> bytes \<Rightarrow> bytes \<Rightarrow> crypto_error + (bytes \<times> bytes)" where
  "kdf_rk P root_key dh_output =
    res_bind (ok_or KeyDerivationError
        (hkdf_sha256 P root_key dh_output (ascii ''Double-Ratchet-Root-Key-Expansion'') 64))
      (\<lambda>output. Inr (take 32 output, drop 32 output))"

definition kdf_ck :: "primitives \<Rightarrow> bytes \<Rightarrow> crypto_error + (bytes \<times> bytes)" where
  "kdf_ck P chain_key =
    res_bind (ok_or KeyDerivationError
        (hkdf_sha256 P chain_key [] (ascii ''Double-Ratchet-Chain-Key-Expansion'') 64))
      (\<lambda>output. Inr (take 32 output, drop 32 output))"

definition generate_signature_keys :: "primitives \<Rightarrow> draws \<Rightarrow> crypto_error + (bytes \<times> bytes)" where
  "generate_signature_keys P E = Inr (drawn_ed25519 E, ed25519_vk P (drawn_ed25519 E))"

definition from_signature_private_to_public :: "primitives \<Rightarrow> bytes \<Rightarrow> crypto_error + bytes" where
  "from_signature_private_to_public P private_key =
    (if length private_key \<noteq> 32 then Inl InvalidInputError else Inr (ed25519_vk P private_key))"

definition sign :: "primitives \<Rightarrow> bytes \<Rightarrow> bytes \<Rightarrow> crypto_error + bytes" where
  "sign P private_key message =
    (if length private_key \<noteq> 32 then Inl InvalidInputError else Inr (ed25519_sig P private_key message))"

definition verify :: "primitives \<Rightarrow> bytes \<Rightarrow> bytes \<Rightarrow> bytes \<Rightarrow> crypto_error + unit" where
  "verify P public_key message signature =
    (if length public_key \<noteq> 32 then Inl InvalidInputError
     else if \<not> ed25519_vk_ok P public_key then Inl InvalidInputError
     else if length signature \<noteq> 64 then Inl InvalidInputError
     else if ed25519_check P public_key message signature then Inr ()
     else Inl SignatureVerificationError)"

definition generate_nonce :: "draws \<Rightarrow> nat \<Rightarrow> crypto_error + bytes" where
  "generate_nonce E len = Inr (drawn_nonce E len)"

subsection \<open>ML-KEM-768\<close>

definition MLKEM768_PK_SIZE :: nat where "MLKEM768_PK_SIZE = 1184"
definition MLKEM768_SK_SIZE :: nat where "MLKEM768_SK_SIZE = 2400"
definition MLKEM768_CT_SIZE :: nat where "MLKEM768_CT_SIZE = 1088"

datatype mlkem_error =
    InvalidPublicKeySize nat
  | InvalidPublicKey
  | InvalidSecretKeySize nat
  | InvalidCiphertextSize nat
  | DecapsulationFailed

definition mlkem768_keygen :: "draws \<Rightarrow> mlkem_error + (bytes \<times> bytes)" where
  "mlkem768_keygen E = Inr (drawn_mlkem768 E)"

definition mlkem768_encapsulate :: "draws \<Rightarrow> bytes \<Rightarrow> mlkem_error + (bytes \<times> bytes)" where
  "mlkem768_encapsulate E pk_bytes =
    (if length pk_bytes \<noteq> MLKEM768_PK_SIZE then Inl (InvalidPublicKeySize (length pk_bytes))
     else ok_or InvalidPublicKey (drawn_encapsulation E pk_bytes))"

definition mlkem768_decapsulate :: "primitives \<Rightarrow> bytes \<Rightarrow> bytes \<Rightarrow> mlkem_error + bytes" where
  "mlkem768_decapsulate P sk_bytes ct_bytes =
    (if length sk_bytes \<noteq> MLKEM768_SK_SIZE then Inl (InvalidSecretKeySize (length sk_bytes))
     else if length ct_bytes \<noteq> MLKEM768_CT_SIZE then Inl (InvalidCiphertextSize (length ct_bytes))
     else ok_or DecapsulationFailed (mlkem768_dec P sk_bytes ct_bytes))"

subsection \<open>ML-KEM-1024\<close>

definition MLKEM1024_PK_SIZE :: nat where "MLKEM1024_PK_SIZE = 1568"
definition MLKEM1024_CT_SIZE :: nat where "MLKEM1024_CT_SIZE = 1568"
definition MLKEM_SEED_SIZE :: nat where "MLKEM_SEED_SIZE = 64"

definition mlkem1024_generate :: "primitives \<Rightarrow> draws \<Rightarrow> mlkem_error + (bytes \<times> bytes)" where
  "mlkem1024_generate P E = Inr (drawn_mlkem1024_seed E, mlkem1024_ek P (drawn_mlkem1024_seed E))"

text \<open>A key is the seed it expands from.\<close>
definition mlkem1024_key_from_seed :: "bytes \<Rightarrow> mlkem_error + bytes" where
  "mlkem1024_key_from_seed seed =
    (if length seed \<noteq> MLKEM_SEED_SIZE then Inl (InvalidSecretKeySize (length seed)) else Inr seed)"

definition mlkem1024_public_from_seed :: "primitives \<Rightarrow> bytes \<Rightarrow> mlkem_error + bytes" where
  "mlkem1024_public_from_seed P seed =
    res_bind (mlkem1024_key_from_seed seed) (\<lambda>key. Inr (mlkem1024_ek P key))"

definition mlkem1024_encapsulate :: "draws \<Rightarrow> bytes \<Rightarrow> mlkem_error + (bytes \<times> bytes)" where
  "mlkem1024_encapsulate E pk_bytes =
    (if length pk_bytes \<noteq> MLKEM1024_PK_SIZE then Inl (InvalidPublicKeySize (length pk_bytes))
     else ok_or InvalidPublicKey (drawn_encapsulation1024 E pk_bytes))"

definition mlkem1024_decapsulate :: "primitives \<Rightarrow> bytes \<Rightarrow> bytes \<Rightarrow> mlkem_error + bytes" where
  "mlkem1024_decapsulate P seed ct_bytes =
    (if length ct_bytes \<noteq> MLKEM1024_CT_SIZE then Inl (InvalidCiphertextSize (length ct_bytes))
     else res_bind (mlkem1024_key_from_seed seed)
       (\<lambda>key. ok_or DecapsulationFailed (mlkem1024_dec P key ct_bytes)))"

subsection \<open>What the code relies on\<close>

text \<open>ChaCha20-Poly1305 opens what it sealed, with the same key, nonce and associated data.\<close>
definition aead_correct :: "primitives \<Rightarrow> bool" where
  "aead_correct P \<longleftrightarrow>
    (\<forall>k n pt ad ct. chacha_seal P k n pt ad = Some ct \<longrightarrow> chacha_open P k n ct ad = Some pt)"

text \<open>HKDF-SHA256 gives every output length up to \<open>255 * 32\<close> bytes, and exactly that length.\<close>
definition hkdf_total :: "primitives \<Rightarrow> bool" where
  "hkdf_total P \<longleftrightarrow>
    (\<forall>salt ikm info len. len \<le> 255 * 32 \<longrightarrow>
       (\<exists>okm. hkdf_sha256 P salt ikm info len = Some okm \<and> length okm = len))"

text \<open>X25519 is commutative on public keys derived from private keys.\<close>
definition dh_commutes :: "primitives \<Rightarrow> bool" where
  "dh_commutes P \<longleftrightarrow>
    (\<forall>a b. length a = 32 \<longrightarrow> length b = 32 \<longrightarrow>
       x25519 P a (x25519_base P b) = x25519 P b (x25519_base P a))
    \<and> (\<forall>a. length (x25519_base P a) = 32)"

text \<open>A ciphertext carries its tag of sixteen bytes.\<close>
definition aead_tagged :: "primitives \<Rightarrow> bool" where
  "aead_tagged P \<longleftrightarrow> (\<forall>k n m ad ct. length k = 32 \<longrightarrow> chacha_seal P k n m ad = Some ct \<longrightarrow> length m + 16 \<le> length ct)"

text \<open>SHA-256 and HMAC-SHA256 have thirty-two bytes.\<close>
definition hashes_sized :: "primitives \<Rightarrow> bool" where
  "hashes_sized P \<longleftrightarrow> (\<forall>m. length (sha256 P m) = 32) \<and> (\<forall>k m. length (hmac_sha256 P k m) = 32)"

text \<open>Ed25519 verifies what it signed; keys and signatures have their fixed sizes.\<close>
definition ed25519_correct :: "primitives \<Rightarrow> bool" where
  "ed25519_correct P \<longleftrightarrow>
    (\<forall>seed m. length seed = 32 \<longrightarrow>
       length (ed25519_vk P seed) = 32 \<and> ed25519_vk_ok P (ed25519_vk P seed) \<and>
       length (ed25519_sig P seed m) = 64 \<and> ed25519_check P (ed25519_vk P seed) m (ed25519_sig P seed m))"

text \<open>ML-DSA-65 verifies what it signed; keys and signatures have their fixed sizes.\<close>
definition mldsa65_correct :: "primitives \<Rightarrow> bool" where
  "mldsa65_correct P \<longleftrightarrow>
    (\<forall>seed m s. length seed = 32 \<longrightarrow> length (mldsa65_vk P seed) = 1952 \<and>
       (mldsa65_sig P seed m = Some s \<longrightarrow>
         length s = 3309 \<and> mldsa65_sig_ok P s \<and> mldsa65_check P (mldsa65_vk P seed) m s))"

text \<open>ML-KEM-1024 decapsulates what was encapsulated to the key of a seed; sizes are fixed.\<close>
definition mlkem1024_correct :: "primitives \<Rightarrow> draws \<Rightarrow> bool" where
  "mlkem1024_correct P E \<longleftrightarrow>
    (\<forall>seed. length seed = 64 \<longrightarrow> length (mlkem1024_ek P seed) = 1568 \<and>
      (\<forall>ct ss. drawn_encapsulation1024 E (mlkem1024_ek P seed) = Some (ct, ss) \<longrightarrow>
         length ct = 1568 \<and> length ss = 32 \<and> mlkem1024_dec P seed ct = Some ss))"

subsection \<open>Consequences\<close>

lemma hkdf_sha256_total:
  assumes "hkdf_total P" "len \<le> 255 * 32"
  obtains okm where "hkdf_sha256 P salt ikm info len = Some okm" "length okm = len"
  using assms unfolding hkdf_total_def by blast

lemma hkdf_derive_key_total:
  assumes "hkdf_total P" "len \<le> 255 * 32"
  obtains okm where "hkdf_derive_key P salt ikm info len = Inr okm" "length okm = len"
proof -
  obtain okm where "hkdf_sha256 P salt ikm info len = Some okm" "length okm = len"
    using hkdf_sha256_total [OF assms] .
  then show thesis by (intro that [of okm]) (simp_all add: hkdf_derive_key_def)
qed

lemma kdf_ck_total:
  assumes "hkdf_total P"
  obtains mk nk where "kdf_ck P ck = Inr (mk, nk)" "length mk = 32" "length nk = 32"
proof -
  obtain okm where
    "hkdf_sha256 P ck [] (ascii ''Double-Ratchet-Chain-Key-Expansion'') 64 = Some okm" "length okm = 64"
    by (rule hkdf_sha256_total [OF assms, where len = 64]) auto
  then show thesis by (intro that [of "take 32 okm" "drop 32 okm"]) (simp_all add: kdf_ck_def)
qed

lemma kdf_rk_total:
  assumes "hkdf_total P"
  obtains rk ck where "kdf_rk P root dh = Inr (rk, ck)" "length rk = 32" "length ck = 32"
proof -
  obtain okm where
    "hkdf_sha256 P root dh (ascii ''Double-Ratchet-Root-Key-Expansion'') 64 = Some okm" "length okm = 64"
    by (rule hkdf_sha256_total [OF assms, where len = 64]) auto
  then show thesis by (intro that [of "take 32 okm" "drop 32 okm"]) (simp_all add: kdf_rk_def)
qed

lemma kem_decapsulate_commutes:
  assumes "dh_commutes P" "length a = 32" "length b = 32"
  shows "kem_decapsulate P a (x25519_base P b) = kem_decapsulate P b (x25519_base P a)"
  using assms by (simp add: kem_decapsulate_def dh_commutes_def Let_def)

lemma aead_decrypt_encrypt:
  assumes "aead_correct P" "aead_encrypt P k n pt ad = Inr ct"
  shows "aead_decrypt P k n ct ad = Inr pt"
  using assms by (auto simp: aead_correct_def aead_encrypt_def aead_decrypt_def)

lemma verify_sign:
  assumes "ed25519_correct P" "sign P seed m = Inr s"
  shows "verify P (ed25519_vk P seed) m s = Inr ()" "length (ed25519_vk P seed) = 32" "length s = 64"
proof -
  have s: "length seed = 32" "s = ed25519_sig P seed m" using assms(2) by (simp_all add: sign_def split: if_splits)
  have "length (ed25519_vk P seed) = 32 \<and> ed25519_vk_ok P (ed25519_vk P seed) \<and>
    length (ed25519_sig P seed m) = 64 \<and> ed25519_check P (ed25519_vk P seed) m (ed25519_sig P seed m)"
    using assms(1) s(1) unfolding ed25519_correct_def by blast
  then show "verify P (ed25519_vk P seed) m s = Inr ()" "length (ed25519_vk P seed) = 32" "length s = 64"
    by (simp_all add: s verify_def)
qed

lemma mlkem1024_agree:
  assumes "mlkem1024_correct P E" "mlkem1024_public_from_seed P seed = Inr pk"
    and "mlkem1024_encapsulate E pk = Inr (ct, ss)"
  shows "mlkem1024_decapsulate P seed ct = Inr ss" "length pk = 1568" "length ct = 1568" "length ss = 32"
proof -
  have pk: "length seed = 64" "pk = mlkem1024_ek P seed"
    using assms(2)
    by (simp_all add: mlkem1024_public_from_seed_def mlkem1024_key_from_seed_def MLKEM_SEED_SIZE_def split: if_splits)
  have e: "drawn_encapsulation1024 E (mlkem1024_ek P seed) = Some (ct, ss)"
    using assms(3) by (simp add: mlkem1024_encapsulate_def pk split: if_splits)
  have "length (mlkem1024_ek P seed) = 1568 \<and> length ct = 1568 \<and> length ss = 32 \<and> mlkem1024_dec P seed ct = Some ss"
    using assms(1) pk(1) e unfolding mlkem1024_correct_def by blast
  then show "mlkem1024_decapsulate P seed ct = Inr ss" "length pk = 1568" "length ct = 1568" "length ss = 32"
    by (simp_all add: pk mlkem1024_decapsulate_def mlkem1024_key_from_seed_def MLKEM_SEED_SIZE_def
        MLKEM1024_CT_SIZE_def)
qed

end
