(* ===== verification/Ratchet_State.thy ===== *)
theory Ratchet_State
  imports Crypto_Provider Padding Wire_Payload
begin

text \<open>
  The data of the Double Ratchet (\<open>src/crypto/messaging/double_ratchet/mod.rs\<close>): the session
  record field by field, the chains of the sparse post-quantum ratchet, the message, the snapshot a
  decrypt takes, and the derivation of the shared session id.  Also the two labels of
  \<open>src/crypto/kyber_prekey_auth.rs\<close> a session carries.
\<close>

datatype pq_authentication =
    Unknown | Classic | Authenticated | Unauthenticated | Received | ReceivedProven

fun pq_authentication_as_u8 :: "pq_authentication \<Rightarrow> u8" where
  "pq_authentication_as_u8 Unknown = 0"
| "pq_authentication_as_u8 Classic = 1"
| "pq_authentication_as_u8 Authenticated = 2"
| "pq_authentication_as_u8 Unauthenticated = 3"
| "pq_authentication_as_u8 Received = 4"
| "pq_authentication_as_u8 ReceivedProven = 5"

definition pq_authentication_from_u8 :: "u8 \<Rightarrow> pq_authentication" where
  "pq_authentication_from_u8 v =
    (if v = 1 then Classic else if v = 2 then Authenticated else if v = 3 then Unauthenticated
     else if v = 4 then Received else if v = 5 then ReceivedProven else Unknown)"

datatype pq_handshake = NoHandshake | DeferredV1 | InitialV2

fun pq_handshake_as_u8 :: "pq_handshake \<Rightarrow> u8" where
  "pq_handshake_as_u8 NoHandshake = 0"
| "pq_handshake_as_u8 DeferredV1 = 1"
| "pq_handshake_as_u8 InitialV2 = 2"

definition pq_handshake_from_u8 :: "u8 \<Rightarrow> pq_handshake" where
  "pq_handshake_from_u8 v = (if v = 1 then DeferredV1 else if v = 2 then InitialV2 else NoHandshake)"

definition pq_handshake_legacy :: "bool option \<Rightarrow> pq_handshake" where
  "pq_handshake_legacy pq_applied = (if pq_applied = Some True then DeferredV1 else NoHandshake)"

subsection \<open>Post-quantum ratchet state\<close>

record pq_ratchet_key_pair =
  kp_public :: bytes
  kp_secret :: bytes

record pending_pq_exchange =
  px_epoch :: u32
  px_keypair :: pq_ratchet_key_pair

record pq_chain =
  ch_index :: u32
  ch_key :: bytes

record pq_epoch_chains =
  ec_epoch :: u32
  ec_send :: "pq_chain option"
  ec_recv :: pq_chain

record pending_pq_ciphertext =
  pc_epoch :: u32
  pc_ek_hash :: bytes
  pc_ciphertext :: bytes
  pc_chains :: pq_epoch_chains

definition PQ_CHAIN_RETENTION :: nat where "PQ_CHAIN_RETENTION = 2"

record prekey_header =
  ph_one_time_prekey_id :: u32
  ph_kyber_prekey_id :: u32
  ph_kem_ciphertext :: bytes
  ph_kem_identity :: bytes

datatype identity_proof = NoProof | AwaitingAnswer | Answered bytes

subsection \<open>The session\<close>

record dr_session =
  dr_suite_id :: suite_id
  root_key :: bytes
  sending_chain_key :: bytes
  sending_chain_length :: u32
  receiving_chain_key :: bytes
  receiving_chain_length :: u32
  dh_ratchet_private :: "bytes option"
  dh_ratchet_public :: bytes
  remote_dh_public :: "bytes option"
  previous_sending_length :: u32
  skipped_message_keys :: "(bytes \<times> u32, bytes) hmap"
  skipped_key_timestamps :: "(bytes \<times> u32, u64) hmap"
  dr_prekey_header :: "prekey_header option"
  dr_pq_handshake :: pq_handshake
  pq_turns_since_mix :: u32
  is_pq_initiator :: bool
  current_pq_epoch :: u32
  pq_chains :: "pq_epoch_chains list"
  pq_skipped_keys :: "(u32 \<times> u32, bytes) hmap"
  pq_skipped_key_timestamps :: "(u32 \<times> u32, u64) hmap"
  dr_pending_pq_exchange :: "pending_pq_exchange option"
  dr_pending_pq_ciphertext :: "pending_pq_ciphertext option"
  pq_pending_since :: u64
  pq_epoch_since :: u64
  session_id :: bytes
  contact_id :: bytes
  local_user_id :: bytes
  last_ratchet_at :: u64
  peer_ad_version :: u8
  dr_pq_authentication :: pq_authentication
  pq_applied :: "bool option"
  dr_identity_proof :: identity_proof

record decrypt_snapshot =
  sn_root_key :: bytes
  sn_sending_chain_key :: bytes
  sn_sending_chain_length :: u32
  sn_receiving_chain_key :: bytes
  sn_receiving_chain_length :: u32
  sn_dh_ratchet_private :: "bytes option"
  sn_dh_ratchet_public :: bytes
  sn_remote_dh_public :: "bytes option"
  sn_previous_sending_length :: u32
  sn_skipped_message_keys :: "(bytes \<times> u32, bytes) hmap"
  sn_skipped_key_timestamps :: "(bytes \<times> u32, u64) hmap"
  sn_pq_turns_since_mix :: u32
  sn_current_pq_epoch :: u32
  sn_pq_chains :: "pq_epoch_chains list"
  sn_pq_skipped_keys :: "(u32 \<times> u32, bytes) hmap"
  sn_pq_skipped_key_timestamps :: "(u32 \<times> u32, u64) hmap"
  sn_pending_pq_exchange :: "pending_pq_exchange option"
  sn_pending_pq_ciphertext :: "pending_pq_ciphertext option"
  sn_pq_pending_since :: u64
  sn_identity_proof :: identity_proof
  sn_pq_authentication :: pq_authentication

record encrypted_ratchet_message =
  em_dh_public_key :: bytes
  em_message_number :: u32
  em_ciphertext :: bytes
  em_nonce :: bytes
  em_previous_chain_length :: u32
  em_suite_id :: u16
  em_pq_message_epoch :: u32
  em_pq_key_index :: u32
  em_pq_ratchet_field :: "pq_ratchet_wire_field option"
  em_identity_proof_ciphertext :: "bytes option"
  em_ad_version :: u8

record dr_health_snapshot =
  hs_messages_sent :: u32
  hs_messages_received :: u32
  hs_skipped_keys_count :: nat
  hs_is_pq_strengthened :: bool
  hs_pq_authentication :: pq_authentication
  hs_pq_handshake :: pq_handshake
  hs_last_ratchet_at :: u64
  hs_session_id :: bytes
  hs_pq_epoch :: u32
  hs_pq_oldest_chain_epoch :: "u32 option"
  hs_pq_skipped_keys_count :: nat

definition AD_SEND_DEFAULT :: u8 where "AD_SEND_DEFAULT = AD_VERSION_LEGACY"

definition global_config :: config where "global_config = config_default"

subsection \<open>Errors\<close>

datatype dr_error =
    SessionIdDerivationFailed crypto_error
  | RootKeyDerivationFailed crypto_error
  | PublicKeyDerivationFailed crypto_error
  | DhFailed crypto_error
  | KdfRkFailed crypto_error
  | KdfCkFailed crypto_error
  | DhKeyGenerationFailed crypto_error
  | InvalidSuiteInFirstMessage u16
  | PaddingFailed padding_error
  | SendingChainOverflow
  | NonceFailed crypto_error
  | InvalidPublicKeyLength
  | SessionIdNotHex
  | EncryptionFailed crypto_error
  | DecryptionFailed crypto_error
  | UnpaddingFailed padding_error
  | JumpAfterDhStep u32
  | PreviousChainJump u32 u32
  | NumberJump u32 u32
  | TooManySkipped
  | ReceivingChainOverflow
  | MESSAGE_KEY_CONSUMED u32 u32
  | NoDhPrivateKey
  | IdentityAnswerMissing
  | IdentityRootMixFailed crypto_error
  | IdentityChainMixFailed crypto_error
  | AlreadySentOrAnswered
  | PqKeygenFailed mlkem_error
  | PqNoSendChain u32
  | PqEpochChainsFailed crypto_error
  | PqChainStepFailed crypto_error
  | PqIndexOverflow
  | PqIndexWithoutEpoch u32
  | PqUnknownEpoch u32 u32
  | PqKeyConsumed u32 u32 u32
  | PqIndexJump u32 u32
  | TooManySkippedPq
  | PqMixFailed crypto_error
  | AdDowngrade u8
  | UnknownAdVersion u8

subsection \<open>The shared session id\<close>

definition derive_shared_session_id :: "primitives \<Rightarrow> bytes \<Rightarrow> bytes \<Rightarrow> bytes \<Rightarrow> crypto_error + bytes" where
  "derive_shared_session_id P root_key_x3dh local_id contact =
    (let (first, second) = (if local_id \<le> contact then (local_id, contact) else (contact, local_id));
         info = ascii ''Construct-SessionID-v2'' @ [0] @ first @ [0] @ second
     in res_bind (hkdf_derive_key P root_key_x3dh (ascii ''construct-session-id'') info 16)
          (\<lambda>bytes. Inr (hex_encode bytes)))"

lemma pq_authentication_roundtrip [simp]:
  "pq_authentication_from_u8 (pq_authentication_as_u8 a) = a"
  by (cases a) (simp_all add: pq_authentication_from_u8_def)

lemma pq_handshake_roundtrip [simp]: "pq_handshake_from_u8 (pq_handshake_as_u8 h) = h"
  by (cases h) (simp_all add: pq_handshake_from_u8_def)

lemma session_id_symmetric:
  "derive_shared_session_id P root a b = derive_shared_session_id P root b a"
proof -
  have "a \<le> b \<Longrightarrow> b \<le> a \<Longrightarrow> a = b" by (rule order_antisym)
  then show ?thesis
    by (cases "a \<le> b"; cases "b \<le> a") (auto simp: derive_shared_session_id_def)
qed

lemma session_id_is_hex:
  assumes "derive_shared_session_id P root a b = Inr sid"
  obtains bs where "hex_decode sid = Some bs"
  using assms by (auto simp: derive_shared_session_id_def Let_def result_iffs split: if_splits)

end
