(* ===== verification/Ratchet_Internals.thy ===== *)
theory Ratchet_Internals
  imports Ratchet_State
begin

text \<open>
  The internals of the Double Ratchet
  (\<open>src/crypto/messaging/double_ratchet/internals.rs\<close>): the DH step, the sparse post-quantum
  ratchet, key mixing, the associated data and the AEAD step of a decrypt.  Each method is one
  definition, in the order of the file.
\<close>

type_synonym 'a dr = "(dr_session, dr_error, 'a) eff"

definition health_snapshot :: "dr_session \<Rightarrow> dr_health_snapshot" where
  "health_snapshot s =
    \<lparr> hs_messages_sent = sending_chain_length s,
      hs_messages_received = receiving_chain_length s,
      hs_skipped_keys_count = hm_len (skipped_message_keys s),
      hs_is_pq_strengthened = (case pq_applied s of None \<Rightarrow> False | Some b \<Rightarrow> b),
      hs_pq_authentication = dr_pq_authentication s,
      hs_pq_handshake = dr_pq_handshake s,
      hs_last_ratchet_at = last_ratchet_at s,
      hs_session_id = session_id s,
      hs_pq_epoch = current_pq_epoch s,
      hs_pq_oldest_chain_epoch = (case pq_chains s of [] \<Rightarrow> None | c # _ \<Rightarrow> Some (ec_epoch c)),
      hs_pq_skipped_keys_count = hm_len (pq_skipped_keys s) \<rparr>"

definition state_fingerprint :: "primitives \<Rightarrow> dr_session \<Rightarrow> bytes" where
  "state_fingerprint P s =
    hex_encode (take 8 (sha256 P (ascii ''ConstructDR-fingerprint-v1'' @
      u16_to_be (as_u16 (dr_suite_id s)) @ u32_to_be (sending_chain_length s) @
      u32_to_be (receiving_chain_length s) @ u32_to_be (previous_sending_length s) @
      u32_to_be (current_pq_epoch s) @ u32_to_be (pq_turns_since_mix s) @
      root_key s @ sending_chain_key s @ receiving_chain_key s @ dh_ratchet_public s @
      (case remote_dh_public s of Some k \<Rightarrow> k | None \<Rightarrow> [0]) @
      u32_to_be (of_nat (hm_len (skipped_message_keys s))))))"

definition mark_pqxdh_v2 :: "pq_authentication \<Rightarrow> dr_session \<Rightarrow> dr_session" where
  "mark_pqxdh_v2 authentication s =
    s\<lparr> dr_pq_handshake := InitialV2, pq_applied := Some True, dr_pq_authentication := authentication \<rparr>"

definition set_prekey_header :: "prekey_header \<Rightarrow> dr_session \<Rightarrow> dr_session" where
  "set_prekey_header header s = s\<lparr> dr_prekey_header := Some header \<rparr>"

definition restore_snapshot :: "decrypt_snapshot \<Rightarrow> dr_session \<Rightarrow> dr_session" where
  "restore_snapshot sn s =
    s\<lparr> root_key := sn_root_key sn,
       sending_chain_key := sn_sending_chain_key sn,
       sending_chain_length := sn_sending_chain_length sn,
       receiving_chain_key := sn_receiving_chain_key sn,
       receiving_chain_length := sn_receiving_chain_length sn,
       dh_ratchet_private := sn_dh_ratchet_private sn,
       dh_ratchet_public := sn_dh_ratchet_public sn,
       remote_dh_public := sn_remote_dh_public sn,
       previous_sending_length := sn_previous_sending_length sn,
       skipped_message_keys := sn_skipped_message_keys sn,
       skipped_key_timestamps := sn_skipped_key_timestamps sn,
       pq_turns_since_mix := sn_pq_turns_since_mix sn,
       current_pq_epoch := sn_current_pq_epoch sn,
       pq_chains := sn_pq_chains sn,
       pq_skipped_keys := sn_pq_skipped_keys sn,
       pq_skipped_key_timestamps := sn_pq_skipped_key_timestamps sn,
       dr_pending_pq_exchange := sn_pending_pq_exchange sn,
       dr_pending_pq_ciphertext := sn_pending_pq_ciphertext sn,
       pq_pending_since := sn_pq_pending_since sn,
       dr_identity_proof := sn_identity_proof sn,
       dr_pq_authentication := sn_pq_authentication sn \<rparr>"

definition expect_identity_answer :: "dr_session \<Rightarrow> dr_session" where
  "expect_identity_answer s = s\<lparr> dr_identity_proof := AwaitingAnswer \<rparr>"

definition mix_identity_secret ::
    "primitives \<Rightarrow> bytes \<Rightarrow> bytes \<Rightarrow> bytes \<Rightarrow> dr_error + (bytes \<times> bytes)" where
  "mix_identity_secret P root chain secret =
    res_bind (map_err IdentityRootMixFailed
        (hkdf_derive_key P secret root (ascii ''Construct-KEM-identity-root-v1'') 32)) (\<lambda>root'.
    res_bind (map_err IdentityChainMixFailed
        (hkdf_derive_key P secret chain (ascii ''Construct-KEM-identity-chain-v1'') 32)) (\<lambda>chain'.
    Inr (root', chain')))"

definition answer_initiator_identity :: "primitives \<Rightarrow> bytes \<Rightarrow> bytes \<Rightarrow> unit dr" where
  "answer_initiator_identity P secret ciphertext =
    st_bind st_get (\<lambda>s.
      if sending_chain_length s \<noteq> 0 \<or> dr_identity_proof s \<noteq> NoProof
      then st_throw AlreadySentOrAnswered
      else st_bind (st_lift (mix_identity_secret P (root_key s) (sending_chain_key s) secret))
        (\<lambda>(root, chain).
          st_modify (\<lambda>s. s\<lparr> root_key := root, sending_chain_key := chain,
            dr_identity_proof := Answered ciphertext \<rparr>)))"

definition complete_identity_proof :: "dr_session \<Rightarrow> dr_session" where
  "complete_identity_proof s = (case dr_identity_proof s of
     Answered _ \<Rightarrow> s\<lparr> dr_identity_proof := NoProof, dr_pq_authentication := ReceivedProven \<rparr>
   | _ \<Rightarrow> s)"

subsection \<open>Starting a post-quantum exchange\<close>

definition pq_epoch_is_old :: "draws \<Rightarrow> dr_session \<Rightarrow> bool" where
  "pq_epoch_is_old E s \<longleftrightarrow>
    pq_ratchet_max_age_seconds global_config \<le> sat_sub (now E) (pq_epoch_since s)"

definition abandon_unanswered_pq_exchange :: "draws \<Rightarrow> dr_session \<Rightarrow> dr_session" where
  "abandon_unanswered_pq_exchange E s =
    (let max_age = (of_int (max 0 (max_skipped_message_age_seconds global_config)) :: u64)
     in if pq_pending_since s \<noteq> 0 \<and> max_age < sat_sub (now E) (pq_pending_since s) \<and>
           dr_pending_pq_exchange s \<noteq> None
        then s\<lparr> dr_pending_pq_exchange := None, pq_pending_since := 0 \<rparr>
        else s)"

definition start_pq_exchange :: "draws \<Rightarrow> unit dr" where
  "start_pq_exchange E =
    st_bind st_get (\<lambda>s.
      if dr_pending_pq_exchange s \<noteq> None then st_return ()
      else st_bind (st_lift (map_err PqKeygenFailed (mlkem768_keygen E))) (\<lambda>(public, secret).
        st_modify (\<lambda>s. s\<lparr>
          dr_pending_pq_exchange := Some \<lparr> px_epoch = sat_add (current_pq_epoch s) 1,
            px_keypair = \<lparr> kp_public = public, kp_secret = secret \<rparr> \<rparr>,
          pq_pending_since := now E,
          pq_turns_since_mix := 0 \<rparr>)))"

definition maybe_advance_pq_ratchet :: "draws \<Rightarrow> unit dr" where
  "maybe_advance_pq_ratchet E =
    st_bind st_get (\<lambda>s.
      if \<not> is_pq_ratchet (dr_suite_id s) \<or> \<not> is_pq_initiator s then st_return ()
      else
        st_bind (st_modify (abandon_unanswered_pq_exchange E)) (\<lambda>_.
        st_bind (st_modify (\<lambda>s. s\<lparr> pq_turns_since_mix := sat_add (pq_turns_since_mix s) 1 \<rparr>)) (\<lambda>_.
        st_bind st_get (\<lambda>s.
          if pq_turns_since_mix s < pq_ratchet_interval global_config \<and> \<not> pq_epoch_is_old E s
          then st_return ()
          else start_pq_exchange E))))"

definition maybe_start_pq_exchange_by_age :: "draws \<Rightarrow> unit dr" where
  "maybe_start_pq_exchange_by_age E =
    st_bind st_get (\<lambda>s.
      if \<not> is_pq_ratchet (dr_suite_id s) \<or> \<not> is_pq_initiator s then st_return ()
      else
        st_bind (st_modify (abandon_unanswered_pq_exchange E)) (\<lambda>_.
        st_bind st_get (\<lambda>s.
          if \<not> pq_epoch_is_old E s then st_return () else start_pq_exchange E)))"

subsection \<open>The DH step\<close>

definition perform_dh_ratchet :: "primitives \<Rightarrow> draws \<Rightarrow> bytes \<Rightarrow> bytes option \<Rightarrow> unit dr" where
  "perform_dh_ratchet P E new_remote_dh identity_secret =
    st_bind (st_modify (\<lambda>s. s\<lparr> previous_sending_length := sending_chain_length s \<rparr>)) (\<lambda>_.
    st_bind st_get (\<lambda>s.
    st_bind (st_lift (ok_or NoDhPrivateKey (dh_ratchet_private s))) (\<lambda>dh_private.
    st_bind (st_lift (map_err DhFailed (kem_decapsulate P dh_private new_remote_dh))) (\<lambda>dh_receive.
    st_bind (st_lift (map_err KdfRkFailed (kdf_rk P (root_key s) dh_receive)))
      (\<lambda>(new_root_key, new_receiving_chain).
    st_bind (st_modify (\<lambda>s. s\<lparr> root_key := new_root_key, receiving_chain_key := new_receiving_chain,
        receiving_chain_length := 0 \<rparr>)) (\<lambda>_.
    st_bind st_get (\<lambda>s.
    st_bind (if dr_identity_proof s = AwaitingAnswer
      then
        st_bind (st_lift (ok_or IdentityAnswerMissing identity_secret)) (\<lambda>secret.
        st_bind (st_lift (mix_identity_secret P (root_key s) (receiving_chain_key s) secret))
          (\<lambda>(root, chain).
        st_modify (\<lambda>s. s\<lparr> root_key := root, receiving_chain_key := chain,
          dr_identity_proof := NoProof \<rparr>)))
      else st_return ()) (\<lambda>_.
    st_bind (st_lift (map_err DhKeyGenerationFailed (generate_kem_keys P E)))
      (\<lambda>(new_dh_private, new_dh_public).
    st_bind (st_lift (map_err DhFailed (kem_decapsulate P new_dh_private new_remote_dh))) (\<lambda>dh_send.
    st_bind st_get (\<lambda>s.
    st_bind (st_lift (map_err KdfRkFailed (kdf_rk P (root_key s) dh_send)))
      (\<lambda>(new_root_key2, new_sending_chain).
    st_bind (st_modify (\<lambda>s. s\<lparr> root_key := new_root_key2, sending_chain_key := new_sending_chain,
        sending_chain_length := 0, dh_ratchet_private := Some new_dh_private,
        dh_ratchet_public := new_dh_public, remote_dh_public := Some new_remote_dh,
        last_ratchet_at := now E \<rparr>)) (\<lambda>_.
    maybe_advance_pq_ratchet E)))))))))))))"

subsection \<open>Post-quantum epochs and chains\<close>

definition pq_ek_hash :: "primitives \<Rightarrow> bytes \<Rightarrow> bytes" where
  "pq_ek_hash P ek = (case hkdf_derive_key P [] ek (ascii ''construct-pqr-ekhash-v1'') 8 of
     Inl _ \<Rightarrow> replicate 8 0 | Inr bytes \<Rightarrow> bytes)"

definition pq_epoch_chains_of :: "primitives \<Rightarrow> bytes \<Rightarrow> u32 \<Rightarrow> bool \<Rightarrow> dr_error + pq_epoch_chains" where
  "pq_epoch_chains_of P secret epoch initiator =
    res_bind (map_err PqEpochChainsFailed
        (hkdf_derive_key P [] secret (ascii ''construct-pqr-chains-v2'' @ u32_to_be epoch) 64))
      (\<lambda>out.
        let initiator_sends = \<lparr> ch_index = 0, ch_key = take 32 out \<rparr>;
            responder_sends = \<lparr> ch_index = 0, ch_key = drop 32 out \<rparr>;
            (send, recv) = (if initiator then (initiator_sends, responder_sends)
                            else (responder_sends, initiator_sends))
        in Inr \<lparr> ec_epoch = epoch, ec_send = Some send, ec_recv = recv \<rparr>)"

definition pq_chain_step :: "primitives \<Rightarrow> pq_chain \<Rightarrow> dr_error + (pq_chain \<times> u32 \<times> bytes)" where
  "pq_chain_step P chain =
    res_bind (map_err PqChainStepFailed
        (hkdf_derive_key P [] (ch_key chain) (ascii ''construct-pqr-step-v2'') 64)) (\<lambda>out.
    res_bind (ok_or PqIndexOverflow (checked_add (ch_index chain) 1)) (\<lambda>next_index.
    Inr (\<lparr> ch_index = next_index, ch_key = take 32 out \<rparr>, ch_index chain, drop 32 out)))"

fun remove_first :: "('a \<Rightarrow> bool) \<Rightarrow> 'a list \<Rightarrow> 'a list" where
  "remove_first p [] = []"
| "remove_first p (x # xs) = (if p x then xs else x # remove_first p xs)"

definition insert_pq_epoch_chains :: "pq_epoch_chains \<Rightarrow> dr_session \<Rightarrow> dr_session" where
  "insert_pq_epoch_chains new_chains s =
    (let epoch = ec_epoch new_chains;
         without = remove_first (\<lambda>c. ec_epoch c = epoch) (pq_chains s);
         stopped = map (\<lambda>c. if ec_epoch c < epoch then c\<lparr> ec_send := None \<rparr> else c) without;
         ordered = sort_key ec_epoch (stopped @ [new_chains])
     in s\<lparr> pq_chains := drop (length ordered - PQ_CHAIN_RETENTION) ordered \<rparr>)"

fun step_send_chain ::
    "primitives \<Rightarrow> u32 \<Rightarrow> pq_epoch_chains list \<Rightarrow> dr_error + (pq_epoch_chains list \<times> u32 \<times> bytes)" where
  "step_send_chain P epoch [] = Inl (PqNoSendChain epoch)"
| "step_send_chain P epoch (c # cs) =
    (if ec_epoch c = epoch
     then (case ec_send c of
             None \<Rightarrow> Inl (PqNoSendChain epoch)
           | Some chain \<Rightarrow> res_bind (pq_chain_step P chain) (\<lambda>(chain', index, key).
               Inr (c\<lparr> ec_send := Some chain' \<rparr> # cs, index, key)))
     else res_bind (step_send_chain P epoch cs) (\<lambda>(cs', index, key). Inr (c # cs', index, key)))"

definition pq_send_key :: "primitives \<Rightarrow> (u32 \<times> u32 \<times> bytes option) dr" where
  "pq_send_key P =
    st_bind st_get (\<lambda>s.
      let epoch = current_pq_epoch s
      in if \<not> is_pq_ratchet (dr_suite_id s) \<or> epoch = 0 then st_return (0, 0, None)
         else st_bind (st_lift (step_send_chain P epoch (pq_chains s))) (\<lambda>(chains, index, key).
           st_bind (st_modify (\<lambda>s. s\<lparr> pq_chains := chains \<rparr>)) (\<lambda>_.
             st_return (epoch, index, Some key))))"

subsection \<open>The key of a received message\<close>

function pq_receive_loop ::
    "primitives \<Rightarrow> u64 \<Rightarrow> u32 \<Rightarrow> u32 \<Rightarrow> pq_chain \<Rightarrow> (u32 \<times> u32, bytes) hmap \<Rightarrow> (u32 \<times> u32, u64) hmap
     \<Rightarrow> (dr_error + bytes) \<times> pq_chain \<times> (u32 \<times> u32, bytes) hmap \<times> (u32 \<times> u32, u64) hmap" where
  "pq_receive_loop P t epoch index chain skipped stamps =
    (case pq_chain_step P chain of
       Inl e \<Rightarrow> (Inl e, chain, skipped, stamps)
     | Inr (chain', i, key) \<Rightarrow>
         if i = index then (Inr key, chain', skipped, stamps)
         else if unat (max_skipped_messages global_config) \<le> hm_len skipped
         then (Inl TooManySkippedPq, chain', skipped, stamps)
         else pq_receive_loop P t epoch index chain'
                (hm_insert (epoch, i) key skipped) (hm_insert (epoch, i) t stamps))"
  by pat_completeness auto

lemma pq_chain_step_index:
  assumes "pq_chain_step P chain = Inr (chain', i, key)"
  shows "i = ch_index chain" "unat (ch_index chain') = Suc (unat (ch_index chain))"
proof -
  from assms have "i = ch_index chain \<and> checked_add (ch_index chain) 1 = Some (ch_index chain')"
    by (auto simp: pq_chain_step_def result_iffs)
  then show "i = ch_index chain" "unat (ch_index chain') = Suc (unat (ch_index chain))"
    using checked_add_SomeD(1) [of "ch_index chain" 1] by auto
qed

termination pq_receive_loop
proof (relation "measure (\<lambda>(P, t, epoch, index, chain, skipped, stamps). 2 ^ 32 - unat (ch_index chain))",
    goal_cases)
  case (2 P t epoch index chain skipped stamps r chain' r' i key)
  then have "unat (ch_index chain') = Suc (unat (ch_index chain))" by (auto dest: pq_chain_step_index)
  moreover have "unat (ch_index chain') < 2 ^ 32" using unat_less_power [of "ch_index chain'"] by simp
  ultimately show ?case by simp
qed simp

declare pq_receive_loop.simps [simp del]

text \<open>The receive chain a message of \<open>epoch\<close> is read on: that of a completed epoch, else that of the
  provisional one.\<close>

definition find_recv_chain :: "u32 \<Rightarrow> dr_session \<Rightarrow> pq_chain option" where
  "find_recv_chain epoch s = (case find (\<lambda>c. ec_epoch c = epoch) (pq_chains s) of
     Some c \<Rightarrow> Some (ec_recv c)
   | None \<Rightarrow> (case dr_pending_pq_ciphertext s of
       Some p \<Rightarrow> if pc_epoch p = epoch then Some (ec_recv (pc_chains p)) else None
     | None \<Rightarrow> None))"

fun set_first_recv :: "u32 \<Rightarrow> pq_chain \<Rightarrow> pq_epoch_chains list \<Rightarrow> pq_epoch_chains list" where
  "set_first_recv epoch chain [] = []"
| "set_first_recv epoch chain (c # cs) =
    (if ec_epoch c = epoch then c\<lparr> ec_recv := chain \<rparr> # cs else c # set_first_recv epoch chain cs)"

definition set_recv_chain :: "u32 \<Rightarrow> pq_chain \<Rightarrow> dr_session \<Rightarrow> dr_session" where
  "set_recv_chain epoch chain s = (case find (\<lambda>c. ec_epoch c = epoch) (pq_chains s) of
     Some _ \<Rightarrow> s\<lparr> pq_chains := set_first_recv epoch chain (pq_chains s) \<rparr>
   | None \<Rightarrow> s\<lparr> dr_pending_pq_ciphertext := map_option
       (\<lambda>p. p\<lparr> pc_chains := (pc_chains p)\<lparr> ec_recv := chain \<rparr> \<rparr>) (dr_pending_pq_ciphertext s) \<rparr>)"

definition pq_receive_key :: "primitives \<Rightarrow> draws \<Rightarrow> u32 \<Rightarrow> u32 \<Rightarrow> bytes option dr" where
  "pq_receive_key P E epoch index =
    st_bind st_get (\<lambda>s.
      if \<not> is_pq_ratchet (dr_suite_id s) \<or> epoch = 0
      then (if index \<noteq> 0 then st_throw (PqIndexWithoutEpoch index) else st_return None)
      else (case hm_get (epoch, index) (pq_skipped_keys s) of
        Some key \<Rightarrow>
          st_bind (st_modify (\<lambda>s. s\<lparr> pq_skipped_keys := hm_remove (epoch, index) (pq_skipped_keys s),
              pq_skipped_key_timestamps := hm_remove (epoch, index) (pq_skipped_key_timestamps s) \<rparr>))
            (\<lambda>_. st_return (Some key))
      | None \<Rightarrow> (case find_recv_chain epoch s of
          None \<Rightarrow> st_throw (PqUnknownEpoch epoch (current_pq_epoch s))
        | Some chain \<Rightarrow>
            if index < ch_index chain then st_throw (PqKeyConsumed epoch index (ch_index chain))
            else if sat_add (ch_index chain) (max_message_jump global_config) < index
            then st_throw (PqIndexJump (ch_index chain) index)
            else (\<lambda>s. case pq_receive_loop P (now E) epoch index chain (pq_skipped_keys s)
                         (pq_skipped_key_timestamps s) of
                (r, chain', skipped, stamps) \<Rightarrow>
                  (res_bind r (\<lambda>key. Inr (Some key)),
                   (set_recv_chain epoch chain' s)\<lparr> pq_skipped_keys := skipped,
                     pq_skipped_key_timestamps := stamps \<rparr>)))))"

definition mix_pq_message_key :: "primitives \<Rightarrow> bytes \<Rightarrow> bytes option \<Rightarrow> dr_error + bytes" where
  "mix_pq_message_key P dr_key pq_key = (case pq_key of
     None \<Rightarrow> Inr dr_key
   | Some pq_key \<Rightarrow> map_err PqMixFailed
       (hkdf_derive_key P pq_key dr_key (ascii ''construct-pqr-msg-v2'') 32))"

definition take_outgoing_pq_field :: "dr_session \<Rightarrow> pq_ratchet_wire_field option" where
  "take_outgoing_pq_field s =
    (if \<not> is_pq_ratchet (dr_suite_id s) then None
     else (case dr_pending_pq_ciphertext s of
        Some p \<Rightarrow> Some (Ciphertext (pc_epoch p) (pc_ek_hash p) (pc_ciphertext p))
      | None \<Rightarrow> map_option (\<lambda>ex. PublicKey (px_epoch ex) (kp_public (px_keypair ex)))
          (dr_pending_pq_exchange s)))"

subsection \<open>Commit after a successful decrypt\<close>

definition promote_pending :: "draws \<Rightarrow> encrypted_ratchet_message \<Rightarrow> dr_session \<Rightarrow> dr_session" where
  "promote_pending E m s = (case dr_pending_pq_ciphertext s of
     None \<Rightarrow> s
   | Some p \<Rightarrow>
       if pc_epoch p \<le> em_pq_message_epoch m
       then (insert_pq_epoch_chains (pc_chains p)
              (s\<lparr> dr_pending_pq_ciphertext := None,
                  current_pq_epoch := max (current_pq_epoch s) (pc_epoch p) \<rparr>))
            \<lparr> pq_epoch_since := now E \<rparr>
       else s)"

definition ingest_public_key :: "primitives \<Rightarrow> draws \<Rightarrow> u32 \<Rightarrow> bytes \<Rightarrow> dr_session \<Rightarrow> dr_session" where
  "ingest_public_key P E epoch key s =
    (if is_pq_initiator s \<or> epoch \<le> current_pq_epoch s then s
     else
       (let incoming_hash = pq_ek_hash P key
        in if (case dr_pending_pq_ciphertext s of
                 None \<Rightarrow> False | Some p \<Rightarrow> pc_epoch p = epoch \<and> pc_ek_hash p = incoming_hash)
           then s
           else (case mlkem768_encapsulate E key of
              Inl _ \<Rightarrow> s
            | Inr (ciphertext, shared_secret) \<Rightarrow>
                (case pq_epoch_chains_of P shared_secret epoch (is_pq_initiator s) of
                   Inl _ \<Rightarrow> s
                 | Inr epoch_chains \<Rightarrow>
                     s\<lparr> dr_pending_pq_ciphertext := Some \<lparr> pc_epoch = epoch,
                          pc_ek_hash = incoming_hash, pc_ciphertext = ciphertext,
                          pc_chains = epoch_chains \<rparr> \<rparr>))))"

definition ingest_ciphertext ::
    "primitives \<Rightarrow> draws \<Rightarrow> u32 \<Rightarrow> bytes \<Rightarrow> bytes \<Rightarrow> dr_session \<Rightarrow> dr_session" where
  "ingest_ciphertext P E epoch ek_hash ct s = (case dr_pending_pq_exchange s of
     None \<Rightarrow> s
   | Some p \<Rightarrow>
       if px_epoch p \<noteq> epoch \<or> pq_ek_hash P (kp_public (px_keypair p)) \<noteq> ek_hash then s
       else (case mlkem768_decapsulate P (kp_secret (px_keypair p)) ct of
          Inl _ \<Rightarrow> s
        | Inr shared_secret \<Rightarrow>
            (case pq_epoch_chains_of P shared_secret epoch (is_pq_initiator s) of
               Inl _ \<Rightarrow> s
             | Inr epoch_chains \<Rightarrow>
                 (insert_pq_epoch_chains epoch_chains
                    (s\<lparr> dr_pending_pq_exchange := None, current_pq_epoch := epoch \<rparr>))
                 \<lparr> pq_pending_since := 0, pq_epoch_since := now E \<rparr>)))"

definition commit_pq_post_decrypt ::
    "primitives \<Rightarrow> draws \<Rightarrow> encrypted_ratchet_message \<Rightarrow> dr_session \<Rightarrow> dr_session" where
  "commit_pq_post_decrypt P E m s =
    (if \<not> is_pq_ratchet (dr_suite_id s) then s
     else
       (let s = promote_pending E m s
        in case em_pq_ratchet_field m of
             None \<Rightarrow> s
           | Some (PublicKey epoch key) \<Rightarrow> ingest_public_key P E epoch key s
           | Some (Ciphertext epoch ek_hash ct) \<Rightarrow> ingest_ciphertext P E epoch ek_hash ct s))"

subsection \<open>Associated data and the AEAD step\<close>

record ad_header =
  ah_dh_public_key :: bytes
  ah_message_number :: u32
  ah_pq_message_epoch :: u32
  ah_pq_key_index :: u32
  ah_previous_chain_length :: u32
  ah_suite_id :: u16
  ah_pq_ratchet_field :: "pq_ratchet_wire_field option"
  ah_identity_proof_ciphertext :: "bytes option"

definition ad_header_of :: "encrypted_ratchet_message \<Rightarrow> ad_header" where
  "ad_header_of m =
    \<lparr> ah_dh_public_key = em_dh_public_key m, ah_message_number = em_message_number m,
      ah_pq_message_epoch = em_pq_message_epoch m, ah_pq_key_index = em_pq_key_index m,
      ah_previous_chain_length = em_previous_chain_length m, ah_suite_id = em_suite_id m,
      ah_pq_ratchet_field = em_pq_ratchet_field m,
      ah_identity_proof_ciphertext = em_identity_proof_ciphertext m \<rparr>"

definition len16 :: "bytes \<Rightarrow> bytes" where
  "len16 b = u16_to_be (of_nat (min (length b) 65535))"

definition ad_pq_field :: "pq_ratchet_wire_field option \<Rightarrow> bytes" where
  "ad_pq_field field = (case field of
     None \<Rightarrow> [0]
   | Some (PublicKey epoch key) \<Rightarrow> [1] @ u32_to_be epoch @ len16 key @ key
   | Some (Ciphertext epoch ek_hash ct) \<Rightarrow> [2] @ u32_to_be epoch @ ek_hash @ len16 ct @ ct)"

definition associated_data ::
    "u8 \<Rightarrow> bytes \<Rightarrow> bytes \<Rightarrow> bytes \<Rightarrow> bool \<Rightarrow> ad_header \<Rightarrow> bytes" where
  "associated_data version sender receiver session_id_bytes pq_ratchet_suite h =
    [version] @ sender @ receiver @ session_id_bytes @ ah_dh_public_key h @
    u32_to_be (ah_message_number h) @
    (if pq_ratchet_suite then u32_to_be (ah_pq_message_epoch h) @ u32_to_be (ah_pq_key_index h)
     else []) @
    (if AD_VERSION_HEADER \<le> version
     then u32_to_be (ah_previous_chain_length h) @ u16_to_be (ah_suite_id h) @
       ad_pq_field (ah_pq_ratchet_field h) @
       (let proof = (case ah_identity_proof_ciphertext h of None \<Rightarrow> [] | Some b \<Rightarrow> b)
        in len16 proof @ proof)
     else [])"

definition ad_send_version :: "dr_session \<Rightarrow> u8" where
  "ad_send_version s =
    (if AD_VERSION_HEADER \<le> peer_ad_version s then AD_VERSION_HEADER else AD_SEND_DEFAULT)"

definition try_aead_decrypt ::
    "primitives \<Rightarrow> bytes \<Rightarrow> encrypted_ratchet_message \<Rightarrow> dr_session \<Rightarrow> dr_error + bytes" where
  "try_aead_decrypt P message_key m s =
    (let ad_version = em_ad_version m
     in res_bind (if ad_version = AD_VERSION_HEADER then Inr ()
                  else if ad_version = AD_VERSION_LEGACY \<and> peer_ad_version s < AD_VERSION_HEADER
                  then Inr ()
                  else if ad_version = AD_VERSION_LEGACY then Inl (AdDowngrade (peer_ad_version s))
                  else Inl (UnknownAdVersion ad_version)) (\<lambda>_.
        res_bind (ok_or SessionIdNotHex (hex_decode (session_id s))) (\<lambda>session_id_bytes.
        (let ad = associated_data ad_version (contact_id s) (local_user_id s) session_id_bytes
                    (is_pq_ratchet (dr_suite_id s)) (ad_header_of m)
         in res_bind (map_err DecryptionFailed
                (aead_decrypt P message_key (em_nonce m) (em_ciphertext m) (Some ad)))
              (\<lambda>padded. map_err UnpaddingFailed (unpad_message padded))))))"

definition decrypt_with_key ::
    "primitives \<Rightarrow> draws \<Rightarrow> bytes \<Rightarrow> encrypted_ratchet_message \<Rightarrow> bytes dr" where
  "decrypt_with_key P E message_key m =
    st_bind st_get (\<lambda>s.
      let (pq_epoch, pq_index) = (if is_pq_ratchet (dr_suite_id s)
            then (em_pq_message_epoch m, em_pq_key_index m) else (0, 0))
      in st_bind (pq_receive_key P E pq_epoch pq_index) (\<lambda>pq_key.
         st_bind (st_lift (mix_pq_message_key P message_key pq_key)) (\<lambda>mixed.
         st_bind st_get (\<lambda>s.
         st_bind (st_lift (try_aead_decrypt P mixed m s)) (\<lambda>plaintext.
         st_bind (st_modify (\<lambda>s. s\<lparr> peer_ad_version := max (peer_ad_version s) (em_ad_version m) \<rparr>))
           (\<lambda>_. st_return plaintext))))))"

end
