(* ===== verification/Ratchet_Messaging.thy ===== *)
theory Ratchet_Messaging
  imports Ratchet_Internals
begin

text \<open>
  The public operations of the Double Ratchet
  (\<open>src/crypto/messaging/double_ratchet/messaging.rs\<close>): making a session on either side, encrypt,
  decrypt and the cleanup of skipped keys.

  \<open>decrypt_message\<close> is the whole method: the periodic cleanup, the snapshot, the skipped key tried
  first, the guards on the jump, the walk of the old chain up to \<open>PN\<close>, the DH step, the walk of the
  new chain, the AEAD step and the commit.  An error path that restores the snapshot in the code
  restores it here; the guards return without restoring, as they do in the code.
\<close>

subsection \<open>Making a session\<close>

definition initial_root :: "primitives \<Rightarrow> bytes \<Rightarrow> dr_error + bytes" where
  "initial_root P root_key_x3dh = map_err RootKeyDerivationFailed
     (hkdf_derive_key P (replicate 32 0xFE) root_key_x3dh (ascii ''InitialRootKey'') 32)"

definition fresh_session ::
    "draws \<Rightarrow> suite_id \<Rightarrow> bytes \<Rightarrow> bytes \<Rightarrow> bytes \<Rightarrow> bytes \<Rightarrow> bytes \<Rightarrow> bytes \<Rightarrow> bool \<Rightarrow> bytes \<Rightarrow> bytes \<Rightarrow> bytes
     \<Rightarrow> dr_session" where
  "fresh_session E suite root sending receiving dh_private dh_public remote initiator sid contact me =
    \<lparr> dr_suite_id = suite, root_key = root, sending_chain_key = sending, sending_chain_length = 0,
      receiving_chain_key = receiving, receiving_chain_length = 0,
      dh_ratchet_private = Some dh_private, dh_ratchet_public = dh_public,
      remote_dh_public = Some remote, previous_sending_length = 0,
      skipped_message_keys = [], skipped_key_timestamps = [], dr_prekey_header = None,
      dr_pq_handshake = NoHandshake, pq_turns_since_mix = 0, is_pq_initiator = initiator,
      current_pq_epoch = 0, pq_chains = [], pq_skipped_keys = [], pq_skipped_key_timestamps = [],
      dr_pending_pq_exchange = None, dr_pending_pq_ciphertext = None, pq_pending_since = 0,
      pq_epoch_since = now E, session_id = sid, contact_id = contact, local_user_id = me,
      last_ratchet_at = now E, peer_ad_version = AD_VERSION_LEGACY,
      dr_pq_authentication = Classic, pq_applied = Some False, dr_identity_proof = NoProof \<rparr>"

definition new_initiator_session ::
    "primitives \<Rightarrow> draws \<Rightarrow> bytes \<Rightarrow> bytes \<Rightarrow> bytes \<Rightarrow> bytes \<Rightarrow> bytes \<Rightarrow> suite_id \<Rightarrow> dr_error + dr_session" where
  "new_initiator_session P E root ephemeral_private remote_identity contact me suite =
    res_bind (map_err SessionIdDerivationFailed (derive_shared_session_id P root me contact)) (\<lambda>sid.
    res_bind (initial_root P root) (\<lambda>root_key_val.
    res_bind (map_err PublicKeyDerivationFailed (from_private_key_to_public_key P ephemeral_private))
      (\<lambda>dh_public.
    res_bind (map_err DhFailed (kem_decapsulate P ephemeral_private remote_identity)) (\<lambda>dh_output.
    res_bind (map_err KdfRkFailed (kdf_rk P root_key_val dh_output)) (\<lambda>(root', chain).
    Inr (fresh_session E suite root' chain [] ephemeral_private dh_public remote_identity
           (is_pq_ratchet suite) sid contact me))))))"

subsection \<open>Encrypting\<close>

definition encrypt :: "primitives \<Rightarrow> draws \<Rightarrow> bytes \<Rightarrow> encrypted_ratchet_message dr" where
  "encrypt P E plaintext =
    st_bind (st_lift (map_err PaddingFailed (pad_message_default plaintext))) (\<lambda>padded.
    st_bind (maybe_start_pq_exchange_by_age E) (\<lambda>_.
    st_bind (pq_send_key P) (\<lambda>(pq_message_epoch, pq_key_index, pq_key).
    st_bind st_get (\<lambda>s.
    st_bind (st_lift (map_err KdfCkFailed (kdf_ck P (sending_chain_key s))))
      (\<lambda>(message_key, next_chain_key).
    st_bind (st_lift (mix_pq_message_key P message_key pq_key)) (\<lambda>message_key.
    st_bind (st_lift (ok_or SendingChainOverflow (checked_add (sending_chain_length s) 1)))
      (\<lambda>next_number.
    st_bind (st_modify (\<lambda>s. s\<lparr> sending_chain_key := next_chain_key,
        sending_chain_length := next_number \<rparr>)) (\<lambda>_.
    (let message_number = sending_chain_length s in
    st_bind (st_lift (map_err NonceFailed (generate_nonce E (chacha_nonce_length global_config))))
      (\<lambda>nonce.
    st_bind st_get (\<lambda>s.
    if length (dh_ratchet_public s) \<noteq> 32 then st_throw InvalidPublicKeyLength
    else
    st_bind (st_lift (ok_or SessionIdNotHex (hex_decode (session_id s)))) (\<lambda>session_id_bytes.
    (let ad_version = ad_send_version s;
         pq_ratchet_field = take_outgoing_pq_field s;
         identity_proof_ciphertext =
           (case dr_identity_proof s of Answered ciphertext \<Rightarrow> Some ciphertext | _ \<Rightarrow> None);
         ad = associated_data ad_version (local_user_id s) (contact_id s) session_id_bytes
           (is_pq_ratchet (dr_suite_id s))
           \<lparr> ah_dh_public_key = dh_ratchet_public s, ah_message_number = message_number,
             ah_pq_message_epoch = pq_message_epoch, ah_pq_key_index = pq_key_index,
             ah_previous_chain_length = previous_sending_length s,
             ah_suite_id = as_u16 (dr_suite_id s), ah_pq_ratchet_field = pq_ratchet_field,
             ah_identity_proof_ciphertext = identity_proof_ciphertext \<rparr>
     in st_bind (st_lift (map_err EncryptionFailed
            (aead_encrypt P message_key nonce padded (Some ad)))) (\<lambda>ciphertext.
        st_return
          \<lparr> em_dh_public_key = dh_ratchet_public s, em_message_number = message_number,
            em_ciphertext = ciphertext, em_nonce = nonce,
            em_previous_chain_length = previous_sending_length s,
            em_suite_id = as_u16 (dr_suite_id s), em_pq_message_epoch = pq_message_epoch,
            em_pq_key_index = pq_key_index, em_pq_ratchet_field = pq_ratchet_field,
            em_identity_proof_ciphertext = identity_proof_ciphertext,
            em_ad_version = ad_version \<rparr>))))))))))))))"

subsection \<open>Skipped keys\<close>

definition expired :: "draws \<Rightarrow> int \<Rightarrow> u64 option \<Rightarrow> bool" where
  "expired E max_age stamp = (case stamp of
     Some ts \<Rightarrow> max_age \<le> sint (now E) - sint ts
   | None \<Rightarrow> True)"

definition cleanup_old_skipped_keys :: "draws \<Rightarrow> int \<Rightarrow> dr_session \<Rightarrow> dr_session" where
  "cleanup_old_skipped_keys E max_age s =
    (let keys_to_remove = filter (\<lambda>k. expired E max_age (hm_get k (skipped_key_timestamps s)))
           (map fst (skipped_message_keys s));
         pq_expired = filter (\<lambda>k. expired E max_age (hm_get k (pq_skipped_key_timestamps s)))
           (map fst (pq_skipped_keys s))
     in s\<lparr> skipped_message_keys := fold hm_remove keys_to_remove (skipped_message_keys s),
           skipped_key_timestamps := fold hm_remove keys_to_remove (skipped_key_timestamps s),
           pq_skipped_keys := fold hm_remove pq_expired (pq_skipped_keys s),
           pq_skipped_key_timestamps := fold hm_remove pq_expired (pq_skipped_key_timestamps s) \<rparr>)"

definition periodic_cleanup :: "draws \<Rightarrow> dr_session \<Rightarrow> dr_session" where
  "periodic_cleanup E s =
    (if receiving_chain_length s mod 100 = 0 \<and>
        \<not> (skipped_message_keys s = [] \<and> pq_skipped_keys s = [])
     then cleanup_old_skipped_keys E (max_skipped_message_age_seconds global_config) s
     else s)"

definition take_snapshot :: "dr_session \<Rightarrow> decrypt_snapshot" where
  "take_snapshot s =
    \<lparr> sn_root_key = root_key s, sn_sending_chain_key = sending_chain_key s,
      sn_sending_chain_length = sending_chain_length s,
      sn_receiving_chain_key = receiving_chain_key s,
      sn_receiving_chain_length = receiving_chain_length s,
      sn_dh_ratchet_private = dh_ratchet_private s, sn_dh_ratchet_public = dh_ratchet_public s,
      sn_remote_dh_public = remote_dh_public s,
      sn_previous_sending_length = previous_sending_length s,
      sn_skipped_message_keys = skipped_message_keys s,
      sn_skipped_key_timestamps = skipped_key_timestamps s,
      sn_pq_turns_since_mix = pq_turns_since_mix s, sn_current_pq_epoch = current_pq_epoch s,
      sn_pq_chains = pq_chains s, sn_pq_skipped_keys = pq_skipped_keys s,
      sn_pq_skipped_key_timestamps = pq_skipped_key_timestamps s,
      sn_pending_pq_exchange = dr_pending_pq_exchange s,
      sn_pending_pq_ciphertext = dr_pending_pq_ciphertext s,
      sn_pq_pending_since = pq_pending_since s, sn_identity_proof = dr_identity_proof s,
      sn_pq_authentication = dr_pq_authentication s \<rparr>"

definition store_skipped :: "draws \<Rightarrow> bytes \<Rightarrow> bytes \<Rightarrow> bytes \<Rightarrow> dr_session \<Rightarrow> dr_session" where
  "store_skipped E chain msg_key next_chain s =
    s\<lparr> skipped_message_keys :=
         hm_insert (chain, receiving_chain_length s) msg_key (skipped_message_keys s),
       skipped_key_timestamps :=
         hm_insert (chain, receiving_chain_length s) (now E) (skipped_key_timestamps s),
       receiving_chain_key := next_chain \<rparr>"

text \<open>The loop that saves the rest of the old chain, up to the sender's \<open>PN\<close>.\<close>

function skip_old_chain :: "primitives \<Rightarrow> draws \<Rightarrow> bytes \<Rightarrow> u32 \<Rightarrow> unit dr" where
  "skip_old_chain P E old_remote pn s =
    (if receiving_chain_length s < pn then
       if unat (max_skipped_messages global_config) \<le> hm_len (skipped_message_keys s)
       then (Inl TooManySkipped, s)
       else (case kdf_ck P (receiving_chain_key s) of
          Inl e \<Rightarrow> (Inl (KdfCkFailed e), s)
        | Inr (msg_key, next_chain) \<Rightarrow>
            (let s' = store_skipped E old_remote msg_key next_chain s
             in case checked_add (receiving_chain_length s) 1 of
                  None \<Rightarrow> (Inl ReceivingChainOverflow, s')
                | Some v \<Rightarrow> skip_old_chain P E old_remote pn (s'\<lparr> receiving_chain_length := v \<rparr>)))
     else (Inr (), s))"
  by pat_completeness auto

termination skip_old_chain
  by (relation "measure (\<lambda>(P, E, k, pn, s). unat pn - unat (receiving_chain_length s))")
    (auto simp: word_less_nat_alt dest: checked_add_SomeD(1))

declare skip_old_chain.simps [simp del]

text \<open>The loop that walks the receiving chain to the message: the key at its number, or none when
  the chain has already passed it.\<close>

function walk_chain :: "primitives \<Rightarrow> draws \<Rightarrow> bytes \<Rightarrow> u32 \<Rightarrow> bytes option dr" where
  "walk_chain P E chain_id message_number s =
    (if receiving_chain_length s \<le> message_number then
       (case kdf_ck P (receiving_chain_key s) of
          Inl e \<Rightarrow> (Inl (KdfCkFailed e), s)
        | Inr (msg_key, next_chain) \<Rightarrow>
            if receiving_chain_length s = message_number then
              (let s' = s\<lparr> receiving_chain_key := next_chain \<rparr>
               in case checked_add (receiving_chain_length s) 1 of
                    None \<Rightarrow> (Inl ReceivingChainOverflow, s')
                  | Some v \<Rightarrow> (Inr (Some msg_key), s'\<lparr> receiving_chain_length := v \<rparr>))
            else
              (let s' = store_skipped E chain_id msg_key next_chain s
               in case checked_add (receiving_chain_length s) 1 of
                    None \<Rightarrow> (Inl ReceivingChainOverflow, s')
                  | Some v \<Rightarrow>
                      (let s'' = s'\<lparr> receiving_chain_length := v \<rparr>
                       in if unat (max_skipped_messages global_config)
                               \<le> hm_len (skipped_message_keys s'')
                          then (Inl TooManySkipped, s'')
                          else walk_chain P E chain_id message_number s'')))
     else (Inr None, s))"
  by pat_completeness auto

termination walk_chain
  by (relation "measure (\<lambda>(P, E, k, n, s). Suc (unat n) - unat (receiving_chain_length s))")
    (auto simp: word_le_nat_alt dest: checked_add_SomeD(1))

declare walk_chain.simps [simp del]

subsection \<open>Decrypting\<close>

definition needs_dh_step :: "encrypted_ratchet_message \<Rightarrow> dr_session \<Rightarrow> bool" where
  "needs_dh_step m s = (case remote_dh_public s of
     Some current_remote \<Rightarrow> current_remote \<noteq> em_dh_public_key m
   | None \<Rightarrow> True)"

definition check_jump :: "encrypted_ratchet_message \<Rightarrow> dr_session \<Rightarrow> dr_error + unit" where
  "check_jump m s =
    (let max_jump = max_message_jump global_config
     in if needs_dh_step m s
        then if max_jump < em_message_number m then Inl (JumpAfterDhStep (em_message_number m))
             else if sat_add (receiving_chain_length s) max_jump < em_previous_chain_length m
             then Inl (PreviousChainJump (receiving_chain_length s) (em_previous_chain_length m))
             else Inr ()
        else if sat_add (receiving_chain_length s) max_jump < em_message_number m
        then Inl (NumberJump (receiving_chain_length s) (em_message_number m))
        else Inr ())"

definition dh_turn ::
    "primitives \<Rightarrow> draws \<Rightarrow> encrypted_ratchet_message \<Rightarrow> bytes option \<Rightarrow> unit dr" where
  "dh_turn P E m identity_secret =
    st_bind st_get (\<lambda>s.
    st_bind (case remote_dh_public s of
        Some old_remote \<Rightarrow> skip_old_chain P E old_remote (em_previous_chain_length m)
      | None \<Rightarrow> st_return ()) (\<lambda>_.
    perform_dh_ratchet P E (em_dh_public_key m) identity_secret))"

definition decrypt_skipped ::
    "primitives \<Rightarrow> draws \<Rightarrow> encrypted_ratchet_message \<Rightarrow> bytes \<Rightarrow> bytes dr" where
  "decrypt_skipped P E m key =
    (let slot = (em_dh_public_key m, em_message_number m)
     in st_bind st_get (\<lambda>s.
        st_bind (st_modify (\<lambda>s. s\<lparr> skipped_message_keys := hm_remove slot (skipped_message_keys s),
            skipped_key_timestamps := hm_remove slot (skipped_key_timestamps s) \<rparr>)) (\<lambda>_.
        st_bind (st_inspect_err (restore_snapshot (take_snapshot s)) (decrypt_with_key P E key m))
          (\<lambda>plaintext.
        st_bind (st_modify (commit_pq_post_decrypt P E m)) (\<lambda>_. st_return plaintext)))))"

definition decrypt_on_chain ::
    "primitives \<Rightarrow> draws \<Rightarrow> encrypted_ratchet_message \<Rightarrow> bytes option \<Rightarrow> bytes dr" where
  "decrypt_on_chain P E m identity_secret =
    st_bind st_get (\<lambda>s0.
    st_bind (st_lift (check_jump m s0)) (\<lambda>_.
    st_inspect_err (restore_snapshot (take_snapshot s0))
      (st_bind (if needs_dh_step m s0 then dh_turn P E m identity_secret else st_return ()) (\<lambda>_.
       st_bind (walk_chain P E (em_dh_public_key m) (em_message_number m)) (\<lambda>found.
       case found of
         None \<Rightarrow> st_throw (MESSAGE_KEY_CONSUMED (em_message_number m) (receiving_chain_length s0))
       | Some msg_key \<Rightarrow>
           st_bind (decrypt_with_key P E msg_key m) (\<lambda>plaintext.
           st_bind (st_modify (commit_pq_post_decrypt P E m)) (\<lambda>_.
           st_bind (st_modify (\<lambda>s. if needs_dh_step m s0 then complete_identity_proof s else s))
             (\<lambda>_. st_return plaintext))))))))"

definition decrypt_message ::
    "primitives \<Rightarrow> draws \<Rightarrow> encrypted_ratchet_message \<Rightarrow> bytes option \<Rightarrow> bytes dr" where
  "decrypt_message P E m identity_secret =
    st_bind (st_modify (periodic_cleanup E)) (\<lambda>_.
    st_bind st_get (\<lambda>s.
      case hm_get (em_dh_public_key m, em_message_number m) (skipped_message_keys s) of
        Some key \<Rightarrow> decrypt_skipped P E m key
      | None \<Rightarrow> decrypt_on_chain P E m identity_secret))"

definition decrypt_with_identity_secret ::
    "primitives \<Rightarrow> draws \<Rightarrow> encrypted_ratchet_message \<Rightarrow> bytes option \<Rightarrow> bytes dr" where
  "decrypt_with_identity_secret P E m identity_secret =
    st_bind (decrypt_message P E m identity_secret) (\<lambda>plaintext.
    st_bind (st_modify (\<lambda>s. s\<lparr> dr_prekey_header := None \<rparr>)) (\<lambda>_. st_return plaintext))"

definition decrypt :: "primitives \<Rightarrow> draws \<Rightarrow> encrypted_ratchet_message \<Rightarrow> bytes dr" where
  "decrypt P E m = decrypt_with_identity_secret P E m None"

subsection \<open>Answering a first message\<close>

definition new_responder_session ::
    "primitives \<Rightarrow> draws \<Rightarrow> bytes \<Rightarrow> bytes \<Rightarrow> encrypted_ratchet_message \<Rightarrow> bytes \<Rightarrow> bytes
     \<Rightarrow> dr_error + (dr_session \<times> bytes)" where
  "new_responder_session P E root local_identity first_message contact me =
    (let remote_dh_public = em_dh_public_key first_message in
    res_bind (map_err SessionIdDerivationFailed (derive_shared_session_id P root me contact)) (\<lambda>sid.
    res_bind (initial_root P root) (\<lambda>root_key_val.
    res_bind (map_err DhFailed (kem_decapsulate P local_identity remote_dh_public)) (\<lambda>dh_output.
    res_bind (map_err KdfRkFailed (kdf_rk P root_key_val dh_output)) (\<lambda>(new_root_key, receiving).
    res_bind (map_err DhKeyGenerationFailed (generate_kem_keys P E)) (\<lambda>(dh_private, dh_public).
    res_bind (map_err DhFailed (kem_decapsulate P dh_private remote_dh_public)) (\<lambda>dh_output2.
    res_bind (map_err KdfRkFailed (kdf_rk P new_root_key dh_output2)) (\<lambda>(final_root_key, sending).
    res_bind (map_err (\<lambda>_. InvalidSuiteInFirstMessage (em_suite_id first_message))
        (suite_new (em_suite_id first_message))) (\<lambda>suite.
    (let session = fresh_session E suite final_root_key sending receiving dh_private dh_public
           remote_dh_public False sid contact me
     in case decrypt P E first_message session of
          (Inl e, _) \<Rightarrow> Inl e
        | (Inr plaintext, session') \<Rightarrow> Inr (session', plaintext)))))))))))"

end
