(* ===== verification/Ratchet_Atomic.thy ===== *)
theory Ratchet_Atomic
  imports Ratchet_Messaging
begin

text \<open>
  A decrypt that fails gives the session back.  The snapshot taken by \<open>decrypt\<close> covers every field
  the method changes before the message is authenticated, but one: \<open>last_ratchet_at\<close>, which the DH
  step sets and the snapshot does not hold.  \<open>unsnapped\<close> collects the fields outside the snapshot
  that no step before authentication touches.
\<close>

definition unsnapped ::
    "dr_session \<Rightarrow> suite_id \<times> prekey_header option \<times> pq_handshake \<times> bool \<times> u64 \<times> bytes \<times> bytes \<times>
      bytes \<times> u8 \<times> bool option" where
  "unsnapped s = (dr_suite_id s, dr_prekey_header s, dr_pq_handshake s, is_pq_initiator s,
    pq_epoch_since s, session_id s, contact_id s, local_user_id s, peer_ad_version s, pq_applied s)"

lemma restore_unsnapped:
  fixes s s0 :: dr_session
  assumes "unsnapped s = unsnapped s0"
  shows "restore_snapshot (take_snapshot s0) s = s0\<lparr> last_ratchet_at := last_ratchet_at s \<rparr>"
  using assms
  by (intro dr_session.equality) (simp_all add: unsnapped_def restore_snapshot_def take_snapshot_def)

lemma skip_old_chain_unsnapped: "unsnapped (snd (skip_old_chain P E k pn s)) = unsnapped s"
proof (induction P E k pn s rule: skip_old_chain.induct)
  case (1 P E k pn s)
  then show ?case
    by (subst skip_old_chain.simps)
      (auto simp: Let_def unsnapped_def store_skipped_def split: sum.splits prod.splits option.splits)
qed

lemma walk_chain_unsnapped:
  assumes "walk_chain P E k n s = (r, s')"
  shows "unsnapped s' = unsnapped s \<and> last_ratchet_at s' = last_ratchet_at s"
  using assms
proof (induction P E k n s arbitrary: r s' rule: walk_chain.induct)
  case (1 P E k n s)
  from "1.prems" show ?case
    by (subst (asm) walk_chain.simps)
      (auto simp: Let_def unsnapped_def store_skipped_def split: sum.splits prod.splits option.splits
        if_splits dest!: "1.IH" [rotated -1])
qed

lemma pq_receive_key_unsnapped:
  "unsnapped (snd (pq_receive_key P E ep i s)) = unsnapped s \<and>
   last_ratchet_at (snd (pq_receive_key P E ep i s)) = last_ratchet_at s"
  by (auto simp: pq_receive_key_def unsnapped_def set_recv_chain_def
      split: option.splits prod.splits)

lemma maybe_advance_unsnapped: "unsnapped (snd (maybe_advance_pq_ratchet E s)) = unsnapped s"
  by (auto simp: maybe_advance_pq_ratchet_def start_pq_exchange_def mlkem768_keygen_def
      abandon_unanswered_pq_exchange_def Let_def unsnapped_def split: prod.splits)

lemma st_keeps_split:
  "st_keeps I (case p of (a, b) \<Rightarrow> f a b) \<longleftrightarrow> (case p of (a, b) \<Rightarrow> st_keeps I (f a b))"
  "st_keeps I (if c then m else m') \<longleftrightarrow> (if c then st_keeps I m else st_keeps I m')"
  by (auto split: prod.splits)

lemma perform_dh_ratchet_unsnapped: "unsnapped (snd (perform_dh_ratchet P E k sec s)) = unsnapped s"
proof -
  have m: "st_keeps (\<lambda>s. unsnapped s = u) (maybe_advance_pq_ratchet E)" for u
    by (simp add: st_keeps_def maybe_advance_unsnapped)
  have "st_keeps (\<lambda>s. unsnapped s = u) (perform_dh_ratchet P E k sec)" for u
    unfolding perform_dh_ratchet_def
    by (auto simp: st_keeps_split intro!: st_keeps_bind st_keeps_prim m split: prod.splits)
      (simp_all add: unsnapped_def)
  then show ?thesis by (simp add: st_keeps_def)
qed

lemma dh_turn_unsnapped: "unsnapped (snd (dh_turn P E m sec s)) = unsnapped s"
proof -
  obtain r s1 where s1: "(case remote_dh_public s of
        Some old_remote \<Rightarrow> skip_old_chain P E old_remote (em_previous_chain_length m)
      | None \<Rightarrow> st_return ()) s = (r, s1)" by fastforce
  have "unsnapped s1 = unsnapped s"
    using s1 skip_old_chain_unsnapped [of P E _ "em_previous_chain_length m" s]
    by (auto split: option.splits) (metis snd_conv)
  then show ?thesis
    using s1 perform_dh_ratchet_unsnapped [of P E "em_dh_public_key m" sec s1]
    by (cases r) (simp_all add: dh_turn_def)
qed

lemma decrypt_with_key_error_unsnapped:
  assumes "decrypt_with_key P E k m s = (Inl e, s')"
  shows "unsnapped s' = unsnapped s \<and> last_ratchet_at s' = last_ratchet_at s"
proof -
  let ?ep = "if is_pq_ratchet (dr_suite_id s) then em_pq_message_epoch m else 0"
    and ?ix = "if is_pq_ratchet (dr_suite_id s) then em_pq_key_index m else 0"
  obtain r s1 where r: "pq_receive_key P E ?ep ?ix s = (r, s1)" by fastforce
  have "unsnapped s1 = unsnapped s \<and> last_ratchet_at s1 = last_ratchet_at s"
    using pq_receive_key_unsnapped [of P E ?ep ?ix s] r by simp
  moreover have "s' = s1"
    using assms r by (cases r) (auto simp: decrypt_with_key_def st_bind_Inl_iff split: if_splits)
  ultimately show ?thesis by simp
qed

lemma decrypt_on_chain_error:
  assumes "decrypt_on_chain P E m sec s = (Inl e, s')"
  shows "s' = s\<lparr> last_ratchet_at := last_ratchet_at s' \<rparr> \<and>
    (\<not> needs_dh_step m s \<longrightarrow> s' = s)"
proof (cases "check_jump m s")
  case (Inl e')
  then show ?thesis using assms by (simp add: decrypt_on_chain_def)
next
  case (Inr u)
  let ?turn = "if needs_dh_step m s then dh_turn P E m sec else st_return ()"
  from assms Inr obtain s1 where s': "s' = restore_snapshot (take_snapshot s) s1" and
    "(\<exists>e. ?turn s = (Inl e, s1)) \<or>
     (\<exists>s2. ?turn s = (Inr (), s2) \<and>
       (s1 = snd (walk_chain P E (em_dh_public_key m) (em_message_number m) s2) \<or>
        (\<exists>s3 k e. s3 = snd (walk_chain P E (em_dh_public_key m) (em_message_number m) s2) \<and>
           decrypt_with_key P E k m s3 = (Inl e, s1))))"
    by (auto simp: decrypt_on_chain_def st_inspect_err_Inl_iff st_bind_Inl_iff split: option.splits)
      (metis snd_conv)+
  moreover have "unsnapped (snd (?turn s)) = unsnapped s" "\<not> needs_dh_step m s \<Longrightarrow> snd (?turn s) = s"
    using dh_turn_unsnapped by simp_all
  ultimately have "unsnapped s1 = unsnapped s \<and>
      (\<not> needs_dh_step m s \<longrightarrow> last_ratchet_at s1 = last_ratchet_at s)"
    using walk_chain_unsnapped decrypt_with_key_error_unsnapped by (metis snd_conv prod.collapse)
  then show ?thesis using s' by (simp add: restore_unsnapped)
qed

lemma decrypt_skipped_error:
  assumes "decrypt_skipped P E m key s = (Inl e, s')"
  shows "s' = s"
proof -
  let ?slot = "(em_dh_public_key m, em_message_number m)"
  let ?s1 = "s\<lparr> skipped_message_keys := hm_remove ?slot (skipped_message_keys s),
      skipped_key_timestamps := hm_remove ?slot (skipped_key_timestamps s) \<rparr>"
  from assms obtain s2 where "decrypt_with_key P E key m ?s1 = (Inl e, s2)"
    and s': "s' = restore_snapshot (take_snapshot s) s2"
    by (auto simp: decrypt_skipped_def Let_def st_inspect_err_Inl_iff st_bind_Inl_iff)
  from decrypt_with_key_error_unsnapped [OF this(1)]
  have "unsnapped s2 = unsnapped s \<and> last_ratchet_at s2 = last_ratchet_at s"
    by (simp add: unsnapped_def)
  then show ?thesis using s' by (simp add: restore_unsnapped)
qed

lemma decrypt_error:
  assumes "decrypt_with_identity_secret P E m sec s = (Inl e, s')"
  shows "s' = (periodic_cleanup E s)\<lparr> last_ratchet_at := last_ratchet_at s' \<rparr> \<and>
    (\<not> needs_dh_step m s \<longrightarrow> s' = periodic_cleanup E s)"
proof -
  let ?s = "periodic_cleanup E s"
  have n: "needs_dh_step m ?s = needs_dh_step m s"
    by (simp add: needs_dh_step_def periodic_cleanup_def cleanup_old_skipped_keys_def Let_def)
  from assms have "decrypt_message P E m sec s = (Inl e, s')"
    by (auto simp: decrypt_with_identity_secret_def st_bind_Inl_iff)
  then consider key where "decrypt_skipped P E m key ?s = (Inl e, s')"
    | "decrypt_on_chain P E m sec ?s = (Inl e, s')"
    by (auto simp: decrypt_message_def split: option.splits)
  then show ?thesis
  proof cases
    case 1
    from decrypt_skipped_error [OF this] show ?thesis by simp
  next
    case 2
    from decrypt_on_chain_error [OF this] n show ?thesis by simp
  qed
qed

end
