(* ===== verification/Key_Window.thy ===== *)
theory Key_Window
  imports Core_Prelude
begin

text \<open>
  The contract of a symmetric receiving chain that keeps the keys it passes over: an index can be
  taken while the chain has not reached it or its key was kept, taking it gives the chain's key at
  that index and uses it up, and nothing else changes.  The receiving chain of the Double Ratchet and
  the receiving chain of a post-quantum epoch both provide it, each in its own theory.

  What follows for any sequence of attempts, in any order and with failures in between: the keys
  handed out are the chain's keys, and no index is handed out twice.
\<close>

locale key_window =
  fixes pos :: "'s \<Rightarrow> 'i::linorder"
    and held :: "'s \<Rightarrow> 'i \<Rightarrow> 'k option"
    and key_of :: "'i \<Rightarrow> 'k"
    and take_key :: "'i \<Rightarrow> 's \<Rightarrow> ('e + 'k) \<times> 's"
    and valid :: "'s \<Rightarrow> bool"
  assumes take_key_ok: "valid s \<Longrightarrow> take_key i s = (Inr k, s') \<Longrightarrow>
      valid s' \<and> k = key_of i \<and> (pos s \<le> i \<or> held s i \<noteq> None) \<and>
      \<not> (pos s' \<le> i \<or> held s' i \<noteq> None) \<and>
      (\<forall>j. j \<noteq> i \<longrightarrow> (pos s' \<le> j \<or> held s' j \<noteq> None) = (pos s \<le> j \<or> held s j \<noteq> None))"
    and take_key_err: "valid s \<Longrightarrow> take_key i s = (Inl e, s') \<Longrightarrow> s' = s"
begin

definition available :: "'i \<Rightarrow> 's \<Rightarrow> bool" where
  "available i s \<longleftrightarrow> pos s \<le> i \<or> held s i \<noteq> None"

primrec take_all :: "'i list \<Rightarrow> 's \<Rightarrow> ('i \<times> 'k) list" where
  "take_all [] s = []"
| "take_all (i # is) s = (case take_key i s of
     (Inr k, s') \<Rightarrow> (i, k) # take_all is s'
   | (Inl e, s') \<Rightarrow> take_all is s')"

lemma take_key_cases:
  assumes "valid s"
  obtains (taken) k s' where "take_key i s = (Inr k, s')" "valid s'" "k = key_of i" "available i s"
      "\<not> available i s'" "\<And>j. j \<noteq> i \<Longrightarrow> available j s' = available j s"
  | (refused) e where "take_key i s = (Inl e, s)"
proof (cases "take_key i s")
  case (Pair r s')
  then show thesis
    using taken take_key_ok [OF assms, of i] refused take_key_err [OF assms, of i]
    by (cases r) (auto simp: available_def)
qed

lemma consumed_refused:
  assumes "valid s" "\<not> available i s"
  obtains e where "take_key i s = (Inl e, s)"
  using assms(1) by (cases rule: take_key_cases [where i = i]) (use assms(2) in auto)

lemma take_all_sound:
  assumes "valid s" "(i, k) \<in> set (take_all is s)"
  shows "k = key_of i \<and> available i s"
  using assms
proof (induction "is" arbitrary: s)
  case (Cons a "is")
  from Cons.prems(1) show ?case
  proof (cases rule: take_key_cases [where i = a])
    case (taken k' s')
    then consider "i = a" "k = k'" | "(i, k) \<in> set (take_all is s')"
      using Cons.prems(2) by auto
    then show ?thesis
    proof cases
      case 2
      with Cons.IH [OF taken(2)] have "k = key_of i \<and> available i s'" by blast
      then show ?thesis using taken(5,6) by (cases "i = a") auto
    qed (use taken in simp)
  next
    case (refused e)
    then show ?thesis using Cons by simp
  qed
qed simp

lemma take_all_once: "valid s \<Longrightarrow> distinct (map fst (take_all is s))"
proof (induction "is" arbitrary: s)
  case (Cons a "is")
  from Cons.prems show ?case
  proof (cases rule: take_key_cases [where i = a])
    case (taken k s')
    then have "a \<notin> fst ` set (take_all is s')"
      using take_all_sound [OF taken(2)] by fastforce
    then show ?thesis using taken Cons.IH [OF taken(2)] by simp
  next
    case (refused e)
    then show ?thesis using Cons by simp
  qed
qed simp

end

end
