(* ===== verification/Ratchet_Chain.thy ===== *)
theory Ratchet_Chain
  imports Ratchet_Atomic Key_Window
begin

text \<open>
  The two symmetric receiving chains.  \<open>chain_at\<close> and \<open>msg_key_at\<close> are the reference: the sender's
  chain key and message key at a number.  \<open>walk_chain\<close> is shown to compute them and to keep exactly
  the keys it passes over; with the kept keys it provides the \<open>key_window\<close> contract.  The same is
  shown of \<open>pq_receive_key\<close> for the chain of a post-quantum epoch.
\<close>

subsection \<open>The receiving chain of the Double Ratchet\<close>

primrec chain_at :: "primitives \<Rightarrow> bytes \<Rightarrow> nat \<Rightarrow> bytes" where
  "chain_at P ck 0 = ck"
| "chain_at P ck (Suc n) = snd (projr (kdf_ck P (chain_at P ck n)))"

declare chain_at.simps(2) [simp del]

definition msg_key_at :: "primitives \<Rightarrow> bytes \<Rightarrow> nat \<Rightarrow> bytes" where
  "msg_key_at P ck n = fst (projr (kdf_ck P (chain_at P ck n)))"

lemma kdf_ck_chain:
  assumes "hkdf_total P"
  shows "kdf_ck P (chain_at P ck n) = Inr (msg_key_at P ck n, chain_at P ck (Suc n))"
proof -
  obtain mk nk where "kdf_ck P (chain_at P ck n) = Inr (mk, nk)"
    by (rule kdf_ck_total [OF assms])
  then show ?thesis by (simp add: msg_key_at_def chain_at.simps(2))
qed

definition on_chain :: "primitives \<Rightarrow> bytes \<Rightarrow> dr_session \<Rightarrow> bool" where
  "on_chain P ck s \<longleftrightarrow> receiving_chain_key s = chain_at P ck (unat (receiving_chain_length s))"

text \<open>What a walk of the receiving chain leaves alone.\<close>

definition same_but_chain :: "dr_session \<Rightarrow> dr_session \<Rightarrow> bool" where
  "same_but_chain s s' \<longleftrightarrow>
    s' = s\<lparr> receiving_chain_key := receiving_chain_key s',
             receiving_chain_length := receiving_chain_length s',
             skipped_message_keys := skipped_message_keys s',
             skipped_key_timestamps := skipped_key_timestamps s' \<rparr>"

lemma same_but_chain_refl: "same_but_chain s s"
  by (simp add: same_but_chain_def)

lemma same_but_chain_upd:
  "same_but_chain s (s\<lparr> receiving_chain_key := a, receiving_chain_length := b \<rparr>)"
  "same_but_chain (store_skipped E dh k c s\<lparr> receiving_chain_length := v \<rparr>) s' \<Longrightarrow> same_but_chain s s'"
  by (simp_all add: same_but_chain_def store_skipped_def)

lemma walk_chain_result:
  assumes "hkdf_total P" "on_chain P ck s" "walk_chain P E dh n s = (Inr r, s')"
  shows "case r of
      None \<Rightarrow> n < receiving_chain_length s \<and> s' = s
    | Some k \<Rightarrow> receiving_chain_length s \<le> n \<and> k = msg_key_at P ck (unat n) \<and>
        unat (receiving_chain_length s') = Suc (unat n) \<and> on_chain P ck s' \<and>
        (\<forall>c j. hm_get (c, j) (skipped_message_keys s') =
          (if c = dh \<and> receiving_chain_length s \<le> j \<and> j < n then Some (msg_key_at P ck (unat j))
           else hm_get (c, j) (skipped_message_keys s))) \<and>
        same_but_chain s s'"
  using assms
proof (induction P E dh n s arbitrary: r s' rule: walk_chain.induct)
  case (1 P E dh n s)
  let ?l = "receiving_chain_length s"
  let ?k = "msg_key_at P ck (unat ?l)" and ?nk = "chain_at P ck (Suc (unat ?l))"
  have kdf: "kdf_ck P (receiving_chain_key s) = Inr (?k, ?nk)"
    using "1.prems"(1,2) by (simp add: on_chain_def kdf_ck_chain)
  consider "n < ?l" | "?l = n" | "?l < n" by (meson not_less_iff_gr_or_eq)
  then show ?case
  proof cases
    case 1
    then have "\<not> ?l \<le> n" by simp
    with "1.prems"(3) have "r = None" "s' = s" by (subst (asm) walk_chain.simps, simp)+
    with 1 show ?thesis by simp
  next
    case 2
    with "1.prems"(3) kdf obtain v where v: "checked_add ?l 1 = Some v" "r = Some ?k"
      "s' = s\<lparr> receiving_chain_key := ?nk, receiving_chain_length := v \<rparr>"
      by (subst (asm) walk_chain.simps) (auto simp: Let_def split: option.splits)
    then show ?thesis using 2 checked_add_SomeD(1) [OF v(1)] by (auto simp: on_chain_def same_but_chain_upd)
  next
    case 3
    let ?s1 = "store_skipped E dh ?k ?nk s"
    from 3 "1.prems"(3) kdf obtain v where v: "checked_add ?l 1 = Some v"
      and lt: "\<not> unat (max_skipped_messages global_config) \<le> hm_len (skipped_message_keys (?s1\<lparr> receiving_chain_length := v \<rparr>))"
      and w: "walk_chain P E dh n (?s1\<lparr> receiving_chain_length := v \<rparr>) = (Inr r, s')"
      by (subst (asm) walk_chain.simps) (auto simp: Let_def split: option.splits if_splits)
    note uv = checked_add_SomeD(1) [OF v]
    have oc: "on_chain P ck (?s1\<lparr> receiving_chain_length := v \<rparr>)"
      using uv by (simp add: on_chain_def store_skipped_def)
    from 3 have ne: "?l \<le> n" "?l \<noteq> n" by simp_all
    have vn: "v \<le> n" using uv 3 by (simp add: word_le_nat_alt word_less_nat_alt)
    have step: "(if c = dh \<and> v \<le> j \<and> j < n then Some (msg_key_at P ck (unat j))
        else if (c, j) = (dh, ?l) then Some ?k else hm_get (c, j) (skipped_message_keys s)) =
        (if c = dh \<and> ?l \<le> j \<and> j < n then Some (msg_key_at P ck (unat j))
         else hm_get (c, j) (skipped_message_keys s))" for c j
      using uv 3 by (auto simp: word_le_nat_alt word_less_nat_alt word_unat_eq_iff le_Suc_eq)
    note IH = "1.IH" [OF ne(1) kdf refl ne(2) refl v refl lt "1.prems"(1) oc w]
    show ?thesis
    proof (cases r)
      case None
      then show ?thesis using IH vn by (simp add: not_le [symmetric])
    next
      case (Some k)
      with IH have i: "k = msg_key_at P ck (unat n)" "unat (receiving_chain_length s') = Suc (unat n)"
        "on_chain P ck s'"
        "\<And>c j. hm_get (c, j) (skipped_message_keys s') =
          (if c = dh \<and> v \<le> j \<and> j < n then Some (msg_key_at P ck (unat j))
           else if (c, j) = (dh, ?l) then Some ?k else hm_get (c, j) (skipped_message_keys s))"
        "same_but_chain (?s1\<lparr> receiving_chain_length := v \<rparr>) s'"
        by (simp_all add: store_skipped_def hm.get_insert)
      then show ?thesis using Some step ne same_but_chain_upd(2) [OF i(5)] by simp
    qed
  qed
qed


text \<open>Taking the key of one number on the current chain: a kept key first, else a walk; what a failed
  attempt changed is given back, as \<open>decrypt\<close> does with its snapshot.\<close>

definition chain_take :: "primitives \<Rightarrow> draws \<Rightarrow> bytes \<Rightarrow> u32 \<Rightarrow> bytes dr" where
  "chain_take P E dh n s = (case hm_get (dh, n) (skipped_message_keys s) of
     Some k \<Rightarrow> (Inr k, s\<lparr> skipped_message_keys := hm_remove (dh, n) (skipped_message_keys s),
                          skipped_key_timestamps := hm_remove (dh, n) (skipped_key_timestamps s) \<rparr>)
   | None \<Rightarrow> (case walk_chain P E dh n s of
       (Inr (Some k), s') \<Rightarrow> (Inr k, s')
     | (Inr None, s') \<Rightarrow> (Inl (MESSAGE_KEY_CONSUMED n (receiving_chain_length s)), s)
     | (Inl e, s') \<Rightarrow> (Inl e, s)))"

text \<open>The session follows the sender's chain that starts at \<open>ck\<close>: its chain key is the one at its
  length, and every key kept for the chain is the sender's key at that number.\<close>

definition follows :: "primitives \<Rightarrow> bytes \<Rightarrow> bytes \<Rightarrow> dr_session \<Rightarrow> bool" where
  "follows P dh ck s \<longleftrightarrow> hkdf_total P \<and> on_chain P ck s \<and>
    (\<forall>j k. hm_get (dh, j) (skipped_message_keys s) = Some k \<longrightarrow>
       j < receiving_chain_length s \<and> k = msg_key_at P ck (unat j))"

lemma chain_take_walk:
  assumes "follows P dh ck s" "chain_take P E dh n s = (Inr k, s')" "hm_get (dh, n) (skipped_message_keys s) = None"
  shows "walk_chain P E dh n s = (Inr (Some k), s')"
  using assms by (auto simp: chain_take_def split: prod.splits sum.splits option.splits)

lemma chain_take_ok:
  assumes f: "follows P dh ck s" and t: "chain_take P E dh n s = (Inr k, s')"
  shows "follows P dh ck s' \<and> k = msg_key_at P ck (unat n) \<and>
    (receiving_chain_length s \<le> n \<or> hm_get (dh, n) (skipped_message_keys s) \<noteq> None) \<and>
    \<not> (receiving_chain_length s' \<le> n \<or> hm_get (dh, n) (skipped_message_keys s') \<noteq> None) \<and>
    (\<forall>j. j \<noteq> n \<longrightarrow> (receiving_chain_length s' \<le> j \<or> hm_get (dh, j) (skipped_message_keys s') \<noteq> None) =
      (receiving_chain_length s \<le> j \<or> hm_get (dh, j) (skipped_message_keys s) \<noteq> None)) \<and>
    same_but_chain s s'"
proof (cases "hm_get (dh, n) (skipped_message_keys s)")
  case (Some k')
  with t have s': "s' = s\<lparr> skipped_message_keys := hm_remove (dh, n) (skipped_message_keys s),
      skipped_key_timestamps := hm_remove (dh, n) (skipped_key_timestamps s) \<rparr>" and k: "k = k'"
    by (simp_all add: chain_take_def)
  have "n < receiving_chain_length s" "k' = msg_key_at P ck (unat n)"
    using f Some by (auto simp: follows_def)
  moreover have "follows P dh ck s'"
    using f by (auto simp: s' follows_def on_chain_def hm.get_remove split: if_splits)
  moreover have "same_but_chain s s'" by (simp add: s' same_but_chain_def)
  ultimately show ?thesis
    using Some k by (simp add: s' hm.get_remove)
next
  case None
  have tot: "hkdf_total P" and oc: "on_chain P ck s" using f by (simp_all add: follows_def)
  let ?l = "receiving_chain_length s"
  from walk_chain_result [OF tot oc chain_take_walk [OF f t None]]
  have w: "?l \<le> n" "k = msg_key_at P ck (unat n)"
    "unat (receiving_chain_length s') = Suc (unat n)" "on_chain P ck s'" "same_but_chain s s'"
    and g: "\<And>c j. hm_get (c, j) (skipped_message_keys s') =
       (if c = dh \<and> ?l \<le> j \<and> j < n then Some (msg_key_at P ck (unat j))
        else hm_get (c, j) (skipped_message_keys s))"
    by simp_all
  have lt: "j < receiving_chain_length s' \<longleftrightarrow> j \<le> n" for j
    using w(3) by (simp add: word_less_nat_alt word_le_nat_alt less_Suc_eq_le)
  have old: "j \<le> n \<and> k = msg_key_at P ck (unat j)" if "hm_get (dh, j) (skipped_message_keys s) = Some k" for j k
    using f w(1) that unfolding follows_def by (meson less_imp_le order.trans)
  have "follows P dh ck s'"
    unfolding follows_def g lt using w(4) tot old by (auto split: if_splits)
  moreover have "(receiving_chain_length s' \<le> j \<or> hm_get (dh, j) (skipped_message_keys s') \<noteq> None) =
      (?l \<le> j \<or> hm_get (dh, j) (skipped_message_keys s) \<noteq> None)" if "j \<noteq> n" for j
    using that f w(1) lt [of j] unfolding g follows_def not_less [symmetric] by auto
  ultimately show ?thesis
    using w None lt [of n] by (auto simp: g not_le)
qed

lemma chain_take_err: "chain_take P E dh n s = (Inl e, s') \<Longrightarrow> s' = s"
  by (auto simp: chain_take_def split: option.splits prod.splits sum.splits)

interpretation dr_window: key_window receiving_chain_length
  "\<lambda>s j. hm_get (dh, j) (skipped_message_keys s)" "\<lambda>j. msg_key_at P ck (unat j)"
  "chain_take P E dh" "follows P dh ck" for P E dh ck
proof
  show "follows P dh ck s \<Longrightarrow> chain_take P E dh i s = (Inr k, s') \<Longrightarrow>
      follows P dh ck s' \<and> k = msg_key_at P ck (unat i) \<and>
      (receiving_chain_length s \<le> i \<or> hm_get (dh, i) (skipped_message_keys s) \<noteq> None) \<and>
      \<not> (receiving_chain_length s' \<le> i \<or> hm_get (dh, i) (skipped_message_keys s') \<noteq> None) \<and>
      (\<forall>j. j \<noteq> i \<longrightarrow> (receiving_chain_length s' \<le> j \<or> hm_get (dh, j) (skipped_message_keys s') \<noteq> None) =
        (receiving_chain_length s \<le> j \<or> hm_get (dh, j) (skipped_message_keys s) \<noteq> None))"
    for i s k s' using chain_take_ok by blast
qed (rule chain_take_err)

lemma walk_chain_complete:
  assumes "hkdf_total P" "on_chain P ck s" "receiving_chain_length s \<le> n" "unat n < 2 ^ 32 - 1"
    and "hm_len (skipped_message_keys s) + (unat n - unat (receiving_chain_length s)) < 1000"
  shows "\<exists>k s'. walk_chain P E dh n s = (Inr (Some k), s')"
  using assms
proof (induction P E dh n s rule: walk_chain.induct)
  case (1 P E dh n s)
  let ?l = "receiving_chain_length s"
  let ?k = "msg_key_at P ck (unat ?l)" and ?nk = "chain_at P ck (Suc (unat ?l))"
  have kdf: "kdf_ck P (receiving_chain_key s) = Inr (?k, ?nk)"
    using "1.prems"(1,2) by (simp add: on_chain_def kdf_ck_chain)
  have "unat ?l < 2 ^ 32 - 1" using "1.prems"(3,4) by (simp add: word_le_nat_alt)
  then obtain v where v: "checked_add ?l 1 = Some v" by (auto simp: checked_add_def)
  note uv = checked_add_SomeD(1) [OF v]
  show ?case
  proof (cases "?l = n")
    case True
    then show ?thesis using kdf v "1.prems"(3) by (subst walk_chain.simps) simp
  next
    case False
    let ?s1 = "(store_skipped E dh ?k ?nk s)\<lparr> receiving_chain_length := v \<rparr>"
    have ln: "unat ?l < unat n" using False "1.prems"(3) by (simp add: word_le_nat_alt word_unat_eq_iff)
    have len: "hm_len (skipped_message_keys ?s1) \<le> Suc (hm_len (skipped_message_keys s))"
      by (simp add: store_skipped_def hm.len_insert)
    have c: "unat (max_skipped_messages global_config) = 1000"
      by (simp add: global_config_def config_default_def)
    have lt: "\<not> unat (max_skipped_messages global_config) \<le> hm_len (skipped_message_keys ?s1)"
      using len ln "1.prems"(5) by (simp add: c)
    have "on_chain P ck ?s1" using uv by (simp add: on_chain_def store_skipped_def)
    moreover have "receiving_chain_length ?s1 \<le> n" using uv ln by (simp add: word_le_nat_alt)
    moreover have "hm_len (skipped_message_keys ?s1) + (unat n - unat (receiving_chain_length ?s1)) < 1000"
      using len uv ln "1.prems"(5) by simp
    ultimately have "\<exists>k s'. walk_chain P E dh n ?s1 = (Inr (Some k), s')"
      using "1.IH" [OF "1.prems"(3) kdf refl False refl v refl lt "1.prems"(1)] "1.prems"(4) by blast
    then show ?thesis
      using kdf v "1.prems"(3) False lt by (subst walk_chain.simps) (simp add: Let_def)
  qed
qed

subsection \<open>The receiving chain of a post-quantum epoch\<close>

primrec pq_at :: "primitives \<Rightarrow> bytes \<Rightarrow> nat \<Rightarrow> bytes" where
  "pq_at P ck 0 = ck"
| "pq_at P ck (Suc n) =
    take 32 (projr (hkdf_derive_key P [] (pq_at P ck n) (ascii ''construct-pqr-step-v2'') 64))"

declare pq_at.simps(2) [simp del]

definition pq_key_at :: "primitives \<Rightarrow> bytes \<Rightarrow> nat \<Rightarrow> bytes" where
  "pq_key_at P ck n =
    drop 32 (projr (hkdf_derive_key P [] (pq_at P ck n) (ascii ''construct-pqr-step-v2'') 64))"

definition on_pq_chain :: "primitives \<Rightarrow> bytes \<Rightarrow> pq_chain \<Rightarrow> bool" where
  "on_pq_chain P ck c \<longleftrightarrow> ch_key c = pq_at P ck (unat (ch_index c))"

lemma pq_chain_step_on:
  assumes "hkdf_total P" "on_pq_chain P ck c"
  shows "pq_chain_step P c = (case checked_add (ch_index c) 1 of
      None \<Rightarrow> Inl PqIndexOverflow
    | Some v \<Rightarrow> Inr (\<lparr> ch_index = v, ch_key = pq_at P ck (Suc (unat (ch_index c))) \<rparr>, ch_index c,
        pq_key_at P ck (unat (ch_index c))))"
proof -
  obtain out where "hkdf_derive_key P [] (ch_key c) (ascii ''construct-pqr-step-v2'') 64 = Inr out"
    by (rule hkdf_derive_key_total [OF assms(1), where len = 64]) auto
  then show ?thesis
    using assms(2)
    by (auto simp: pq_chain_step_def on_pq_chain_def pq_at.simps(2) pq_key_at_def split: option.splits)
qed

lemma pq_receive_loop_result:
  assumes "hkdf_total P" "on_pq_chain P ck c" "ch_index c \<le> n"
    and "pq_receive_loop P t ep n c sk ts = (Inr k, c', sk', ts')"
  shows "k = pq_key_at P ck (unat n) \<and> on_pq_chain P ck c' \<and> unat (ch_index c') = Suc (unat n) \<and>
    (\<forall>e j. hm_get (e, j) sk' = (if e = ep \<and> ch_index c \<le> j \<and> j < n then Some (pq_key_at P ck (unat j))
       else hm_get (e, j) sk))"
  using assms
proof (induction P t ep n c sk ts arbitrary: k c' sk' ts' rule: pq_receive_loop.induct)
  case (1 P t ep n c sk ts)
  let ?l = "ch_index c"
  from "1.prems" obtain v where v: "checked_add ?l 1 = Some v"
    by (subst (asm) pq_receive_loop.simps) (auto simp: pq_chain_step_on split: option.splits)
  note uv = checked_add_SomeD(1) [OF v]
  let ?c1 = "\<lparr> ch_index = v, ch_key = pq_at P ck (Suc (unat ?l)) \<rparr>" and ?k = "pq_key_at P ck (unat ?l)"
  have st: "pq_chain_step P c = Inr (?c1, ?l, ?k)"
    using pq_chain_step_on [OF "1.prems"(1,2)] v by simp
  show ?case
  proof (cases "?l = n")
    case True
    with "1.prems"(4) st have "k = ?k" "c' = ?c1" "sk' = sk"
      by (subst (asm) pq_receive_loop.simps, simp)+
    then show ?thesis using True uv by (auto simp: on_pq_chain_def)
  next
    case False
    with "1.prems"(4) st have lt: "\<not> unat (max_skipped_messages global_config) \<le> hm_len sk"
      and w: "pq_receive_loop P t ep n ?c1 (hm_insert (ep, ?l) ?k sk) (hm_insert (ep, ?l) t ts) =
        (Inr k, c', sk', ts')"
      by (subst (asm) pq_receive_loop.simps, simp split: if_splits)+
    have ln: "unat ?l < unat n" using False "1.prems"(3) by (simp add: word_le_nat_alt word_unat_eq_iff)
    have c1: "on_pq_chain P ck ?c1" "ch_index ?c1 \<le> n"
      using uv ln by (simp_all add: on_pq_chain_def word_le_nat_alt)
    have step: "(if e = ep \<and> v \<le> j \<and> j < n then Some (pq_key_at P ck (unat j))
        else if (e, j) = (ep, ?l) then Some ?k else hm_get (e, j) sk) =
        (if e = ep \<and> ?l \<le> j \<and> j < n then Some (pq_key_at P ck (unat j)) else hm_get (e, j) sk)" for e j
      using uv ln by (auto simp: word_le_nat_alt word_less_nat_alt word_unat_eq_iff le_Suc_eq)
    show ?thesis
      using "1.IH" [OF st refl refl False lt "1.prems"(1) c1 w]
      unfolding pq_chain.select_convs hm.get_insert step .
  qed
qed

lemma find_recv_set:
  assumes "find_recv_chain ep s = Some c"
  shows "find_recv_chain ep (set_recv_chain ep c' s) = Some c'"
proof -
  have "find (\<lambda>c. ec_epoch c = ep) (set_first_recv ep c' cs) =
      map_option (\<lambda>c. c\<lparr> ec_recv := c' \<rparr>) (find (\<lambda>c. ec_epoch c = ep) cs)" for cs
    by (induction cs) auto
  then show ?thesis
    using assms by (auto simp: find_recv_chain_def set_recv_chain_def split: option.splits if_splits)
qed

lemma find_recv_chain_cong:
  "pq_chains s = pq_chains s' \<Longrightarrow> dr_pending_pq_ciphertext s = dr_pending_pq_ciphertext s' \<Longrightarrow>
   find_recv_chain ep s = find_recv_chain ep s'"
  by (simp add: find_recv_chain_def split: option.split)

definition pq_take :: "primitives \<Rightarrow> draws \<Rightarrow> u32 \<Rightarrow> u32 \<Rightarrow> bytes dr" where
  "pq_take P E ep n s = (case pq_receive_key P E ep n s of
     (Inr (Some k), s') \<Rightarrow> (Inr k, s')
   | (Inr None, s') \<Rightarrow> (Inl (PqIndexWithoutEpoch n), s)
   | (Inl e, s') \<Rightarrow> (Inl e, s))"

definition pq_pos :: "u32 \<Rightarrow> dr_session \<Rightarrow> u32" where
  "pq_pos ep s = (case find_recv_chain ep s of Some c \<Rightarrow> ch_index c | None \<Rightarrow> 0)"

definition pq_follows :: "primitives \<Rightarrow> u32 \<Rightarrow> bytes \<Rightarrow> dr_session \<Rightarrow> bool" where
  "pq_follows P ep ck s \<longleftrightarrow> hkdf_total P \<and> is_pq_ratchet (dr_suite_id s) \<and> ep \<noteq> 0 \<and>
    (\<exists>c. find_recv_chain ep s = Some c \<and> on_pq_chain P ck c) \<and>
    (\<forall>j k. hm_get (ep, j) (pq_skipped_keys s) = Some k \<longrightarrow> j < pq_pos ep s \<and> k = pq_key_at P ck (unat j))"

lemma pq_receive_key_ok:
  assumes f: "pq_follows P ep ck s" and t: "pq_receive_key P E ep n s = (Inr (Some k), s')"
  shows "pq_follows P ep ck s' \<and> k = pq_key_at P ck (unat n) \<and>
    (pq_pos ep s \<le> n \<or> hm_get (ep, n) (pq_skipped_keys s) \<noteq> None) \<and>
    \<not> (pq_pos ep s' \<le> n \<or> hm_get (ep, n) (pq_skipped_keys s') \<noteq> None) \<and>
    (\<forall>j. j \<noteq> n \<longrightarrow> (pq_pos ep s' \<le> j \<or> hm_get (ep, j) (pq_skipped_keys s') \<noteq> None) =
      (pq_pos ep s \<le> j \<or> hm_get (ep, j) (pq_skipped_keys s) \<noteq> None))"
proof (cases "hm_get (ep, n) (pq_skipped_keys s)")
  case (Some k')
  with t f have s': "s' = s\<lparr> pq_skipped_keys := hm_remove (ep, n) (pq_skipped_keys s),
      pq_skipped_key_timestamps := hm_remove (ep, n) (pq_skipped_key_timestamps s) \<rparr>" and k: "k = k'"
    by (simp_all add: pq_receive_key_def pq_follows_def)
  have fr: "find_recv_chain ep s' = find_recv_chain ep s" by (rule find_recv_chain_cong) (simp_all add: s')
  then have pos: "pq_pos ep s' = pq_pos ep s" by (simp add: pq_pos_def)
  have "n < pq_pos ep s" "k' = pq_key_at P ck (unat n)" using f Some by (auto simp: pq_follows_def)
  moreover have "pq_follows P ep ck s'"
    using f unfolding pq_follows_def fr pos by (auto simp: s' hm.get_remove split: if_splits)
  ultimately show ?thesis using Some k unfolding pos by (simp add: s' hm.get_remove)
next
  case None
  from f obtain c where c: "find_recv_chain ep s = Some c" "on_pq_chain P ck c" and tot: "hkdf_total P"
    and pq: "is_pq_ratchet (dr_suite_id s)" "ep \<noteq> 0"
    by (auto simp: pq_follows_def)
  have pos: "pq_pos ep s = ch_index c" by (simp add: pq_pos_def c)
  from t None c pq have le: "ch_index c \<le> n"
    by (auto simp: pq_receive_key_def split: if_splits)
  obtain r c' sk ts where l: "pq_receive_loop P (now E) ep n c (pq_skipped_keys s)
      (pq_skipped_key_timestamps s) = (r, c', sk, ts)" by (metis prod_cases4)
  from t None c pq le l have rk: "r = Inr k" and s': "s' = (set_recv_chain ep c' s)\<lparr> pq_skipped_keys := sk,
      pq_skipped_key_timestamps := ts \<rparr>"
    by (auto simp: pq_receive_key_def result_iffs split: if_splits)
  from pq_receive_loop_result [OF tot c(2) le l [unfolded rk]]
  have w: "k = pq_key_at P ck (unat n)" "on_pq_chain P ck c'" "unat (ch_index c') = Suc (unat n)"
    and g: "\<And>e j. hm_get (e, j) sk = (if e = ep \<and> ch_index c \<le> j \<and> j < n
       then Some (pq_key_at P ck (unat j)) else hm_get (e, j) (pq_skipped_keys s))"
    by simp_all
  have fr: "find_recv_chain ep s' = Some c'"
    using find_recv_set [OF c(1), of c'] unfolding s'
    by (subst find_recv_chain_cong [of _ "set_recv_chain ep c' s"]) simp_all
  have pos': "pq_pos ep s' = ch_index c'" by (simp add: pq_pos_def fr)
  have lt: "j < ch_index c' \<longleftrightarrow> j \<le> n" for j
    using w(3) by (simp add: word_less_nat_alt word_le_nat_alt less_Suc_eq_le)
  have sk: "pq_skipped_keys s' = sk" "dr_suite_id s' = dr_suite_id s"
    by (simp_all add: s' set_recv_chain_def split: option.splits)
  have old: "j < ch_index c \<and> j \<le> n \<and> k = pq_key_at P ck (unat j)"
    if "hm_get (ep, j) (pq_skipped_keys s) = Some k" for j k
    using f le that pos unfolding pq_follows_def by (metis less_imp_le order.trans)
  have "pq_follows P ep ck s'"
    unfolding pq_follows_def fr pos' sk g lt using w(2) tot pq old by (auto split: if_splits)
  moreover have "(pq_pos ep s' \<le> j \<or> hm_get (ep, j) sk \<noteq> None) =
      (pq_pos ep s \<le> j \<or> hm_get (ep, j) (pq_skipped_keys s) \<noteq> None)" if "j \<noteq> n" for j
    using that le lt [of j] old unfolding g pos pos' not_less [symmetric] by auto
  ultimately show ?thesis
    using w le None lt [of n] unfolding sk pos pos' by (auto simp: g not_le)
qed

interpretation pq_window: key_window "pq_pos ep" "\<lambda>s j. hm_get (ep, j) (pq_skipped_keys s)"
  "\<lambda>j. pq_key_at P ck (unat j)" "pq_take P E ep" "pq_follows P ep ck" for P E ep ck
proof
  show "pq_follows P ep ck s \<Longrightarrow> pq_take P E ep i s = (Inr k, s') \<Longrightarrow>
      pq_follows P ep ck s' \<and> k = pq_key_at P ck (unat i) \<and>
      (pq_pos ep s \<le> i \<or> hm_get (ep, i) (pq_skipped_keys s) \<noteq> None) \<and>
      \<not> (pq_pos ep s' \<le> i \<or> hm_get (ep, i) (pq_skipped_keys s') \<noteq> None) \<and>
      (\<forall>j. j \<noteq> i \<longrightarrow> (pq_pos ep s' \<le> j \<or> hm_get (ep, j) (pq_skipped_keys s') \<noteq> None) =
        (pq_pos ep s \<le> j \<or> hm_get (ep, j) (pq_skipped_keys s) \<noteq> None))"
    for i s k s'
    using pq_receive_key_ok
    by (auto simp: pq_take_def split: prod.splits sum.splits option.splits)
qed (auto simp: pq_take_def split: prod.splits sum.splits option.splits)

lemma pq_receive_loop_complete:
  assumes "hkdf_total P" "on_pq_chain P ck c" "ch_index c \<le> n" "unat n < 2 ^ 32 - 1"
    and "hm_len sk + (unat n - unat (ch_index c)) \<le> 1000"
  shows "\<exists>k r. pq_receive_loop P t ep n c sk ts = (Inr k, r)"
  using assms
proof (induction P t ep n c sk ts rule: pq_receive_loop.induct)
  case (1 P t ep n c sk ts)
  let ?l = "ch_index c"
  have "unat ?l < 2 ^ 32 - 1" using "1.prems"(3,4) by (simp add: word_le_nat_alt)
  then obtain v where v: "checked_add ?l 1 = Some v" by (auto simp: checked_add_def)
  note uv = checked_add_SomeD(1) [OF v]
  let ?c1 = "\<lparr> ch_index = v, ch_key = pq_at P ck (Suc (unat ?l)) \<rparr>" and ?k = "pq_key_at P ck (unat ?l)"
  have st: "pq_chain_step P c = Inr (?c1, ?l, ?k)"
    using pq_chain_step_on [OF "1.prems"(1,2)] v by simp
  show ?case
  proof (cases "?l = n")
    case True
    then show ?thesis using st by (subst pq_receive_loop.simps) simp
  next
    case False
    have ln: "unat ?l < unat n" using False "1.prems"(3) by (simp add: word_le_nat_alt word_unat_eq_iff)
    have c: "unat (max_skipped_messages global_config) = 1000"
      by (simp add: global_config_def config_default_def)
    have lt: "\<not> unat (max_skipped_messages global_config) \<le> hm_len sk"
      using ln "1.prems"(5) by (simp add: c)
    have "on_pq_chain P ck ?c1" "ch_index ?c1 \<le> n"
      using uv ln by (simp_all add: on_pq_chain_def word_le_nat_alt)
    moreover have "hm_len (hm_insert (ep, ?l) ?k sk) + (unat n - unat (ch_index ?c1)) \<le> 1000"
      using hm.len_insert [of "(ep, ?l)" ?k sk] uv ln "1.prems"(5) by (auto split: if_splits)
    ultimately have "\<exists>k r. pq_receive_loop P t ep n ?c1 (hm_insert (ep, ?l) ?k sk)
        (hm_insert (ep, ?l) t ts) = (Inr k, r)"
      using "1.IH" [OF st refl refl False lt "1.prems"(1)] "1.prems"(4) by blast
    then show ?thesis using st False lt by (subst pq_receive_loop.simps) simp
  qed
qed

lemma pq_receive_key_complete:
  assumes f: "pq_follows P ep ck s" and n: "unat n < 2 ^ 32 - 1"
    and a: "pq_pos ep s \<le> n \<or> hm_get (ep, n) (pq_skipped_keys s) \<noteq> None"
    and b: "hm_len (pq_skipped_keys s) + (unat n - unat (pq_pos ep s)) \<le> 1000"
  shows "\<exists>s'. pq_receive_key P E ep n s = (Inr (Some (pq_key_at P ck (unat n))), s')"
proof -
  from f obtain c where c: "find_recv_chain ep s = Some c" "on_pq_chain P ck c" and tot: "hkdf_total P"
    and pq: "is_pq_ratchet (dr_suite_id s)" "ep \<noteq> 0"
    by (auto simp: pq_follows_def)
  have pos: "pq_pos ep s = ch_index c" by (simp add: pq_pos_def c)
  have "\<exists>k s'. pq_receive_key P E ep n s = (Inr (Some k), s')"
  proof (cases "hm_get (ep, n) (pq_skipped_keys s)")
    case None
    with a pos have le: "ch_index c \<le> n" by simp
    have j: "\<not> sat_add (ch_index c) (max_message_jump global_config) < n"
      using b le unat_less_power [of n] unfolding pos
      by (simp add: word_less_nat_alt word_le_nat_alt unat_sat_add global_config_def config_default_def)
    obtain k r where "pq_receive_loop P (now E) ep n c (pq_skipped_keys s)
        (pq_skipped_key_timestamps s) = (Inr k, r)"
      using pq_receive_loop_complete [OF tot c(2) le n] b pos by metis
    with None c pq le j show ?thesis
      by (cases r) (auto simp: pq_receive_key_def)
  qed (use pq in \<open>simp add: pq_receive_key_def\<close>)
  then show ?thesis using pq_receive_key_ok [OF f] by metis
qed

end
