(* ===== verification/Sample_Primitives.thy ===== *)
theory Sample_Primitives
  imports Crypto_Provider
begin

text \<open>
  Concrete primitives and draws, executable, that satisfy every law the development assumes of the
  third-party code.  They carry no security; they show that the hypotheses on the primitives can hold
  together, and the concrete instances of the properties are computed on them.
\<close>

definition sample_primitives :: primitives where
  "sample_primitives =
    \<lparr> hkdf_sha256 = (\<lambda>salt ikm info len.
        if len \<le> 255 * 32
        then Some (map (\<lambda>i. of_nat i + sum_list salt + 3 * sum_list ikm + 5 * sum_list info) [0..<len])
        else None),
      chacha_seal = (\<lambda>k n pt ad. Some (k @ n @ ad @ pt)),
      chacha_open = (\<lambda>k n ct ad.
        if take (length (k @ n @ ad)) ct = k @ n @ ad then Some (drop (length (k @ n @ ad)) ct) else None),
      x25519_base = (\<lambda>a. take 32 (a @ replicate 32 0)),
      x25519 = (\<lambda>a b. map2 (+) a b),
      sha256 = (\<lambda>m. replicate 32 (sum_list m)),
      hmac_sha256 = (\<lambda>k m. replicate 32 (sum_list k + sum_list m)),
      mlkem768_dec = (\<lambda>sk ct. Some (take 32 ct)),
      mlkem1024_ek = (\<lambda>seed. replicate 1568 (sum_list seed)),
      mlkem1024_dec = (\<lambda>seed ct. Some (take 32 ct)),
      ed25519_vk = (\<lambda>seed. take 32 (seed @ replicate 32 0)),
      ed25519_vk_ok = (\<lambda>vk. True),
      ed25519_sig = (\<lambda>seed m. replicate 64 (sum_list seed + sum_list m)),
      ed25519_check = (\<lambda>vk m s. s = replicate 64 (sum_list vk + sum_list m)),
      mldsa65_vk = (\<lambda>seed. replicate 1952 (sum_list seed)),
      mldsa65_sig = (\<lambda>seed m. Some (replicate 3309 (sum_list seed + sum_list m))),
      mldsa65_sig_ok = (\<lambda>s. True),
      mldsa65_check = (\<lambda>vk m s. s = replicate 3309 (hd vk + sum_list m)) \<rparr>"

definition sample_draws :: draws where
  "sample_draws =
    \<lparr> now = 1000, drawn_x25519 = replicate 32 9, drawn_nonce = (\<lambda>n. replicate n 4),
      drawn_mlkem768 = (replicate 1184 1, replicate 2400 2),
      drawn_encapsulation = (\<lambda>pk. Some (replicate 1088 3, replicate 32 3)),
      drawn_mlkem1024_seed = replicate 64 5,
      drawn_encapsulation1024 = (\<lambda>pk. Some (replicate 1568 6, replicate 32 6)),
      drawn_ed25519 = replicate 32 10, drawn_hybrid_seeds = replicate 64 11 \<rparr>"

lemma sample_hkdf_total: "hkdf_total sample_primitives"
  by (simp add: hkdf_total_def sample_primitives_def)

lemma sample_aead_correct: "aead_correct sample_primitives"
  by (auto simp: aead_correct_def sample_primitives_def)

lemma sample_aead_tagged: "aead_tagged sample_primitives"
  by (auto simp: aead_tagged_def sample_primitives_def)

lemma sample_hashes_sized: "hashes_sized sample_primitives"
  by (simp add: hashes_sized_def sample_primitives_def)

lemma sample_dh_commutes: "dh_commutes sample_primitives"
proof -
  have "map2 (+) a b = map2 (+) b a" for a b :: bytes
    by (rule nth_equalityI) (auto simp: add.commute)
  then show ?thesis by (auto simp: dh_commutes_def sample_primitives_def min_def)
qed

lemma sample_ed25519_correct: "ed25519_correct sample_primitives"
  by (simp add: ed25519_correct_def sample_primitives_def)

lemma sample_mldsa65_correct: "mldsa65_correct sample_primitives"
  by (simp add: mldsa65_correct_def sample_primitives_def)

lemma sample_mlkem1024_correct: "mlkem1024_correct sample_primitives sample_draws"
  by (auto simp: mlkem1024_correct_def sample_primitives_def sample_draws_def)

end
