(* ===== verification/Ratchet_Delivery.thy ===== *)
theory Ratchet_Delivery
  imports Ratchet_Atomic Ratchet_Chain Sample_Primitives
begin

text \<open>
  What one side encrypts the other decrypts.  The section on sending shows what a successful
  \<open>encrypt\<close> made; the section on opening shows that a receiver on the same chain derives the same
  message key and opens the box; from these follow delivery exactly once, delivery of a whole batch in
  any order, and delivery of a message whose key was kept across later DH steps.
\<close>

text \<open>What a send leaves alone besides its own chain: everything but the exchange in flight and the
  post-quantum send chain.\<close>

definition same_but_pq :: "dr_session \<Rightarrow> dr_session \<Rightarrow> bool" where
  "same_but_pq s s' \<longleftrightarrow>
    dr_suite_id s' = dr_suite_id s \<and> root_key s' = root_key s \<and>
    sending_chain_key s' = sending_chain_key s \<and> sending_chain_length s' = sending_chain_length s \<and>
    receiving_chain_key s' = receiving_chain_key s \<and>
    receiving_chain_length s' = receiving_chain_length s \<and>
    dh_ratchet_private s' = dh_ratchet_private s \<and> dh_ratchet_public s' = dh_ratchet_public s \<and>
    remote_dh_public s' = remote_dh_public s \<and>
    previous_sending_length s' = previous_sending_length s \<and>
    skipped_message_keys s' = skipped_message_keys s \<and>
    skipped_key_timestamps s' = skipped_key_timestamps s \<and>
    dr_prekey_header s' = dr_prekey_header s \<and> is_pq_initiator s' = is_pq_initiator s \<and>
    current_pq_epoch s' = current_pq_epoch s \<and> pq_skipped_keys s' = pq_skipped_keys s \<and>
    dr_pending_pq_ciphertext s' = dr_pending_pq_ciphertext s \<and>
    session_id s' = session_id s \<and> contact_id s' = contact_id s \<and> local_user_id s' = local_user_id s \<and>
    peer_ad_version s' = peer_ad_version s \<and> dr_identity_proof s' = dr_identity_proof s"

lemma maybe_start_frame:
  assumes "maybe_start_pq_exchange_by_age E s = (r, s')"
  shows "same_but_pq s s'" "pq_chains s' = pq_chains s"
  using assms
  by (auto simp: maybe_start_pq_exchange_by_age_def start_pq_exchange_def mlkem768_keygen_def
      abandon_unanswered_pq_exchange_def Let_def same_but_pq_def split: if_splits prod.splits)

lemma pq_send_frame:
  assumes "pq_send_key P s = (r, s')"
  shows "same_but_pq s s'"
  using assms
  by (cases "step_send_chain P (current_pq_epoch s) (pq_chains s)")
    (auto simp: pq_send_key_def Let_def same_but_pq_def split: if_splits prod.splits)

lemma same_but_pq_trans: "same_but_pq s s1 \<Longrightarrow> same_but_pq s1 s2 \<Longrightarrow> same_but_pq s s2"
  by (simp add: same_but_pq_def)

text \<open>The message a send makes, with the associated data its box was sealed with.\<close>

definition sealed_header :: "encrypted_ratchet_message \<Rightarrow> dr_session \<Rightarrow> bool" where
  "sealed_header m s \<longleftrightarrow>
    em_dh_public_key m = dh_ratchet_public s \<and> em_message_number m = sending_chain_length s \<and>
    em_previous_chain_length m = previous_sending_length s \<and>
    em_suite_id m = as_u16 (dr_suite_id s) \<and> em_ad_version m = ad_send_version s"

lemma encrypt_okE:
  assumes "encrypt P E pt s = (Inr m, s')"
  obtains padded s2 ep ix pk mk nk key nn sidb where
    "pad_message_default pt = Inr padded" "same_but_pq s s2"
    "\<exists>s1. maybe_start_pq_exchange_by_age E s = (Inr (), s1) \<and> pq_send_key P s1 = (Inr (ep, ix, pk), s2)"
    "kdf_ck P (sending_chain_key s) = Inr (mk, nk)" "mix_pq_message_key P mk pk = Inr key"
    "checked_add (sending_chain_length s) 1 = Some nn"
    "s' = s2\<lparr> sending_chain_key := nk, sending_chain_length := nn \<rparr>"
    "length (dh_ratchet_public s) = 32" "hex_decode (session_id s) = Some sidb"
    "sealed_header m s" "em_pq_message_epoch m = ep" "em_pq_key_index m = ix"
    "aead_encrypt P key (em_nonce m) padded (Some (associated_data (em_ad_version m) (local_user_id s)
       (contact_id s) sidb (is_pq_ratchet (dr_suite_id s)) (ad_header_of m))) = Inr (em_ciphertext m)"
proof -
  from assms obtain padded s1 ep ix pk s2 where
    1: "pad_message_default pt = Inr padded" "maybe_start_pq_exchange_by_age E s = (Inr (), s1)"
    "pq_send_key P s1 = (Inr (ep, ix, pk), s2)"
    by (auto simp: encrypt_def st_bind_Inr_iff)
  have fr: "same_but_pq s s2"
    using maybe_start_frame(1) [OF 1(2)] pq_send_frame [OF 1(3)] by (rule same_but_pq_trans)
  from assms 1 obtain mk nk key nn sidb where
    2: "kdf_ck P (sending_chain_key s2) = Inr (mk, nk)" "mix_pq_message_key P mk pk = Inr key"
    "checked_add (sending_chain_length s2) 1 = Some nn"
    "length (dh_ratchet_public s2) = 32" "hex_decode (session_id s2) = Some sidb"
    by (auto simp: encrypt_def st_bind_Inr_iff generate_nonce_def Let_def split: if_splits)
  have 3: "s' = s2\<lparr> sending_chain_key := nk, sending_chain_length := nn \<rparr> \<and> sealed_header m s2 \<and>
    em_pq_message_epoch m = ep \<and> em_pq_key_index m = ix \<and>
    aead_encrypt P key (em_nonce m) padded (Some (associated_data (em_ad_version m) (local_user_id s2)
       (contact_id s2) sidb (is_pq_ratchet (dr_suite_id s2)) (ad_header_of m))) = Inr (em_ciphertext m)"
    using assms 1 2
    by (auto simp: encrypt_def st_bind_Inr_iff generate_nonce_def Let_def sealed_header_def
        ad_header_of_def ad_send_version_def)
  have h: "sealed_header m s2 = sealed_header m s"
    using fr by (simp add: same_but_pq_def sealed_header_def ad_send_version_def)
  show thesis
    using that [OF 1(1) fr _ _ 2(2) _ _ _ _ h [THEN iffD1]] 1 2 3 fr
    by (simp add: same_but_pq_def)
qed


lemma encrypt_lockstep:
  assumes "encrypt P E pt s = (r, s')"
  shows "(sending_chain_key s' = sending_chain_key s \<and> sending_chain_length s' = sending_chain_length s \<and>
      (\<exists>e. r = Inl e)) \<or>
    (\<exists>mk. kdf_ck P (sending_chain_key s) = Inr (mk, sending_chain_key s') \<and>
      checked_add (sending_chain_length s) 1 = Some (sending_chain_length s'))"
proof (cases r)
  case (Inr m)
  with assms have "encrypt P E pt s = (Inr m, s')" by simp
  then show ?thesis by (rule encrypt_okE) (auto simp: same_but_pq_def)
next
  case (Inl e)
  obtain r1 s1 where 1: "maybe_start_pq_exchange_by_age E s = (r1, s1)" by fastforce
  obtain r2 s2 where 2: "pq_send_key P s1 = (r2, s2)" by fastforce
  have f1: "same_but_pq s s1" using maybe_start_frame(1) [OF 1] .
  have f2: "same_but_pq s s2" using f1 pq_send_frame [OF 2] by (rule same_but_pq_trans)
  have rest: "s' = s2 \<or> (\<exists>mk nk nn. kdf_ck P (sending_chain_key s2) = Inr (mk, nk) \<and>
      checked_add (sending_chain_length s2) 1 = Some nn \<and>
      s' = s2\<lparr> sending_chain_key := nk, sending_chain_length := nn \<rparr>)"
    if "pad_message_default pt = Inr p" "r1 = Inr ()" "r2 = Inr (ep, ix, pk)" for p ep ix pk
    using assms Inl 1 2 that
    by (auto simp: encrypt_def st_bind_Inl_iff generate_nonce_def Let_def result_iffs split: if_splits)
  show ?thesis
  proof (cases "pad_message_default pt")
    case (Inl pe)
    then show ?thesis using assms \<open>r = Inl e\<close> by (auto simp: encrypt_def)
  next
    case pad: (Inr p)
    show ?thesis
    proof (cases r1)
      case (Inl e1)
      then have "s' = s1" using assms 1 pad by (simp add: encrypt_def)
      then show ?thesis using f1 \<open>r = Inl e\<close> by (simp add: same_but_pq_def)
    next
      case r1: (Inr u)
      show ?thesis
      proof (cases r2)
        case (Inl e2)
        then have "s' = s2" using assms 1 2 pad r1 by (simp add: encrypt_def)
        then show ?thesis using f2 \<open>r = Inl e\<close> by (simp add: same_but_pq_def)
      next
        case r2: (Inr x)
        obtain ep ix pk where "x = (ep, ix, pk)" by (cases x)
        with rest [OF pad] r1 r2 f2 \<open>r = Inl e\<close> show ?thesis by (auto simp: same_but_pq_def)
      qed
    qed
  qed
qed

lemma periodic_cleanup_frame [simp]:
  "dr_suite_id (periodic_cleanup E s) = dr_suite_id s"
  "receiving_chain_key (periodic_cleanup E s) = receiving_chain_key s"
  "receiving_chain_length (periodic_cleanup E s) = receiving_chain_length s"
  "remote_dh_public (periodic_cleanup E s) = remote_dh_public s"
  "session_id (periodic_cleanup E s) = session_id s"
  "contact_id (periodic_cleanup E s) = contact_id s"
  "local_user_id (periodic_cleanup E s) = local_user_id s"
  "peer_ad_version (periodic_cleanup E s) = peer_ad_version s"
  "pq_chains (periodic_cleanup E s) = pq_chains s"
  "root_key (periodic_cleanup E s) = root_key s"
  "dh_ratchet_private (periodic_cleanup E s) = dh_ratchet_private s"
  "dr_identity_proof (periodic_cleanup E s) = dr_identity_proof s"
  "dr_pending_pq_ciphertext (periodic_cleanup E s) = dr_pending_pq_ciphertext s"
  by (simp_all add: periodic_cleanup_def cleanup_old_skipped_keys_def Let_def)

lemma periodic_cleanup_follows: "follows P dh ck s \<Longrightarrow> follows P dh ck (periodic_cleanup E s)"
  by (auto simp: follows_def on_chain_def periodic_cleanup_def cleanup_old_skipped_keys_def Let_def
      hm_get_fold_remove split: if_splits)

definition paired :: "dr_session \<Rightarrow> dr_session \<Rightarrow> bool" where
  "paired a b \<longleftrightarrow> session_id b = session_id a \<and> contact_id b = local_user_id a \<and>
    local_user_id b = contact_id a \<and> dr_suite_id b = dr_suite_id a"

text \<open>The AD version of a message is one the receiver still reads.\<close>

definition version_read :: "encrypted_ratchet_message \<Rightarrow> dr_session \<Rightarrow> bool" where
  "version_read m b \<longleftrightarrow> em_ad_version m = AD_VERSION_HEADER \<or>
    (em_ad_version m = AD_VERSION_LEGACY \<and> peer_ad_version b < AD_VERSION_HEADER)"

lemma open_sealed:
  assumes "aead_correct P" "paired a b" "version_read m b" "hex_decode (session_id a) = Some sidb"
    and "pad_message_default pt = Inr padded"
    and "aead_encrypt P key (em_nonce m) padded (Some (associated_data (em_ad_version m) (local_user_id a)
       (contact_id a) sidb (is_pq_ratchet (dr_suite_id a)) (ad_header_of m))) = Inr (em_ciphertext m)"
  shows "try_aead_decrypt P key m b = Inr pt"
proof -
  have "res_bind (if em_ad_version m = AD_VERSION_HEADER then Inr ()
      else if em_ad_version m = AD_VERSION_LEGACY \<and> peer_ad_version b < AD_VERSION_HEADER then Inr ()
      else if em_ad_version m = AD_VERSION_LEGACY then Inl (AdDowngrade (peer_ad_version b))
      else Inl (UnknownAdVersion (em_ad_version m))) f = f ()" for f :: "unit \<Rightarrow> dr_error + bytes"
    using assms(3) by (auto simp: version_read_def)
  then show ?thesis
    using assms(2,4) aead_decrypt_encrypt [OF assms(1,6)] pad_default_unpad [OF assms(5)]
    by (simp add: try_aead_decrypt_def paired_def Let_def)
qed

lemma decrypt_same_chain:
  assumes "remote_dh_public b = Some (em_dh_public_key m)"
    and "chain_take P E (em_dh_public_key m) (em_message_number m) (periodic_cleanup E b) = (Inr k, b2)"
    and "\<not> sat_add (receiving_chain_length b) (max_message_jump global_config) < em_message_number m"
    and "decrypt_with_key P E k m b2 = (Inr pt, b3)"
  shows "decrypt P E m b = (Inr pt, (commit_pq_post_decrypt P E m b3)\<lparr> dr_prekey_header := None \<rparr>)"
proof -
  let ?b = "periodic_cleanup E b" and ?slot = "(em_dh_public_key m, em_message_number m)"
  have nd: "\<not> needs_dh_step m ?b" using assms(1) by (simp add: needs_dh_step_def)
  have "decrypt_message P E m None b = (Inr pt, commit_pq_post_decrypt P E m b3)"
  proof (cases "hm_get ?slot (skipped_message_keys ?b)")
    case (Some k')
    then show ?thesis
      using assms(2,4)
      by (auto simp: decrypt_message_def decrypt_skipped_def chain_take_def Let_def st_bind_Inr_iff)
  next
    case None
    with assms(2) have "walk_chain P E (em_dh_public_key m) (em_message_number m) ?b = (Inr (Some k), b2)"
      by (auto simp: chain_take_def split: prod.splits sum.splits option.splits)
    moreover have "check_jump m ?b = Inr ()" using nd assms(3) by (simp add: check_jump_def Let_def)
    ultimately show ?thesis
      using None nd assms(4)
      by (simp add: decrypt_message_def decrypt_on_chain_def st_bind_Inr_iff)
  qed
  then show ?thesis by (simp add: decrypt_def decrypt_with_identity_secret_def)
qed

text \<open>What reading a message leaves alone once its key is taken.\<close>

definition same_dr :: "dr_session \<Rightarrow> dr_session \<Rightarrow> bool" where
  "same_dr s s' \<longleftrightarrow>
    dr_suite_id s' = dr_suite_id s \<and> root_key s' = root_key s \<and>
    sending_chain_key s' = sending_chain_key s \<and> sending_chain_length s' = sending_chain_length s \<and>
    receiving_chain_key s' = receiving_chain_key s \<and>
    receiving_chain_length s' = receiving_chain_length s \<and>
    dh_ratchet_private s' = dh_ratchet_private s \<and> dh_ratchet_public s' = dh_ratchet_public s \<and>
    remote_dh_public s' = remote_dh_public s \<and>
    previous_sending_length s' = previous_sending_length s \<and>
    skipped_message_keys s' = skipped_message_keys s \<and>
    skipped_key_timestamps s' = skipped_key_timestamps s \<and>
    session_id s' = session_id s \<and> contact_id s' = contact_id s \<and> local_user_id s' = local_user_id s \<and>
    dr_identity_proof s' = dr_identity_proof s"

lemma same_dr_trans: "same_dr s s1 \<Longrightarrow> same_dr s1 s2 \<Longrightarrow> same_dr s s2"
  by (simp add: same_dr_def)

lemma pq_receive_key_same_dr:
  assumes "pq_receive_key P E ep i s = (r, s')"
  shows "same_dr s s' \<and> peer_ad_version s' = peer_ad_version s"
  using assms
  by (auto simp: pq_receive_key_def same_dr_def set_recv_chain_def split: if_splits option.splits prod.splits)

lemma commit_same_dr:
  "same_dr s (commit_pq_post_decrypt P E m s)"
  "peer_ad_version (commit_pq_post_decrypt P E m s) = peer_ad_version s"
proof -
  have p: "same_dr s (promote_pending E m s) \<and> peer_ad_version (promote_pending E m s) = peer_ad_version s" for s
    by (simp add: promote_pending_def same_dr_def insert_pq_epoch_chains_def Let_def split: option.splits)
  have k: "same_dr s (ingest_public_key P E ep key s) \<and>
      peer_ad_version (ingest_public_key P E ep key s) = peer_ad_version s" for ep key s
    by (simp add: ingest_public_key_def same_dr_def Let_def split: option.splits sum.splits prod.splits)
  have c: "same_dr s (ingest_ciphertext P E ep h ct s) \<and>
      peer_ad_version (ingest_ciphertext P E ep h ct s) = peer_ad_version s" for ep h ct s
    by (simp add: ingest_ciphertext_def insert_pq_epoch_chains_def same_dr_def Let_def
        split: option.splits sum.splits prod.splits)
  have "same_dr s (commit_pq_post_decrypt P E m s) \<and>
      peer_ad_version (commit_pq_post_decrypt P E m s) = peer_ad_version s"
  proof (cases "is_pq_ratchet (dr_suite_id s)")
    case True
    let ?s = "promote_pending E m s"
    consider "em_pq_ratchet_field m = None" | ep key where "em_pq_ratchet_field m = Some (PublicKey ep key)"
      | ep h ct where "em_pq_ratchet_field m = Some (Ciphertext ep h ct)"
      by (metis option.exhaust pq_ratchet_wire_field.exhaust)
    then show ?thesis
      using True p [of s] k [of ?s] c [of ?s] same_dr_trans [of s ?s]
      by cases (simp_all add: commit_pq_post_decrypt_def)
  qed (simp add: commit_pq_post_decrypt_def same_dr_def)
  then show "same_dr s (commit_pq_post_decrypt P E m s)"
    "peer_ad_version (commit_pq_post_decrypt P E m s) = peer_ad_version s" by auto
qed

lemma same_dr_follows: "same_dr s s' \<Longrightarrow> follows P dh ck s \<Longrightarrow> follows P dh ck s'"
  by (simp add: same_dr_def follows_def on_chain_def)

text \<open>The receiver can read the post-quantum half of the sender's next key: there is none, or it
  follows the sender's chain for the current epoch and the next index is one it can still take.\<close>

definition pq_readable :: "primitives \<Rightarrow> dr_session \<Rightarrow> dr_session \<Rightarrow> bool" where
  "pq_readable P a b \<longleftrightarrow> is_pq_ratchet (dr_suite_id a) \<longrightarrow> current_pq_epoch a \<noteq> 0 \<longrightarrow>
    (\<exists>c ch ck. find (\<lambda>c. ec_epoch c = current_pq_epoch a) (pq_chains a) = Some c \<and>
      ec_send c = Some ch \<and> on_pq_chain P ck ch \<and> pq_follows P (current_pq_epoch a) ck b \<and>
      (pq_pos (current_pq_epoch a) b \<le> ch_index ch \<or>
       hm_get (current_pq_epoch a, ch_index ch) (pq_skipped_keys b) \<noteq> None) \<and>
      hm_len (pq_skipped_keys b) + (unat (ch_index ch) - unat (pq_pos (current_pq_epoch a) b)) \<le> 1000)"

lemma pq_readable_same_but_chain: "same_but_chain b b' \<Longrightarrow> pq_readable P a b' = pq_readable P a b"
proof -
  assume "same_but_chain b b'"
  then obtain k l sk ts where "b' = b\<lparr> receiving_chain_key := k, receiving_chain_length := l,
      skipped_message_keys := sk, skipped_key_timestamps := ts \<rparr>"
    unfolding same_but_chain_def by blast
  then have "find_recv_chain ep b' = find_recv_chain ep b" "dr_suite_id b' = dr_suite_id b"
    "pq_skipped_keys b' = pq_skipped_keys b" for ep
    by (simp_all add: find_recv_chain_def cong: option.case_cong)
  then show ?thesis by (simp add: pq_readable_def pq_follows_def pq_pos_def)
qed

lemma step_send_chain_find:
  assumes "hkdf_total P" "step_send_chain P ep cs = Inr (cs', i, k)"
    and "find (\<lambda>c. ec_epoch c = ep) cs = Some c" "ec_send c = Some ch" "on_pq_chain P ck ch"
  shows "i = ch_index ch \<and> k = pq_key_at P ck (unat i) \<and> unat i < 2 ^ 32 - 1"
  using assms
proof (induction cs arbitrary: cs')
  case (Cons c0 cs)
  show ?case
  proof (cases "ec_epoch c0 = ep")
    case True
    with Cons.prems have "c0 = c" by simp
    with True Cons.prems show ?thesis
      using pq_chain_step_on [OF Cons.prems(1,5)]
      by (auto simp: result_iffs checked_add_def split: option.splits if_splits)
  next
    case False
    with Cons show ?thesis by (auto simp: result_iffs)
  qed
qed simp

lemma pq_key_agrees:
  assumes "hkdf_total P" "maybe_start_pq_exchange_by_age E a = (Inr (), a1)"
    and "pq_send_key P a1 = (Inr (ep, ix, pk), a2)" "paired a b" "pq_readable P a b"
  shows "\<exists>b'. pq_receive_key P E' (if is_pq_ratchet (dr_suite_id b) then ep else 0)
    (if is_pq_ratchet (dr_suite_id b) then ix else 0) b = (Inr pk, b')"
proof -
  have fr: "dr_suite_id a1 = dr_suite_id a" "current_pq_epoch a1 = current_pq_epoch a" "pq_chains a1 = pq_chains a"
    using maybe_start_frame [OF assms(2)] by (simp_all add: same_but_pq_def)
  show ?thesis
  proof (cases "is_pq_ratchet (dr_suite_id a) \<and> current_pq_epoch a \<noteq> 0")
    case True
    then have ep: "ep = current_pq_epoch a" and "\<exists>k cs. pk = Some k \<and> step_send_chain P ep (pq_chains a) = Inr (cs, ix, k)"
      using assms(3) by (auto simp: pq_send_key_def fr Let_def st_bind_Inr_iff)
    then obtain k cs where k: "pk = Some k" "step_send_chain P ep (pq_chains a) = Inr (cs, ix, k)" by blast
    from assms(5) True obtain c ch ck where
      c: "find (\<lambda>c. ec_epoch c = ep) (pq_chains a) = Some c" "ec_send c = Some ch" "on_pq_chain P ck ch"
      and b: "pq_follows P ep ck b"
        "pq_pos ep b \<le> ch_index ch \<or> hm_get (ep, ch_index ch) (pq_skipped_keys b) \<noteq> None"
        "hm_len (pq_skipped_keys b) + (unat (ch_index ch) - unat (pq_pos ep b)) \<le> 1000"
      unfolding pq_readable_def ep by blast
    have "ix = ch_index ch" "k = pq_key_at P ck (unat ix)" "unat ix < 2 ^ 32 - 1"
      using step_send_chain_find [OF assms(1) k(2) c] by auto
    then show ?thesis
      using pq_receive_key_complete [OF b(1) _ b(2,3)] k(1) True assms(4) by (simp add: paired_def)
  next
    case False
    then have "ep = 0 \<and> ix = 0 \<and> pk = None" using assms(3) by (auto simp: pq_send_key_def fr)
    then show ?thesis by (simp add: pq_receive_key_def)
  qed
qed

lemma decrypt_with_key_opens:
  assumes "hkdf_total P" "aead_correct P" "encrypt P E pt a = (Inr m, a')" "paired a b" "pq_readable P a b"
    and "sending_chain_key a = chain_at P ck (unat (sending_chain_length a))"
    and "AD_VERSION_HEADER \<le> peer_ad_version a \<or> peer_ad_version b < AD_VERSION_HEADER"
  shows "\<exists>b'. decrypt_with_key P E' (msg_key_at P ck (unat (sending_chain_length a))) m b = (Inr pt, b') \<and>
    same_dr b b' \<and> peer_ad_version b' = max (peer_ad_version b) (em_ad_version m)"
  using assms(3)
proof (rule encrypt_okE)
  fix padded a2 ep ix pk mk nk key nn sidb
  assume e: "pad_message_default pt = Inr padded"
    "\<exists>s1. maybe_start_pq_exchange_by_age E a = (Inr (), s1) \<and> pq_send_key P s1 = (Inr (ep, ix, pk), a2)"
    "kdf_ck P (sending_chain_key a) = Inr (mk, nk)" "mix_pq_message_key P mk pk = Inr key"
    "hex_decode (session_id a) = Some sidb" "sealed_header m a"
    "em_pq_message_epoch m = ep" "em_pq_key_index m = ix"
    and s: "aead_encrypt P key (em_nonce m) padded (Some (associated_data (em_ad_version m) (local_user_id a)
       (contact_id a) sidb (is_pq_ratchet (dr_suite_id a)) (ad_header_of m))) = Inr (em_ciphertext m)"
  have mk: "mk = msg_key_at P ck (unat (sending_chain_length a))"
    using e(3) kdf_ck_chain [OF assms(1)] assms(6) by simp
  obtain b1 where b1: "pq_receive_key P E' (if is_pq_ratchet (dr_suite_id b) then ep else 0)
      (if is_pq_ratchet (dr_suite_id b) then ix else 0) b = (Inr pk, b1)"
    using pq_key_agrees [OF assms(1) _ _ assms(4,5)] e(2) by blast
  have f: "same_dr b b1" "peer_ad_version b1 = peer_ad_version b" using pq_receive_key_same_dr [OF b1] by auto
  have "paired a b1" using f(1) assms(4) by (simp add: same_dr_def paired_def)
  moreover have "version_read m b1"
    using e(6) assms(7) f(2)
    by (auto simp: version_read_def sealed_header_def ad_send_version_def AD_SEND_DEFAULT_def)
  ultimately have o: "try_aead_decrypt P key m b1 = Inr pt" using open_sealed [OF assms(2) _ _ e(5,1) s] by blast
  have "decrypt_with_key P E' mk m b =
      (Inr pt, b1\<lparr> peer_ad_version := max (peer_ad_version b1) (em_ad_version m) \<rparr>)"
    using b1 e(4,7,8) o
    by (cases "is_pq_ratchet (dr_suite_id b)") (simp_all add: decrypt_with_key_def st_bind_Inr_iff)
  then show ?thesis using mk f by (simp add: same_dr_def)
qed

definition readable :: "bytes \<Rightarrow> dr_session \<Rightarrow> u32 set" where
  "readable dh s = {n. receiving_chain_length s \<le> n \<or> hm_get (dh, n) (skipped_message_keys s) \<noteq> None}"

text \<open>The number is one the receiver takes: its key is kept, or the walk to it fits in the room
  left for skipped keys.\<close>

definition in_reach :: "bytes \<Rightarrow> u32 \<Rightarrow> dr_session \<Rightarrow> bool" where
  "in_reach dh n s \<longleftrightarrow> hm_get (dh, n) (skipped_message_keys s) \<noteq> None \<or>
    (receiving_chain_length s \<le> n \<and>
     hm_len (skipped_message_keys s) + (unat n - unat (receiving_chain_length s)) < 1000)"

lemma chain_take_complete:
  assumes "follows P dh ck s" "in_reach dh n s" "unat n < 2 ^ 32 - 1"
  shows "\<exists>s'. chain_take P E dh n s = (Inr (msg_key_at P ck (unat n)), s')"
proof -
  have "\<exists>k s'. chain_take P E dh n s = (Inr k, s')"
  proof (cases "hm_get (dh, n) (skipped_message_keys s)")
    case None
    with assms obtain k s' where "walk_chain P E dh n s = (Inr (Some k), s')"
      using walk_chain_complete [of P ck s n E dh] by (auto simp: in_reach_def follows_def)
    with None show ?thesis by (simp add: chain_take_def)
  qed (simp add: chain_take_def)
  then show ?thesis using chain_take_ok [OF assms(1)] by blast
qed

lemma chain_take_frame:
  assumes "follows P dh ck s" "chain_take P E dh n s = (Inr k, s')"
  shows "follows P dh ck s'" "readable dh s' = readable dh s - {n}" "n \<in> readable dh s" "same_but_chain s s'"
  using chain_take_ok [OF assms] by (auto simp: readable_def)

lemma same_but_chainE:
  assumes "same_but_chain s s'"
  shows "dr_suite_id s' = dr_suite_id s" "root_key s' = root_key s" "remote_dh_public s' = remote_dh_public s"
    "sending_chain_key s' = sending_chain_key s" "sending_chain_length s' = sending_chain_length s"
    "dh_ratchet_public s' = dh_ratchet_public s" "dh_ratchet_private s' = dh_ratchet_private s"
    "session_id s' = session_id s" "contact_id s' = contact_id s" "local_user_id s' = local_user_id s"
    "peer_ad_version s' = peer_ad_version s" "dr_identity_proof s' = dr_identity_proof s"
proof -
  obtain k l sk ts where "s' = s\<lparr> receiving_chain_key := k, receiving_chain_length := l,
      skipped_message_keys := sk, skipped_key_timestamps := ts \<rparr>"
    using assms unfolding same_but_chain_def by blast
  then show "dr_suite_id s' = dr_suite_id s" "root_key s' = root_key s" "remote_dh_public s' = remote_dh_public s"
    "sending_chain_key s' = sending_chain_key s" "sending_chain_length s' = sending_chain_length s"
    "dh_ratchet_public s' = dh_ratchet_public s" "dh_ratchet_private s' = dh_ratchet_private s"
    "session_id s' = session_id s" "contact_id s' = contact_id s" "local_user_id s' = local_user_id s"
    "peer_ad_version s' = peer_ad_version s" "dr_identity_proof s' = dr_identity_proof s" by simp_all
qed

text \<open>The sender is at its number on the chain that starts at \<open>ck\<close>, and the receiver is on that
  chain under the sender's ratchet key.\<close>

definition in_step :: "primitives \<Rightarrow> bytes \<Rightarrow> dr_session \<Rightarrow> dr_session \<Rightarrow> bool" where
  "in_step P ck a b \<longleftrightarrow> paired a b \<and> follows P (dh_ratchet_public a) ck b \<and>
    remote_dh_public b = Some (dh_ratchet_public a) \<and>
    sending_chain_key a = chain_at P ck (unat (sending_chain_length a)) \<and>
    (AD_VERSION_HEADER \<le> peer_ad_version a \<or> peer_ad_version b < AD_VERSION_HEADER)"

lemma in_reach_jump:
  assumes "in_reach dh n s" "follows P dh ck s"
  shows "\<not> sat_add (receiving_chain_length s) (max_message_jump global_config) < n"
proof (cases "hm_get (dh, n) (skipped_message_keys s)")
  case None
  with assms(1) unat_less_power [of n] show ?thesis
    by (simp add: in_reach_def word_less_nat_alt word_le_nat_alt unat_sat_add global_config_def config_default_def) linarith
next
  case (Some k)
  with assms(2) have "n < receiving_chain_length s" by (simp add: follows_def)
  then show ?thesis using unat_less_power [of "receiving_chain_length s"]
    by (simp add: word_less_nat_alt unat_sat_add global_config_def config_default_def)
qed

lemma delivery_step:
  assumes "aead_correct P" "in_step P ck a b" "encrypt P E pt a = (Inr m, a')"
    and r: "in_reach (dh_ratchet_public a) (sending_chain_length a) (periodic_cleanup E' b)"
    and pq: "pq_readable P a (periodic_cleanup E' b)"
  shows "\<exists>b1 b'. decrypt P E' m b = (Inr pt, b') \<and>
    chain_take P E' (dh_ratchet_public a) (sending_chain_length a) (periodic_cleanup E' b) = (Inr (msg_key_at P ck (unat (sending_chain_length a))), b1) \<and>
    same_dr b1 b' \<and> peer_ad_version b' = max (peer_ad_version b) (em_ad_version m)"
proof -
  let ?dh = "dh_ratchet_public a" and ?n = "sending_chain_length a" and ?b = "periodic_cleanup E' b"
  have m: "em_dh_public_key m = ?dh" "em_message_number m = ?n" "unat ?n < 2 ^ 32 - 1"
    by (rule encrypt_okE [OF assms(3)], auto simp: sealed_header_def checked_add_def split: if_splits)+
  have f: "follows P ?dh ck ?b" using assms(2) periodic_cleanup_follows by (simp add: in_step_def)
  obtain b1 where b1: "chain_take P E' ?dh ?n ?b = (Inr (msg_key_at P ck (unat ?n)), b1)"
    using chain_take_complete [OF f r m(3)] by blast
  note fr = chain_take_frame [OF f b1]
  have tot: "hkdf_total P" and ck: "sending_chain_key a = chain_at P ck (unat ?n)"
    using assms(2) by (simp_all add: in_step_def follows_def)
  have b1': "paired a b1" "AD_VERSION_HEADER \<le> peer_ad_version a \<or> peer_ad_version b1 < AD_VERSION_HEADER"
    "pq_readable P a b1"
    using same_but_chainE [OF fr(4)] assms(2) pq pq_readable_same_but_chain [OF fr(4)]
    by (simp_all add: in_step_def paired_def)
  obtain b2 where b2: "decrypt_with_key P E' (msg_key_at P ck (unat ?n)) m b1 = (Inr pt, b2)"
    "same_dr b1 b2" "peer_ad_version b2 = max (peer_ad_version b1) (em_ad_version m)"
    using decrypt_with_key_opens [OF tot assms(1,3) b1'(1,3) ck b1'(2)] by blast
  let ?b' = "(commit_pq_post_decrypt P E' m b2)\<lparr> dr_prekey_header := None \<rparr>"
  have "decrypt P E' m b = (Inr pt, ?b')"
    using decrypt_same_chain [of b m P E'] b1 b2(1) m in_reach_jump [OF r f] assms(2) by (simp add: in_step_def)
  moreover have "same_dr b1 ?b'"
    using same_dr_trans [OF b2(2) commit_same_dr(1) [of b2 P E' m]] by (simp add: same_dr_def)
  ultimately show ?thesis
    using b1 b2(3) commit_same_dr(2) [of P E' m b2] same_but_chainE(11) [OF fr(4)] by auto
qed


lemma replay_step:
  assumes "follows P (em_dh_public_key m) ck b" "remote_dh_public b = Some (em_dh_public_key m)"
    and "em_message_number m \<notin> readable (em_dh_public_key m) b"
  shows "decrypt P E m b =
    (Inl (MESSAGE_KEY_CONSUMED (em_message_number m) (receiving_chain_length b)), periodic_cleanup E b)"
proof -
  let ?b = "periodic_cleanup E b" and ?dh = "em_dh_public_key m" and ?n = "em_message_number m"
  have lt: "?n < receiving_chain_length b" and "hm_get (?dh, ?n) (skipped_message_keys b) = None"
    using assms(3) by (auto simp: readable_def)
  then have none: "hm_get (?dh, ?n) (skipped_message_keys ?b) = None"
    by (auto simp: periodic_cleanup_def cleanup_old_skipped_keys_def Let_def hm_get_fold_remove)
  have nd: "\<not> needs_dh_step m ?b" using assms(2) by (simp add: needs_dh_step_def)
  have jump: "check_jump m ?b = Inr ()"
    using nd lt unat_less_power [of "receiving_chain_length b"]
    by (auto simp: check_jump_def Let_def word_less_nat_alt unat_sat_add global_config_def config_default_def)
  have walk: "walk_chain P E ?dh ?n ?b = (Inr None, ?b)"
    using iffD2 [OF not_le lt] by (subst walk_chain.simps) simp
  have "restore_snapshot (take_snapshot ?b) ?b = ?b" using restore_unsnapped [of ?b ?b] by simp
  then show ?thesis
    using none nd jump walk
    by (simp add: decrypt_def decrypt_with_identity_secret_def decrypt_message_def decrypt_on_chain_def
        st_inspect_err_def)
qed

lemma delivered_in_step:
  assumes "in_step P ck a b" "encrypt P E pt a = (Inr m, a')"
    and "chain_take P E' (dh_ratchet_public a) (sending_chain_length a) (periodic_cleanup E' b) = (Inr k, b1)"
    and "same_dr b1 b'"
  shows "follows P (dh_ratchet_public a) ck b'" "remote_dh_public b' = Some (dh_ratchet_public a)" "paired a b'"
    "readable (dh_ratchet_public a) b' =
     readable (dh_ratchet_public a) (periodic_cleanup E' b) - {sending_chain_length a}"
proof -
  have f: "follows P (dh_ratchet_public a) ck (periodic_cleanup E' b)"
    using assms(1) periodic_cleanup_follows by (simp add: in_step_def)
  note fr = chain_take_frame [OF f assms(3)]
  show "follows P (dh_ratchet_public a) ck b'" using same_dr_follows [OF assms(4) fr(1)] .
  show "remote_dh_public b' = Some (dh_ratchet_public a)" "paired a b'"
    using assms(1,4) same_but_chainE [OF fr(4)] by (simp_all add: in_step_def paired_def same_dr_def)
  show "readable (dh_ratchet_public a) b' =
     readable (dh_ratchet_public a) (periodic_cleanup E' b) - {sending_chain_length a}"
    using fr(2) assms(4) by (simp add: readable_def same_dr_def)
qed

text \<open>C4.  Exactly-once.\<close>

theorem message_delivered_once:
  assumes "aead_correct P" "in_step P ck a b" "encrypt P E pt a = (Inr m, a')"
    and "in_reach (dh_ratchet_public a) (sending_chain_length a) (periodic_cleanup E' b)"
    and "pq_readable P a (periodic_cleanup E' b)"
  shows "\<exists>b'. decrypt P E' m b = (Inr pt, b') \<and> follows P (dh_ratchet_public a) ck b' \<and>
    readable (dh_ratchet_public a) b' =
      readable (dh_ratchet_public a) (periodic_cleanup E' b) - {sending_chain_length a} \<and>
    decrypt P E'' m b' = (Inl (MESSAGE_KEY_CONSUMED (sending_chain_length a) (receiving_chain_length b')),
      periodic_cleanup E'' b')"
proof -
  obtain b1 b' where d: "decrypt P E' m b = (Inr pt, b')" "same_dr b1 b'"
    "chain_take P E' (dh_ratchet_public a) (sending_chain_length a) (periodic_cleanup E' b) =
       (Inr (msg_key_at P ck (unat (sending_chain_length a))), b1)"
    using delivery_step [OF assms] by blast
  have m: "em_dh_public_key m = dh_ratchet_public a" "em_message_number m = sending_chain_length a"
    by (rule encrypt_okE [OF assms(3)], simp add: sealed_header_def)+
  note i = delivered_in_step [OF assms(2,3) d(3,2)]
  have "decrypt P E'' m b' = (Inl (MESSAGE_KEY_CONSUMED (sending_chain_length a) (receiving_chain_length b')),
      periodic_cleanup E'' b')"
    using replay_step [of P m ck b' E''] i(1,2,4) m by simp
  with d(1) i(1,4) show ?thesis by blast
qed

lemma decrypt_kept:
  assumes "hm_get (em_dh_public_key m, em_message_number m) (skipped_message_keys (periodic_cleanup E b)) = Some k"
    and "decrypt_with_key P E k m ((periodic_cleanup E b)\<lparr>
        skipped_message_keys := hm_remove (em_dh_public_key m, em_message_number m)
          (skipped_message_keys (periodic_cleanup E b)),
        skipped_key_timestamps := hm_remove (em_dh_public_key m, em_message_number m)
          (skipped_key_timestamps (periodic_cleanup E b)) \<rparr>) = (Inr pt, b3)"
  shows "decrypt P E m b = (Inr pt, (commit_pq_post_decrypt P E m b3)\<lparr> dr_prekey_header := None \<rparr>)"
  using assms
  by (simp add: decrypt_def decrypt_with_identity_secret_def decrypt_message_def decrypt_skipped_def Let_def
      st_bind_Inr_iff)

text \<open>C6.  A message whose key was kept is read however far the receiver has moved on since: no
  assumption is made on the chain or the DH step the receiver is at.  The key is used up, and the
  root, both chains and the DH keys stay as they were.\<close>

theorem late_message_delivered:
  assumes "aead_correct P" "hkdf_total P" "paired a b" "encrypt P E pt a = (Inr m, a')"
    and ck: "sending_chain_key a = chain_at P ck (unat (sending_chain_length a))"
    and v: "AD_VERSION_HEADER \<le> peer_ad_version a \<or> peer_ad_version b < AD_VERSION_HEADER"
    and kept: "hm_get (dh_ratchet_public a, sending_chain_length a) (skipped_message_keys (periodic_cleanup E' b)) =
      Some (msg_key_at P ck (unat (sending_chain_length a)))"
    and pq: "pq_readable P a (periodic_cleanup E' b)"
  shows "\<exists>b'. decrypt P E' m b = (Inr pt, b') \<and>
    skipped_message_keys b' = hm_remove (dh_ratchet_public a, sending_chain_length a)
      (skipped_message_keys (periodic_cleanup E' b)) \<and>
    root_key b' = root_key b \<and> remote_dh_public b' = remote_dh_public b \<and>
    receiving_chain_key b' = receiving_chain_key b \<and> receiving_chain_length b' = receiving_chain_length b \<and>
    sending_chain_key b' = sending_chain_key b \<and> sending_chain_length b' = sending_chain_length b"
proof -
  let ?b = "periodic_cleanup E' b" and ?slot = "(dh_ratchet_public a, sending_chain_length a)"
  let ?b1 = "?b\<lparr> skipped_message_keys := hm_remove ?slot (skipped_message_keys ?b),
      skipped_key_timestamps := hm_remove ?slot (skipped_key_timestamps ?b) \<rparr>"
  have m: "em_dh_public_key m = dh_ratchet_public a" "em_message_number m = sending_chain_length a"
    by (rule encrypt_okE [OF assms(4)], simp add: sealed_header_def)+
  have "same_but_chain ?b ?b1" by (simp add: same_but_chain_def)
  then have "pq_readable P a ?b1" using pq pq_readable_same_but_chain by blast
  moreover have "paired a ?b1" "AD_VERSION_HEADER \<le> peer_ad_version a \<or> peer_ad_version ?b1 < AD_VERSION_HEADER"
    using assms(3) v by (simp_all add: paired_def)
  ultimately obtain b2 where
    b2: "decrypt_with_key P E' (msg_key_at P ck (unat (sending_chain_length a))) m ?b1 = (Inr pt, b2)" "same_dr ?b1 b2"
    using decrypt_with_key_opens [OF assms(2,1,4) _ _ ck] by blast
  have "decrypt P E' m b = (Inr pt, (commit_pq_post_decrypt P E' m b2)\<lparr> dr_prekey_header := None \<rparr>)"
    using decrypt_kept [of m E' b] kept b2(1) m by simp
  then show ?thesis
    using same_dr_trans [OF b2(2) commit_same_dr(1) [of b2 P E' m]]
    by (auto simp: same_dr_def periodic_cleanup_def cleanup_old_skipped_keys_def Let_def)
qed

definition sample_sender :: dr_session where
  "sample_sender = fresh_session sample_draws CLASSIC (replicate 32 1) (replicate 32 5) []
     (replicate 32 7) (replicate 32 7) (replicate 32 8) True (ascii ''0a'') (ascii ''bob'') (ascii ''alice'')"

definition sample_receiver :: dr_session where
  "sample_receiver = fresh_session sample_draws CLASSIC (replicate 32 1) [] (replicate 32 5)
     (replicate 32 8) (replicate 32 8) (replicate 32 7) False (ascii ''0a'') (ascii ''alice'') (ascii ''bob'')"

lemma sample_in_step: "in_step sample_primitives (replicate 32 5) sample_sender sample_receiver"
  by (simp add: in_step_def paired_def follows_def on_chain_def sample_hkdf_total sample_sender_def
      sample_receiver_def fresh_session_def AD_VERSION_LEGACY_def AD_VERSION_HEADER_def hm_get_def)

text \<open>A session before its first post-quantum epoch that can send.\<close>

definition can_send :: "primitives \<Rightarrow> dr_session \<Rightarrow> bool" where
  "can_send P a \<longleftrightarrow> hkdf_total P \<and> (\<forall>k n pt ad. chacha_seal P k n pt ad \<noteq> None) \<and> current_pq_epoch a = 0 \<and>
    length (dh_ratchet_public a) = 32 \<and> hex_decode (session_id a) \<noteq> None"

lemma encrypt_succeeds:
  assumes "can_send P a" "length pt \<le> 65536" "unat (sending_chain_length a) < 2 ^ 32 - 1"
  shows "\<exists>m a'. encrypt P E pt a = (Inr m, a') \<and> can_send P a' \<and>
    unat (sending_chain_length a') = Suc (unat (sending_chain_length a))"
proof -
  obtain p where p: "pad_message_default pt = Inr p"
    using pad_message_ok [of 255 pt] assms(2) by (simp add: pad_message_default_def DEFAULT_BLOCK_SIZE_def)
  have "\<exists>a1. maybe_start_pq_exchange_by_age E a = (Inr (), a1)"
    by (simp add: maybe_start_pq_exchange_by_age_def start_pq_exchange_def mlkem768_keygen_def
        split: prod.split)
  then obtain a1 where a1: "maybe_start_pq_exchange_by_age E a = (Inr (), a1)" by blast
  have f: "same_but_pq a a1" using maybe_start_frame(1) [OF a1] .
  obtain mk nk where k: "kdf_ck P (sending_chain_key a) = Inr (mk, nk)"
    using assms(1) by (auto simp: can_send_def intro: kdf_ck_total)
  obtain nn where nn: "checked_add (sending_chain_length a) 1 = Some nn"
    using assms(3) by (auto simp: checked_add_def)
  have "pq_send_key P a1 = (Inr (0, 0, None), a1)"
    using f assms(1) by (simp add: pq_send_key_def same_but_pq_def can_send_def)
  then have "\<exists>m a'. encrypt P E pt a = (Inr m, a')"
    using p a1 f k nn assms(1)
    by (auto simp: encrypt_def same_but_pq_def mix_pq_message_key_def generate_nonce_def aead_encrypt_def
        can_send_def Let_def st_bind_Inr_iff)
  then obtain m a' where e: "encrypt P E pt a = (Inr m, a')" by blast
  have "can_send P a' \<and> unat (sending_chain_length a') = Suc (unat (sending_chain_length a))"
    by (rule encrypt_okE [OF e])
      (use assms(1) in \<open>auto simp: can_send_def same_but_pq_def dest: checked_add_SomeD(1)\<close>)
  with e show ?thesis by blast
qed

lemma sample_can_send: "can_send sample_primitives sample_sender"
proof -
  have "hex_decode (ascii ''0a'') = Some [10]" by code_simp
  then show ?thesis
    by (simp add: can_send_def sample_hkdf_total sample_sender_def fresh_session_def)
      (simp add: sample_primitives_def)
qed

theorem message_delivered_once_witness:
  "\<exists>m a' b'. encrypt sample_primitives sample_draws [1, 2, 3] sample_sender = (Inr m, a') \<and>
    decrypt sample_primitives sample_draws m sample_receiver = (Inr [1, 2, 3], b') \<and>
    decrypt sample_primitives sample_draws m b' =
      (Inl (MESSAGE_KEY_CONSUMED 0 (receiving_chain_length b')), periodic_cleanup sample_draws b')"
proof -
  have s: "sending_chain_length sample_sender = 0" "dr_suite_id sample_sender = CLASSIC"
    by (simp_all add: sample_sender_def fresh_session_def)
  obtain m a' where e: "encrypt sample_primitives sample_draws [1, 2, 3] sample_sender = (Inr m, a')"
    using encrypt_succeeds [OF sample_can_send, of "[1, 2, 3]" sample_draws] s by auto
  have "in_reach (dh_ratchet_public sample_sender) (sending_chain_length sample_sender)
      (periodic_cleanup sample_draws sample_receiver)"
    by (simp add: in_reach_def s periodic_cleanup_def sample_receiver_def fresh_session_def hm_len_def)
  moreover have "pq_readable sample_primitives sample_sender (periodic_cleanup sample_draws sample_receiver)"
    by (simp add: pq_readable_def s is_pq_ratchet_def CLASSIC_def)
  ultimately show ?thesis
    using message_delivered_once [OF sample_aead_correct sample_in_step e, of sample_draws sample_draws] e s by auto
qed

definition sample_late_receiver :: dr_session where
  "sample_late_receiver = sample_receiver\<lparr> remote_dh_public := Some (replicate 32 6),
     receiving_chain_key := replicate 32 2, receiving_chain_length := 3,
     skipped_message_keys := [((replicate 32 7, 0), msg_key_at sample_primitives (replicate 32 5) 0)],
     skipped_key_timestamps := [((replicate 32 7, 0), 1000)] \<rparr>"

theorem late_message_delivered_witness:
  "\<exists>m a' b'. encrypt sample_primitives sample_draws [1, 2, 3] sample_sender = (Inr m, a') \<and>
    decrypt sample_primitives sample_draws m sample_late_receiver = (Inr [1, 2, 3], b') \<and>
    skipped_message_keys b' = []"
proof -
  have s: "sending_chain_length sample_sender = 0" "dr_suite_id sample_sender = CLASSIC"
    "dh_ratchet_public sample_sender = replicate 32 7"
    "sending_chain_key sample_sender = replicate 32 5"
    by (simp_all add: sample_sender_def fresh_session_def)
  obtain m a' where e: "encrypt sample_primitives sample_draws [1, 2, 3] sample_sender = (Inr m, a')"
    using encrypt_succeeds [OF sample_can_send, of "[1, 2, 3]" sample_draws] s by auto
  have b: "periodic_cleanup sample_draws sample_late_receiver = sample_late_receiver"
    by (simp add: periodic_cleanup_def sample_late_receiver_def)
  have "paired sample_sender sample_late_receiver"
    by (simp add: paired_def sample_sender_def sample_late_receiver_def sample_receiver_def fresh_session_def)
  moreover have "peer_ad_version sample_late_receiver < AD_VERSION_HEADER"
    by (simp add: sample_late_receiver_def sample_receiver_def fresh_session_def AD_VERSION_LEGACY_def
        AD_VERSION_HEADER_def)
  moreover have "pq_readable sample_primitives sample_sender (periodic_cleanup sample_draws sample_late_receiver)"
    by (simp add: pq_readable_def s is_pq_ratchet_def CLASSIC_def)
  moreover have "skipped_message_keys sample_late_receiver =
      [((replicate 32 7, 0), msg_key_at sample_primitives (replicate 32 5) 0)]"
    by (simp add: sample_late_receiver_def)
  ultimately show ?thesis
    using late_message_delivered [OF sample_aead_correct sample_hkdf_total _ e, of sample_late_receiver
        "replicate 32 5" sample_draws] e s b
    by (auto simp: hm_get_def hm_delete_filter)
qed

end
