(* ===== verification/Ratchet_Batch.thy ===== *)
theory Ratchet_Batch
  imports Ratchet_Delivery
begin

text \<open>
  Whole batches: the messages one side sends on a chain are read by the other in any order, each as
  the plaintext that was sent, while the walk stays within the room for skipped keys and the clock
  within the time they are kept.
\<close>

primrec sends :: "primitives \<Rightarrow> (draws \<times> bytes) list \<Rightarrow> dr_session \<Rightarrow> dr_error + encrypted_ratchet_message list" where
  "sends P [] a = Inr []"
| "sends P (x # xs) a = (case encrypt P (fst x) (snd x) a of
     (Inl e, a') \<Rightarrow> Inl e
   | (Inr m, a') \<Rightarrow> res_bind (sends P xs a') (\<lambda>ms. Inr (m # ms)))"

primrec receives :: "primitives \<Rightarrow> (draws \<times> encrypted_ratchet_message) list \<Rightarrow> dr_session \<Rightarrow> (dr_error + bytes) list" where
  "receives P [] b = []"
| "receives P (x # xs) b = (case decrypt P (fst x) (snd x) b of (r, b') \<Rightarrow> r # receives P xs b')"

text \<open>Every key kept has a stamp no older than \<open>lo\<close>.\<close>

definition stamped :: "int \<Rightarrow> dr_session \<Rightarrow> bool" where
  "stamped lo s \<longleftrightarrow> (\<forall>k v. hm_get k (skipped_message_keys s) = Some v \<longrightarrow>
    (\<exists>ts. hm_get k (skipped_key_timestamps s) = Some ts \<and> lo \<le> sint ts))"

definition clock_in :: "int \<Rightarrow> draws \<Rightarrow> bool" where
  "clock_in lo E \<longleftrightarrow> lo \<le> sint (now E) \<and> sint (now E) < lo + max_skipped_message_age_seconds global_config"

lemma cleanup_keeps:
  assumes "stamped lo b" "clock_in lo E"
  shows "skipped_message_keys (periodic_cleanup E b) = skipped_message_keys b"
    "skipped_key_timestamps (periodic_cleanup E b) = skipped_key_timestamps b"
proof -
  have "\<not> expired E (max_skipped_message_age_seconds global_config) (hm_get k (skipped_key_timestamps b))"
    if "k \<in> set (map fst (skipped_message_keys b))" for k
  proof -
    have "hm_get k (skipped_message_keys b) \<noteq> None" using that by (auto simp: hm_get_def map_of_eq_None_iff)
    then obtain ts where "hm_get k (skipped_key_timestamps b) = Some ts" "lo \<le> sint ts"
      using assms(1) unfolding stamped_def by fast
    then show ?thesis using assms(2) by (simp add: expired_def clock_in_def)
  qed
  then have "filter (\<lambda>k. expired E (max_skipped_message_age_seconds global_config) (hm_get k (skipped_key_timestamps b)))
      (map fst (skipped_message_keys b)) = []"
    by (simp add: filter_empty_conv)
  then show "skipped_message_keys (periodic_cleanup E b) = skipped_message_keys b"
    "skipped_key_timestamps (periodic_cleanup E b) = skipped_key_timestamps b"
    by (simp_all add: periodic_cleanup_def cleanup_old_skipped_keys_def Let_def)
qed

lemma walk_chain_stamped:
  assumes "stamped lo s" "clock_in lo E" "walk_chain P E dh n s = (Inr r, s')"
  shows "stamped lo s' \<and> hm_len (skipped_message_keys s') + unat (receiving_chain_length s) \<le>
    hm_len (skipped_message_keys s) + unat (receiving_chain_length s')"
  using assms
proof (induction P E dh n s arbitrary: r s' rule: walk_chain.induct)
  case (1 P E dh n s)
  let ?l = "receiving_chain_length s"
  show ?case
  proof (cases "?l \<le> n")
    case False
    with "1.prems"(3) show ?thesis using "1.prems"(1) by (subst (asm) walk_chain.simps) auto
  next
    case le: True
    show ?thesis
    proof (cases "kdf_ck P (receiving_chain_key s)")
      case (Inl e)
      with le "1.prems"(3) show ?thesis using "1.prems"(1) by (subst (asm) walk_chain.simps) auto
    next
      case (Inr x)
      obtain mk nk where x: "kdf_ck P (receiving_chain_key s) = Inr (mk, nk)" using Inr by (cases x) simp
      let ?s1 = "store_skipped E dh mk nk s"
      have st: "stamped lo (?s1\<lparr> receiving_chain_length := v \<rparr>)"
        "stamped lo ?s1" "stamped lo (s\<lparr> receiving_chain_key := nk, receiving_chain_length := v \<rparr>)"
        "stamped lo (s\<lparr> receiving_chain_key := nk \<rparr>)" for v
        using "1.prems"(1,2) by (simp_all add: stamped_def store_skipped_def clock_in_def hm.get_insert)
      have ln: "hm_len (skipped_message_keys ?s1) \<le> Suc (hm_len (skipped_message_keys s))"
        using hm.len_insert [of "(dh, ?l)" mk "skipped_message_keys s"] by (simp add: store_skipped_def)
      show ?thesis
      proof (cases "checked_add ?l 1")
        case None
        with le x "1.prems"(3) show ?thesis by (subst (asm) walk_chain.simps) (auto split: if_splits)
      next
        case (Some v)
        have uv: "unat v = Suc (unat ?l)" using checked_add_SomeD(1) [OF Some] by simp
        show ?thesis
        proof (cases "?l = n")
          case True
          with x Some le "1.prems"(3) have "s' = s\<lparr> receiving_chain_key := nk, receiving_chain_length := v \<rparr>"
            by (subst (asm) walk_chain.simps) auto
          then show ?thesis using st(3) uv by simp
        next
          case False
          let ?s2 = "?s1\<lparr> receiving_chain_length := v \<rparr>"
          have "walk_chain P E dh n s =
              (if unat (max_skipped_messages global_config) \<le> hm_len (skipped_message_keys ?s2)
               then (Inl TooManySkipped, ?s2) else walk_chain P E dh n ?s2)"
            using False x Some le by (subst walk_chain.simps) simp
          with "1.prems"(3)
          have lim: "\<not> unat (max_skipped_messages global_config) \<le> hm_len (skipped_message_keys ?s2)"
            and w: "walk_chain P E dh n ?s2 = (Inr r, s')"
            by (simp_all split: if_splits)
          have "stamped lo s' \<and> hm_len (skipped_message_keys s') + unat v \<le>
              hm_len (skipped_message_keys ?s2) + unat (receiving_chain_length s')"
            using "1.IH" [OF le x refl False refl Some refl lim st(1) "1.prems"(2) w] by simp
          then show ?thesis using ln uv by simp
        qed
      qed
    qed
  qed
qed


text \<open>The sender \<open>i\<close> messages further on its chain.\<close>

definition sender_at :: "primitives \<Rightarrow> bytes \<Rightarrow> dr_session \<Rightarrow> nat \<Rightarrow> dr_session \<Rightarrow> bool" where
  "sender_at P ck a i ai \<longleftrightarrow>
    unat (sending_chain_length ai) = unat (sending_chain_length a) + i \<and>
    sending_chain_key ai = chain_at P ck (unat (sending_chain_length ai)) \<and>
    dh_ratchet_public ai = dh_ratchet_public a \<and> session_id ai = session_id a \<and>
    contact_id ai = contact_id a \<and> local_user_id ai = local_user_id a \<and>
    dr_suite_id ai = dr_suite_id a \<and> peer_ad_version ai = peer_ad_version a \<and>
    current_pq_epoch ai = current_pq_epoch a"

lemma sends_nth:
  assumes "hkdf_total P" "sends P xs a = Inr ms"
    and "sending_chain_key a = chain_at P ck (unat (sending_chain_length a))"
  shows "length ms = length xs \<and> (\<forall>i < length ms. \<exists>ai ai'.
    encrypt P (fst (xs ! i)) (snd (xs ! i)) ai = (Inr (ms ! i), ai') \<and> sender_at P ck a i ai)"
  using assms(2,3)
proof (induction xs arbitrary: a ms)
  case (Cons x xs)
  from Cons.prems(1) obtain m a' ms' where e: "encrypt P (fst x) (snd x) a = (Inr m, a')"
    "sends P xs a' = Inr ms'" "ms = m # ms'"
    by (auto simp: result_iffs split: prod.splits sum.splits)
  have a': "sender_at P ck a 1 a'"
    by (rule encrypt_okE [OF e(1)])
      (use kdf_ck_chain [OF assms(1)] Cons.prems(2) in
        \<open>auto simp: same_but_pq_def sender_at_def dest: checked_add_SomeD(1)\<close>)
  note IH = Cons.IH [OF e(2)]
  have "\<exists>ai ai'. encrypt P (fst ((x # xs) ! i)) (snd ((x # xs) ! i)) ai = (Inr (ms ! i), ai') \<and>
      sender_at P ck a i ai" if i: "i < length ms" for i
  proof (cases i)
    case 0
    then have "sender_at P ck a i a" using Cons.prems(2) by (simp add: sender_at_def)
    then show ?thesis using e 0 by auto
  next
    case (Suc j)
    with i e(3) IH a' obtain ai ai' where
      "encrypt P (fst (xs ! j)) (snd (xs ! j)) ai = (Inr (ms' ! j), ai')" "sender_at P ck a' j ai"
      by (auto simp: sender_at_def)
    moreover from this(2) a' have "sender_at P ck a i ai" using Suc by (simp add: sender_at_def)
    ultimately show ?thesis using Suc e(3) by auto
  qed
  moreover have "length ms = length (x # xs)" using IH a' e(3) by (simp add: sender_at_def)
  ultimately show ?case by blast
qed simp

text \<open>The receiver while a batch sent from \<open>a\<close> on is being read.\<close>

definition batch_inv :: "primitives \<Rightarrow> bytes \<Rightarrow> int \<Rightarrow> nat \<Rightarrow> dr_session \<Rightarrow> dr_session \<Rightarrow> bool" where
  "batch_inv P ck lo room a b \<longleftrightarrow> in_step P ck a b \<and> stamped lo b \<and>
    hm_len (skipped_message_keys b) + room \<le> 1000 + unat (receiving_chain_length b)"

lemma chain_take_stamped:
  assumes "stamped lo s" "clock_in lo E" "chain_take P E dh n s = (Inr k, s')"
  shows "stamped lo s' \<and> hm_len (skipped_message_keys s') + unat (receiving_chain_length s) \<le>
    hm_len (skipped_message_keys s) + unat (receiving_chain_length s')"
proof (cases "hm_get (dh, n) (skipped_message_keys s)")
  case None
  with assms(3) have "walk_chain P E dh n s = (Inr (Some k), s')"
    by (auto simp: chain_take_def split: prod.splits sum.splits option.splits)
  then show ?thesis using walk_chain_stamped [OF assms(1,2)] by blast
next
  case (Some k')
  with assms(3) have s': "s' = s\<lparr> skipped_message_keys := hm_remove (dh, n) (skipped_message_keys s),
      skipped_key_timestamps := hm_remove (dh, n) (skipped_key_timestamps s) \<rparr>"
    by (simp add: chain_take_def)
  show ?thesis
    using assms(1) hm_len_remove_le [of "(dh, n)" "skipped_message_keys s"]
    by (auto simp: s' stamped_def hm.get_remove)
qed

lemma batch_step:
  assumes "aead_correct P" "batch_inv P ck lo room a b" "clock_in lo E'"
    and "encrypt P E pt ai = (Inr m, ai')" "sender_at P ck a i ai" "current_pq_epoch a = 0"
    and "sending_chain_length ai \<in> readable (dh_ratchet_public a) b" "unat (sending_chain_length ai) < room"
  shows "\<exists>b'. decrypt P E' m b = (Inr pt, b') \<and> batch_inv P ck lo room a b' \<and>
    readable (dh_ratchet_public a) b' = readable (dh_ratchet_public a) b - {sending_chain_length ai}"
proof -
  let ?dh = "dh_ratchet_public a" and ?n = "sending_chain_length ai" and ?b = "periodic_cleanup E' b"
  have st: "stamped lo b" and inb: "in_step P ck a b"
    and room: "hm_len (skipped_message_keys b) + room \<le> 1000 + unat (receiving_chain_length b)"
    using assms(2) by (simp_all add: batch_inv_def)
  note keep = cleanup_keeps [OF st assms(3)]
  have dh: "dh_ratchet_public ai = ?dh" and ins: "in_step P ck ai b"
    using inb assms(5) by (simp_all add: in_step_def paired_def sender_at_def)
  have "in_reach (dh_ratchet_public ai) ?n ?b"
    using assms(7,8) room keep dh by (auto simp: in_reach_def readable_def word_le_nat_alt)
  moreover have "pq_readable P ai ?b" using assms(5,6) by (simp add: pq_readable_def sender_at_def)
  ultimately obtain b1 b' where d: "decrypt P E' m b = (Inr pt, b')" "same_dr b1 b'"
    "chain_take P E' (dh_ratchet_public ai) ?n ?b = (Inr (msg_key_at P ck (unat ?n)), b1)"
    "peer_ad_version b' = max (peer_ad_version b) (em_ad_version m)"
    using delivery_step [OF assms(1) ins assms(4)] by blast
  note i = delivered_in_step [OF ins assms(4) d(3,2)]
  have "stamped lo ?b" using st keep by (simp add: stamped_def)
  note s1 = chain_take_stamped [OF this assms(3) d(3)]
  have v: "AD_VERSION_HEADER \<le> peer_ad_version ai \<or> peer_ad_version b' < AD_VERSION_HEADER"
  proof (rule encrypt_okE [OF assms(4)])
    assume "sealed_header m ai"
    then show ?thesis using ins d(4)
      by (auto simp: sealed_header_def ad_send_version_def in_step_def AD_SEND_DEFAULT_def
          AD_VERSION_LEGACY_def AD_VERSION_HEADER_def)
  qed
  have "in_step P ck a b'"
    using i(1-3) v inb assms(5) by (simp add: in_step_def paired_def sender_at_def dh)
  moreover have "stamped lo b'" using s1 d(2) by (simp add: same_dr_def stamped_def)
  moreover have "hm_len (skipped_message_keys b') + room \<le> 1000 + unat (receiving_chain_length b')"
    using s1 d(2) room keep by (simp add: same_dr_def)
  moreover have "readable ?dh b' = readable ?dh b - {?n}" using i(4) keep by (simp add: dh readable_def)
  ultimately show ?thesis using d(1) by (simp add: batch_inv_def)
qed

lemma sender_at_number:
  assumes "sender_at P ck a i ai"
  shows "sending_chain_length ai = sending_chain_length a + of_nat i"
    "unat (sending_chain_length ai) = unat (sending_chain_length a) + i"
proof -
  show u: "unat (sending_chain_length ai) = unat (sending_chain_length a) + i"
    using assms by (simp add: sender_at_def)
  have "(of_nat (unat (sending_chain_length ai)) :: u32) = of_nat (unat (sending_chain_length a) + i)"
    using u by (rule arg_cong)
  then show "sending_chain_length ai = sending_chain_length a + of_nat i" by simp
qed

lemma batch_delivery:
  assumes "aead_correct P" "sends P xs a = Inr ms" "current_pq_epoch a = 0"
    and "sending_chain_key a = chain_at P ck (unat (sending_chain_length a))" "hkdf_total P"
    and "room = unat (sending_chain_length a) + length xs"
  shows "batch_inv P ck lo room a b \<Longrightarrow> length Es = length order \<Longrightarrow> (\<And>E. E \<in> set Es \<Longrightarrow> clock_in lo E) \<Longrightarrow>
    distinct order \<Longrightarrow>
    (\<And>i. i \<in> set order \<Longrightarrow> i < length xs \<and> sending_chain_length a + of_nat i \<in> readable (dh_ratchet_public a) b) \<Longrightarrow>
    receives P (zip Es (map ((!) ms) order)) b = map (\<lambda>i. Inr (snd (xs ! i))) order"
proof (induction order arbitrary: Es b)
  case (Cons i order)
  from Cons.prems(2) obtain E' Es' where Es: "Es = E' # Es'" by (cases Es) auto
  have clk: "clock_in lo E'" using Cons.prems(3) Es by simp
  have len: "length ms = length xs" and i: "i < length xs"
    "sending_chain_length a + of_nat i \<in> readable (dh_ratchet_public a) b"
    using sends_nth [OF assms(5,2,4)] Cons.prems(5) by auto
  then obtain ai ai' where e: "encrypt P (fst (xs ! i)) (snd (xs ! i)) ai = (Inr (ms ! i), ai')"
    "sender_at P ck a i ai"
    using sends_nth [OF assms(5,2,4)] by metis
  note n = sender_at_number(1) [OF e(2)] and u = sender_at_number(2) [OF e(2)]
  obtain b' where d: "decrypt P E' (ms ! i) b = (Inr (snd (xs ! i)), b')" "batch_inv P ck lo room a b'"
    "readable (dh_ratchet_public a) b' = readable (dh_ratchet_public a) b - {sending_chain_length ai}"
    using batch_step [OF assms(1) Cons.prems(1) clk e assms(3)] i n u assms(6) by auto
  have "j < length xs \<and> sending_chain_length a + of_nat j \<in> readable (dh_ratchet_public a) b'"
    if j: "j \<in> set order" for j
  proof -
    have ji: "j \<noteq> i" "j < length xs" "sending_chain_length a + of_nat j \<in> readable (dh_ratchet_public a) b"
      using Cons.prems(4,5) j by auto
    obtain aj aj' where "encrypt P (fst (xs ! j)) (snd (xs ! j)) aj = (Inr (ms ! j), aj')" "sender_at P ck a j aj"
      using sends_nth [OF assms(5,2,4)] ji len by metis
    note sender_at_number [OF this(2)]
    with u ji n have "sending_chain_length a + of_nat j \<noteq> sending_chain_length ai" by auto
    with ji d(3) show ?thesis by simp
  qed
  then have "receives P (zip Es' (map ((!) ms) order)) b' = map (\<lambda>i. Inr (snd (xs ! i))) order"
    using Cons.IH [OF d(2)] Cons.prems(2-4) Es by simp
  then show ?case using d(1) Es by simp
qed simp



end
