(* ===== verification/Cfe_Envelope.thy ===== *)
theory Cfe_Envelope
  imports Core_Effects
begin

text \<open>
  The Construct file envelope (\<open>src/cfe/envelope.rs\<close>, \<open>compat.rs\<close>, \<open>error.rs\<close> and the message types
  of \<open>types.rs\<close>): a 16-byte header with magic, version, type, length and checksum in front of a
  MessagePack payload.  The reader accepts exactly what the writer writes.
\<close>

datatype cfe_message_type =
    PrivateKeys | SessionState | OtpkBundle | RegistrationBundle | OrchestratorState
  | KyberPrivateKeys | MlsStore | Generic

fun cfe_type_u8 :: "cfe_message_type \<Rightarrow> u8" where
  "cfe_type_u8 PrivateKeys = 0x01"
| "cfe_type_u8 SessionState = 0x02"
| "cfe_type_u8 OtpkBundle = 0x03"
| "cfe_type_u8 RegistrationBundle = 0x04"
| "cfe_type_u8 OrchestratorState = 0x05"
| "cfe_type_u8 KyberPrivateKeys = 0x20"
| "cfe_type_u8 MlsStore = 0x44"
| "cfe_type_u8 Generic = 0x7F"

definition cfe_type_from_u8 :: "u8 \<Rightarrow> cfe_message_type option" where
  "cfe_type_from_u8 v =
    (if v = 0x01 then Some PrivateKeys else if v = 0x02 then Some SessionState
     else if v = 0x03 then Some OtpkBundle else if v = 0x04 then Some RegistrationBundle
     else if v = 0x05 then Some OrchestratorState else if v = 0x20 then Some KyberPrivateKeys
     else if v = 0x44 then Some MlsStore else if v = 0x7F then Some Generic else None)"

datatype cfe_error =
    TooShort nat nat
  | InvalidMagic
  | LegacyJson
  | UnsupportedVersion u8
  | UnknownType u8
  | ChecksumMismatch u32 u32
  | PayloadTooLarge nat nat
  | TruncatedPayload nat nat
  | InvalidReservedBytes
  | UnsupportedFlags u8
  | TypeMismatch cfe_message_type cfe_message_type
  | InvalidFormat
  | SerializeFailed
  | DeserializeFailed
  | LegacyJsonParseFailed
  | Base64DecodeFailed
  | InvalidField

definition CFE_MAGIC :: bytes where "CFE_MAGIC = [0x43, 0x46]"
definition CFE_VERSION :: u8 where "CFE_VERSION = 0x01"
definition CFE_HEADER_LEN :: nat where "CFE_HEADER_LEN = 16"
definition MAX_PAYLOAD_LEN :: nat where "MAX_PAYLOAD_LEN = 256 * 1024"
definition MAX_STATE_PAYLOAD_LEN :: nat where "MAX_STATE_PAYLOAD_LEN = 64 * 1024 * 1024"

definition max_payload_len :: "cfe_message_type \<Rightarrow> nat" where
  "max_payload_len t = (case t of Generic \<Rightarrow> MAX_PAYLOAD_LEN | _ \<Rightarrow> MAX_STATE_PAYLOAD_LEN)"

record cfe_envelope =
  env_version :: u8
  env_msg_type :: cfe_message_type
  env_flags :: u8
  env_payload :: bytes

text \<open>The MessagePack codec of the payload (\<open>rmp_serde\<close>) and the checksum (\<open>crc32fast\<close>) are
  third-party code.\<close>

record 'a cfe_codec =
  to_vec_named :: "'a \<Rightarrow> bytes option"
  from_slice :: "bytes \<Rightarrow> 'a option"
  crc32 :: "bytes \<Rightarrow> u32"

definition looks_like_legacy_json :: "bytes \<Rightarrow> bool" where
  "looks_like_legacy_json data =
    (case find (\<lambda>b. b \<notin> {0x20, 0x09, 0x0A, 0x0D}) data of
       Some b \<Rightarrow> b = 0x7B \<or> b = 0x5B | None \<Rightarrow> False)"

definition legacy_json_error_if_detected :: "bytes \<Rightarrow> cfe_error + unit" where
  "legacy_json_error_if_detected data =
    (if looks_like_legacy_json data then Inl LegacyJson else Inr ())"

definition cfe_encode :: "'a cfe_codec \<Rightarrow> cfe_message_type \<Rightarrow> 'a \<Rightarrow> cfe_error + bytes" where
  "cfe_encode C msg_type value =
    res_bind (ok_or SerializeFailed (to_vec_named C value)) (\<lambda>payload.
    (let max = max_payload_len msg_type
     in if max < length payload then Inl (PayloadTooLarge max (length payload))
        else Inr (CFE_MAGIC @ [CFE_VERSION] @ [cfe_type_u8 msg_type] @ [0] @ [0, 0, 0] @
               u32_to_le (of_nat (length payload)) @ u32_to_le (crc32 C payload) @ payload)))"

definition parse_header :: "'a cfe_codec \<Rightarrow> bytes \<Rightarrow> cfe_error + cfe_envelope" where
  "parse_header C data =
    (if length data < CFE_HEADER_LEN
     then res_bind (legacy_json_error_if_detected data)
            (\<lambda>_. Inl (TooShort CFE_HEADER_LEN (length data)))
     else if subslice 0 2 data \<noteq> CFE_MAGIC
     then res_bind (legacy_json_error_if_detected data) (\<lambda>_. Inl InvalidMagic)
     else if data ! 2 \<noteq> CFE_VERSION then Inl (UnsupportedVersion (data ! 2))
     else res_bind (ok_or (UnknownType (data ! 3)) (cfe_type_from_u8 (data ! 3))) (\<lambda>msg_type.
       if data ! 4 \<noteq> 0 then Inl (UnsupportedFlags (data ! 4))
       else if data ! 5 \<noteq> 0 \<or> data ! 6 \<noteq> 0 \<or> data ! 7 \<noteq> 0 then Inl InvalidReservedBytes
       else
         (let payload_len = unat (u32_from_le (subslice 8 12 data));
              max = max_payload_len msg_type;
              total_len = CFE_HEADER_LEN + payload_len
          in if max < payload_len then Inl (PayloadTooLarge max payload_len)
             else if length data < total_len
             then Inl (TruncatedPayload payload_len (length data - CFE_HEADER_LEN))
             else
               (let stored_crc = u32_from_le (subslice 12 16 data);
                    raw_payload = subslice CFE_HEADER_LEN total_len data;
                    computed_crc = crc32 C raw_payload
                in if stored_crc \<noteq> computed_crc then Inl (ChecksumMismatch stored_crc computed_crc)
                   else Inr \<lparr> env_version = data ! 2, env_msg_type = msg_type, env_flags = data ! 4,
                              env_payload = raw_payload \<rparr>))))"

definition cfe_decode_as :: "'a cfe_codec \<Rightarrow> bytes \<Rightarrow> cfe_message_type \<Rightarrow> cfe_error + 'a" where
  "cfe_decode_as C data expected_type =
    res_bind (parse_header C data) (\<lambda>envelope.
      if env_msg_type envelope \<noteq> expected_type
      then Inl (TypeMismatch expected_type (env_msg_type envelope))
      else ok_or DeserializeFailed (from_slice C (env_payload envelope)))"

text \<open>What the code relies on of the codec: what it writes it reads back.\<close>

definition codec_correct :: "'a cfe_codec \<Rightarrow> bool" where
  "codec_correct C \<longleftrightarrow> (\<forall>v b. to_vec_named C v = Some b \<longrightarrow> from_slice C b = Some v)"

lemma cfe_type_roundtrip [simp]: "cfe_type_from_u8 (cfe_type_u8 t) = Some t"
  by (cases t) (simp_all add: cfe_type_from_u8_def)

lemma cfe_type_from_u8_SomeD: "cfe_type_from_u8 v = Some t \<Longrightarrow> cfe_type_u8 t = v"
  by (auto simp: cfe_type_from_u8_def split: if_splits)

lemma max_payload_fits: "max_payload_len t < 2 ^ 32"
  by (cases t) (simp_all add: max_payload_len_def MAX_PAYLOAD_LEN_def MAX_STATE_PAYLOAD_LEN_def)

lemma unat_of_nat_u32: "n < 2 ^ 32 \<Longrightarrow> unat (of_nat n :: u32) = n"
  by (simp add: unat_of_nat)

definition cfe_bytes :: "'a cfe_codec \<Rightarrow> cfe_message_type \<Rightarrow> bytes \<Rightarrow> bytes" where
  "cfe_bytes C t payload = CFE_MAGIC @ [CFE_VERSION] @ [cfe_type_u8 t] @ [0] @ [0, 0, 0] @
     u32_to_le (of_nat (length payload)) @ u32_to_le (crc32 C payload) @ payload"

lemma length_4: "length xs = 4 \<Longrightarrow> \<exists>a b c d. xs = [a, b, c, d]"
  by (auto simp: numeral_eq_Suc length_Suc_conv)

lemma u32_le_bytes: "\<exists>a b c d. u32_to_le w = [a, b, c, d]"
  by (rule length_4) simp

lemma parse_header_of_bytes:
  assumes "length payload \<le> max_payload_len t"
  shows "parse_header C (cfe_bytes C t payload @ rest) =
    Inr \<lparr> env_version = CFE_VERSION, env_msg_type = t, env_flags = 0, env_payload = payload \<rparr>"
proof -
  have len: "unat (of_nat (length payload) :: u32) = length payload"
    using assms max_payload_fits [of t] by (intro unat_of_nat_u32) simp
  obtain l1 l2 l3 l4 where l: "u32_to_le (of_nat (length payload)) = [l1, l2, l3, l4]" using u32_le_bytes by blast
  obtain c1 c2 c3 c4 where c: "u32_to_le (crc32 C payload) = [c1, c2, c3, c4]" using u32_le_bytes by blast
  let ?d = "[0x43, 0x46, CFE_VERSION, cfe_type_u8 t, 0, 0, 0, 0, l1, l2, l3, l4, c1, c2, c3, c4] @ payload @ rest"
  have d: "cfe_bytes C t payload @ rest = ?d" by (simp add: cfe_bytes_def CFE_MAGIC_def l c)
  have "subslice 8 12 ?d = u32_to_le (of_nat (length payload))"
    "subslice 12 16 ?d = u32_to_le (crc32 C payload)" "subslice 0 2 ?d = CFE_MAGIC"
    "subslice 16 (16 + length payload) ?d = payload"
    by (simp_all add: subslice_def l c CFE_MAGIC_def)
  then show ?thesis
    unfolding d parse_header_def using assms len by (simp add: CFE_HEADER_LEN_def Let_def)
qed

lemma drop_split:
  assumes "i \<le> j"
  shows "subslice i j xs @ drop j xs = drop i xs"
proof -
  have "drop j xs = drop (j - i) (drop i xs)" using assms by simp
  then show ?thesis unfolding subslice_def by (simp only: append_take_drop_id)
qed

lemma split_16:
  assumes "16 \<le> length (data :: 'a list)"
  shows "data = [data ! 0, data ! 1, data ! 2, data ! 3, data ! 4, data ! 5, data ! 6, data ! 7] @
    subslice 8 12 data @ subslice 12 16 data @ drop 16 data"
proof -
  have "data = take 8 data @ subslice 8 12 data @ subslice 12 16 data @ drop 16 data"
    using drop_split [of 8 12 data] drop_split [of 12 16 data] by simp
  moreover have "take 8 data = [data ! 0, data ! 1, data ! 2, data ! 3, data ! 4, data ! 5, data ! 6, data ! 7]"
  proof (rule nth_equalityI)
    fix i assume "i < length (take 8 data)"
    then have "i < 8" by simp
    then consider "i = 0" | "i = 1" | "i = 2" | "i = 3" | "i = 4" | "i = 5" | "i = 6" | "i = 7" by linarith
    then show "take 8 data ! i = [data ! 0, data ! 1, data ! 2, data ! 3, data ! 4, data ! 5, data ! 6, data ! 7] ! i"
      by cases simp_all
  qed (use assms in simp)
  ultimately show ?thesis by metis
qed


lemma parse_header_InrD:
  assumes "parse_header C data = Inr env"
  shows "\<exists>rest. data = cfe_bytes C (env_msg_type env) (env_payload env) @ rest \<and>
    length (env_payload env) \<le> max_payload_len (env_msg_type env) \<and> env_version env = CFE_VERSION \<and> env_flags env = 0"
proof -
  let ?n = "unat (u32_from_le (subslice 8 12 data))"
  let ?pl = "subslice 16 (16 + ?n) data"
  have len: "16 \<le> length data" and mg: "subslice 0 2 data = CFE_MAGIC" and v: "data ! 2 = CFE_VERSION"
    using assms by (auto simp: parse_header_def CFE_HEADER_LEN_def result_iffs not_less split: if_splits)
  then obtain ty where ty: "cfe_type_from_u8 (data ! 3) = Some ty"
    using assms by (auto simp: parse_header_def CFE_HEADER_LEN_def result_iffs split: if_splits)
  have z: "data ! 4 = 0" "data ! 5 = 0" "data ! 6 = 0" "data ! 7 = 0"
    and mx: "?n \<le> max_payload_len ty" and tot: "16 + ?n \<le> length data"
    and crc: "u32_from_le (subslice 12 16 data) = crc32 C ?pl"
    and env: "env = \<lparr> env_version = CFE_VERSION, env_msg_type = ty, env_flags = 0, env_payload = ?pl \<rparr>"
    using assms len mg v ty
    by (auto simp: parse_header_def CFE_HEADER_LEN_def Let_def not_less split: if_splits)
  have pl: "length ?pl = ?n" using tot by simp
  have "of_nat ?n = u32_from_le (subslice 8 12 data)" by simp
  then have l: "u32_to_le (of_nat (length ?pl)) = subslice 8 12 data"
    using pl int_codec_inverse(2) [of "subslice 8 12 data"] len by simp
  have c: "u32_to_le (crc32 C ?pl) = subslice 12 16 data"
    using crc [symmetric] int_codec_inverse(2) [of "subslice 12 16 data"] len by simp
  have "take 2 data = [data ! 0, data ! 1]"
    by (subst split_16 [OF len]) simp
  then have m: "data ! 0 = 0x43" "data ! 1 = 0x46" using mg by (simp_all add: CFE_MAGIC_def)
  have "data = cfe_bytes C ty ?pl @ drop (16 + ?n) data"
    using split_16 [OF len] drop_split [of 16 "16 + ?n" data]
    by (simp add: cfe_bytes_def CFE_MAGIC_def l c m m(2) [unfolded One_nat_def] v z cfe_type_from_u8_SomeD [OF ty])
  then show ?thesis using mx pl by (auto simp: env)
qed

text \<open>
  C8.  The envelope reader accepts exactly the writer's format: \<open>parse_header\<close> succeeds on some bytes
  if and only if they start with the magic, version 1, a known type, zero flags and reserved bytes, the
  length and the checksum of a payload within the type's cap, followed by that payload; and then it
  returns that type and payload.
\<close>

theorem parse_header_exact:
  "parse_header C data = Inr env \<longleftrightarrow>
    (\<exists>t payload rest. data = CFE_MAGIC @ [CFE_VERSION] @ [cfe_type_u8 t] @ [0] @ [0, 0, 0] @
       u32_to_le (of_nat (length payload)) @ u32_to_le (crc32 C payload) @ payload @ rest \<and>
     length payload \<le> max_payload_len t \<and>
     env = \<lparr> env_version = CFE_VERSION, env_msg_type = t, env_flags = 0, env_payload = payload \<rparr>)"
proof
  assume "parse_header C data = Inr env"
  then obtain rest where r: "data = cfe_bytes C (env_msg_type env) (env_payload env) @ rest"
    "length (env_payload env) \<le> max_payload_len (env_msg_type env)" "env_version env = CFE_VERSION" "env_flags env = 0"
    using parse_header_InrD by blast
  then have "env = \<lparr> env_version = CFE_VERSION, env_msg_type = env_msg_type env, env_flags = 0, env_payload = env_payload env \<rparr>"
    by simp
  with r show "\<exists>t payload rest. data = CFE_MAGIC @ [CFE_VERSION] @ [cfe_type_u8 t] @ [0] @ [0, 0, 0] @
       u32_to_le (of_nat (length payload)) @ u32_to_le (crc32 C payload) @ payload @ rest \<and>
     length payload \<le> max_payload_len t \<and>
     env = \<lparr> env_version = CFE_VERSION, env_msg_type = t, env_flags = 0, env_payload = payload \<rparr>"
    by (intro exI [of _ "env_msg_type env"] exI [of _ "env_payload env"] exI [of _ rest]) (simp add: cfe_bytes_def)
next
  assume "\<exists>t payload rest. data = CFE_MAGIC @ [CFE_VERSION] @ [cfe_type_u8 t] @ [0] @ [0, 0, 0] @
       u32_to_le (of_nat (length payload)) @ u32_to_le (crc32 C payload) @ payload @ rest \<and>
     length payload \<le> max_payload_len t \<and>
     env = \<lparr> env_version = CFE_VERSION, env_msg_type = t, env_flags = 0, env_payload = payload \<rparr>"
  then obtain t payload rest where "data = cfe_bytes C t payload @ rest" "length payload \<le> max_payload_len t"
    "env = \<lparr> env_version = CFE_VERSION, env_msg_type = t, env_flags = 0, env_payload = payload \<rparr>"
    by (auto simp: cfe_bytes_def)
  then show "parse_header C data = Inr env" using parse_header_of_bytes by blast
qed

text \<open>
  C9.  What \<open>encode\<close> writes \<open>decode_as\<close> of the same type reads back as the same value, whatever bytes
  follow it, and \<open>decode_as\<close> of another type refuses it as a type mismatch; in particular \<open>encode\<close>
  never writes a blob over the cap the reader applies.
\<close>

theorem cfe_encode_decode:
  assumes "codec_correct C" "cfe_encode C t v = Inr data"
  shows "cfe_decode_as C (data @ rest) t' = (if t' = t then Inr v else Inl (TypeMismatch t' t))"
proof -
  obtain payload where p: "to_vec_named C v = Some payload" "length payload \<le> max_payload_len t"
    "data = cfe_bytes C t payload"
    using assms(2) by (auto simp: cfe_encode_def result_iffs Let_def cfe_bytes_def split: if_splits)
  have "from_slice C payload = Some v" using assms(1) p(1) by (simp add: codec_correct_def)
  then show ?thesis using parse_header_of_bytes [OF p(2), of C rest] p(3) by (simp add: cfe_decode_as_def)
qed

text \<open>An executable codec of one-byte values, for the concrete instances.\<close>

definition sample_codec :: "u8 cfe_codec" where
  "sample_codec = \<lparr> to_vec_named = (\<lambda>v. Some [v, 1]),
     from_slice = (\<lambda>bs. case bs of [v, w] \<Rightarrow> if w = 1 then Some v else None | _ \<Rightarrow> None),
     crc32 = (\<lambda>bs. ucast (sum_list bs)) \<rparr>"

theorem cfe_encode_decode_witness:
  "\<exists>data. cfe_encode sample_codec OtpkBundle 9 = Inr data \<and>
    cfe_decode_as sample_codec (data @ [1]) OtpkBundle = Inr 9 \<and>
    cfe_decode_as sample_codec (data @ [1]) SessionState = Inl (TypeMismatch SessionState OtpkBundle)"
proof -
  have c: "codec_correct sample_codec" by (simp add: codec_correct_def sample_codec_def)
  have "to_vec_named sample_codec 9 = Some [9, 1]" by (simp add: sample_codec_def)
  then obtain data where "cfe_encode sample_codec OtpkBundle 9 = Inr data"
    by (simp add: cfe_encode_def Let_def max_payload_len_def MAX_STATE_PAYLOAD_LEN_def)
  then show ?thesis
    using cfe_encode_decode [OF c, of OtpkBundle 9 data "[1]" OtpkBundle]
      cfe_encode_decode [OF c, of OtpkBundle 9 data "[1]" SessionState] by auto
qed

end
