(* ===== verification/Ratchet_Invariant.thy ===== *)
theory Ratchet_Invariant
  imports Ratchet_Batch
begin

text \<open>
  The invariant of a session.  \<open>kept_ok\<close> is the invariant of a table of skipped keys, \<open>chains_ok\<close> that of
  the retained post-quantum chains, \<open>dr_inv\<close> collects them, and \<open>identity_kept\<close> says what no operation
  changes.  Each operation keeps both, on success and on error, so by rule induction every session of
  \<open>session_reach\<close> is \<open>session_ok\<close>.
\<close>

text \<open>What one call may draw: keys and ciphertexts of the sizes of ML-KEM-768 (FIPS 203) and an X25519
  private key of 32 bytes.\<close>

definition draws_ok :: "draws \<Rightarrow> bool" where
  "draws_ok E \<longleftrightarrow> length (drawn_x25519 E) = 32 \<and>
    length (fst (drawn_mlkem768 E)) = MLKEM768_PK_SIZE \<and> length (snd (drawn_mlkem768 E)) = MLKEM768_SK_SIZE \<and>
    (\<forall>pk ct ss. drawn_encapsulation E pk = Some (ct, ss) \<longrightarrow> length ct = MLKEM768_CT_SIZE)"

definition keys32 :: "pq_epoch_chains \<Rightarrow> bool" where
  "keys32 c \<longleftrightarrow> length (ch_key (ec_recv c)) = 32 \<and>
    (case ec_send c of None \<Rightarrow> True | Some ch \<Rightarrow> length (ch_key ch) = 32)"

text \<open>The retained chains: at most two, by rising epoch, none ahead of the current epoch, and only the
  current epoch sends.\<close>

definition chains_ok :: "u32 \<Rightarrow> pq_epoch_chains list \<Rightarrow> bool" where
  "chains_ok cur cs \<longleftrightarrow> length cs \<le> PQ_CHAIN_RETENTION \<and> sorted_wrt (<) (map ec_epoch cs) \<and>
    (\<forall>c \<in> set cs. ec_epoch c \<noteq> 0 \<and> ec_epoch c \<le> cur \<and> keys32 c \<and> (ec_send c \<noteq> None \<longrightarrow> ec_epoch c = cur)) \<and>
    (cur \<noteq> 0 \<longrightarrow> (\<exists>c \<in> set cs. ec_epoch c = cur \<and> ec_send c \<noteq> None))"

text \<open>A table of kept keys: one entry per slot, within the bound, each with its stamp.\<close>

definition kept_ok :: "('k, bytes) hmap \<Rightarrow> ('k, u64) hmap \<Rightarrow> bool" where
  "kept_ok keys stamps \<longleftrightarrow> hm_wf keys \<and> hm_len keys \<le> unat (max_skipped_messages global_config) \<and>
    (\<forall>k. (hm_get k keys = None) = (hm_get k stamps = None))"

definition exchange_ok :: "u32 \<Rightarrow> bool \<Rightarrow> pending_pq_exchange option \<Rightarrow> bool" where
  "exchange_ok cur initiator pending = (case pending of None \<Rightarrow> True
     | Some ex \<Rightarrow> initiator \<and> px_epoch ex = sat_add cur 1 \<and>
         length (kp_public (px_keypair ex)) = MLKEM768_PK_SIZE \<and>
         length (kp_secret (px_keypair ex)) = MLKEM768_SK_SIZE)"

definition ciphertext_ok :: "u32 \<Rightarrow> bool \<Rightarrow> pending_pq_ciphertext option \<Rightarrow> bool" where
  "ciphertext_ok cur initiator pending = (case pending of None \<Rightarrow> True
     | Some p \<Rightarrow> \<not> initiator \<and> cur < pc_epoch p \<and> length (pc_ek_hash p) = 8 \<and>
         length (pc_ciphertext p) = MLKEM768_CT_SIZE \<and> ec_epoch (pc_chains p) = pc_epoch p \<and>
         keys32 (pc_chains p) \<and> ec_send (pc_chains p) \<noteq> None)"

definition pq_ok :: "dr_session \<Rightarrow> bool" where
  "pq_ok s \<longleftrightarrow> chains_ok (current_pq_epoch s) (pq_chains s) \<and>
    kept_ok (pq_skipped_keys s) (pq_skipped_key_timestamps s) \<and>
    (\<forall>k v. hm_get k (pq_skipped_keys s) = Some v \<longrightarrow> length v = 32) \<and>
    exchange_ok (current_pq_epoch s) (is_pq_initiator s) (dr_pending_pq_exchange s) \<and>
    ciphertext_ok (current_pq_epoch s) (is_pq_initiator s) (dr_pending_pq_ciphertext s)"

definition dr_inv :: "dr_session \<Rightarrow> bool" where
  "dr_inv s \<longleftrightarrow> kept_ok (skipped_message_keys s) (skipped_key_timestamps s) \<and> pq_ok s"

subsection \<open>Chains\<close>

lemma remove_first_filter:
  "distinct (map f xs) \<Longrightarrow> remove_first (\<lambda>c. f c = e) xs = filter (\<lambda>c. f c \<noteq> e) xs"
proof (induction xs)
  case (Cons a xs)
  have "filter (\<lambda>c. f c \<noteq> e) xs = xs" if "f a = e"
    using Cons.prems that by (auto simp: filter_id_conv) (metis imageI)
  then show ?case using Cons by simp
qed simp

lemma chains_ok_insert:
  assumes "chains_ok cur (pq_chains s)" "cur \<le> ec_epoch new" "ec_epoch new \<noteq> 0" "keys32 new" "ec_send new \<noteq> None"
  shows "chains_ok (ec_epoch new) (pq_chains (insert_pq_epoch_chains new s))"
proof -
  let ?e = "ec_epoch new" and ?cs = "pq_chains s"
  let ?stop = "\<lambda>c. if ec_epoch c < ?e then c\<lparr> ec_send := None \<rparr> else c"
  let ?rest = "map ?stop (filter (\<lambda>c. ec_epoch c \<noteq> ?e) ?cs)"
  have ep: "ec_epoch (?stop c) = ec_epoch c" for c by simp
  have srt: "sorted_wrt (<) (map ec_epoch ?cs)" using assms(1) by (simp add: chains_ok_def)
  then have "distinct (map ec_epoch ?cs)" by (simp add: strict_sorted_iff)
  then have rem: "remove_first (\<lambda>c. ec_epoch c = ?e) ?cs = filter (\<lambda>c. ec_epoch c \<noteq> ?e) ?cs"
    by (rule remove_first_filter)
  have lt: "ec_epoch c < ?e" if "c \<in> set (filter (\<lambda>c. ec_epoch c \<noteq> ?e) ?cs)" for c
    using that assms(1,2) by (auto simp: chains_ok_def)
  have mp: "map ec_epoch ?rest = map ec_epoch (filter (\<lambda>c. ec_epoch c \<noteq> ?e) ?cs)"
    by (simp add: ep)
  have "sorted_wrt (<) (map ec_epoch (filter (\<lambda>c. ec_epoch c \<noteq> ?e) ?cs))"
    using srt by (simp add: sorted_wrt_map sorted_wrt_filter)
  then have sr: "sorted_wrt (<) (map ec_epoch (?rest @ [new]))"
    using lt unfolding map_append mp sorted_wrt_append by auto
  then have "sort_key ec_epoch (?rest @ [new]) = ?rest @ [new]"
    by (intro sort_key_id_if_sorted) (simp add: strict_sorted_iff)
  then have cs: "pq_chains (insert_pq_epoch_chains new s) =
      drop (length (?rest @ [new]) - PQ_CHAIN_RETENTION) (?rest @ [new])"
    by (simp add: insert_pq_epoch_chains_def Let_def rem)
  have all: "ec_epoch c \<noteq> 0 \<and> ec_epoch c \<le> ?e \<and> keys32 c \<and> (ec_send c \<noteq> None \<longrightarrow> ec_epoch c = ?e)"
    if "c \<in> set (?rest @ [new])" for c
    using that assms lt by (auto simp: chains_ok_def keys32_def less_imp_le)
  define L where "L = ?rest @ [new]"
  define D where "D = drop (length L - PQ_CHAIN_RETENTION) L"
  have new: "new \<in> set D" by (simp add: D_def L_def PQ_CHAIN_RETENTION_def)
  have srt': "sorted_wrt (<) (map ec_epoch D)"
    using sr unfolding D_def L_def [symmetric] by (simp add: drop_map [symmetric] sorted_wrt_drop)
  have "set D \<subseteq> set L" by (simp add: D_def set_drop_subset)
  then have mem: "ec_epoch c \<noteq> 0 \<and> ec_epoch c \<le> ?e \<and> keys32 c \<and> (ec_send c \<noteq> None \<longrightarrow> ec_epoch c = ?e)"
    if "c \<in> set D" for c using all [folded L_def] that by blast
  have len: "length D \<le> PQ_CHAIN_RETENTION" by (simp add: D_def)
  have ex: "\<exists>c \<in> set D. ec_epoch c = ?e \<and> ec_send c \<noteq> None" using new assms(5) by blast
  have "chains_ok ?e D"
    unfolding chains_ok_def by (intro conjI ballI impI len srt' ex) (simp_all add: mem)
  then show ?thesis by (simp only: cs D_def L_def)
qed

lemma set_first_recv_epochs: "map ec_epoch (set_first_recv ep ch cs) = map ec_epoch cs"
  by (induction cs) auto

lemma set_first_recv_mem:
  "c \<in> set (set_first_recv ep ch cs) \<Longrightarrow> \<exists>c0 \<in> set cs. ec_epoch c = ec_epoch c0 \<and> ec_send c = ec_send c0 \<and>
     (ec_recv c = ec_recv c0 \<or> ec_recv c = ch)"
  by (induction cs) (auto split: if_splits)

lemma set_first_recv_mem2:
  "c \<in> set cs \<Longrightarrow> \<exists>c1 \<in> set (set_first_recv ep ch cs). ec_epoch c1 = ec_epoch c \<and> ec_send c1 = ec_send c"
  by (induction cs) auto

lemma chains_ok_set_recv:
  assumes "chains_ok cur cs" "length (ch_key ch) = 32"
  shows "chains_ok cur (set_first_recv ep ch cs)"
proof -
  have "length (set_first_recv ep ch cs) = length cs"
    using set_first_recv_epochs by (metis length_map)
  moreover have "ec_epoch c \<noteq> 0 \<and> ec_epoch c \<le> cur \<and> keys32 c \<and> (ec_send c \<noteq> None \<longrightarrow> ec_epoch c = cur)"
    if c: "c \<in> set (set_first_recv ep ch cs)" for c
  proof -
    obtain c0 where c0: "c0 \<in> set cs" "ec_epoch c = ec_epoch c0" "ec_send c = ec_send c0"
      "ec_recv c = ec_recv c0 \<or> ec_recv c = ch"
      using set_first_recv_mem [OF c] by blast
    have "ec_epoch c0 \<noteq> 0 \<and> ec_epoch c0 \<le> cur \<and> keys32 c0 \<and> (ec_send c0 \<noteq> None \<longrightarrow> ec_epoch c0 = cur)"
      using assms(1) c0(1) by (simp add: chains_ok_def)
    then show ?thesis using c0(2-4) assms(2) by (auto simp: keys32_def)
  qed
  moreover have "\<exists>c \<in> set (set_first_recv ep ch cs). ec_epoch c = cur \<and> ec_send c \<noteq> None" if "cur \<noteq> 0"
  proof -
    from assms(1) that obtain c where "c \<in> set cs" "ec_epoch c = cur" "ec_send c \<noteq> None"
      by (auto simp: chains_ok_def)
    then show ?thesis using set_first_recv_mem2 [of c cs ep ch] by metis
  qed
  ultimately show ?thesis
    using assms(1) by (simp add: chains_ok_def set_first_recv_epochs)
qed

lemma pq_chain_step_32:
  assumes "hkdf_total P" "pq_chain_step P ch = Inr (ch', i, k)"
  shows "length (ch_key ch') = 32" "length k = 32"
proof -
  obtain out where "hkdf_derive_key P [] (ch_key ch) (ascii ''construct-pqr-step-v2'') 64 = Inr out" "length out = 64"
    by (rule hkdf_derive_key_total [OF assms(1), where len = 64]) auto
  with assms(2) show "length (ch_key ch') = 32" "length k = 32"
    by (auto simp: pq_chain_step_def result_iffs)
qed

definition stepped :: "pq_epoch_chains \<Rightarrow> pq_epoch_chains \<Rightarrow> bool" where
  "stepped c c' \<longleftrightarrow> ec_epoch c' = ec_epoch c \<and> ec_recv c' = ec_recv c \<and>
    (ec_send c' = None \<longleftrightarrow> ec_send c = None) \<and> (keys32 c \<longrightarrow> keys32 c')"

lemma step_send_chain_map:
  assumes "hkdf_total P" "step_send_chain P ep cs = Inr (cs', i, k)"
  shows "list_all2 stepped cs cs'"
  using assms(2)
proof (induction cs arbitrary: cs')
  case (Cons c cs)
  have refl: "list_all2 stepped xs xs" for xs by (rule list.rel_refl) (simp add: stepped_def)
  show ?case
  proof (cases "ec_epoch c = ep")
    case True
    with Cons.prems obtain ch ch' where "ec_send c = Some ch" "pq_chain_step P ch = Inr (ch', i, k)"
      "cs' = c\<lparr> ec_send := Some ch' \<rparr> # cs"
      by (auto simp: result_iffs split: option.splits)
    moreover from this have "stepped c (c\<lparr> ec_send := Some ch' \<rparr>)"
      using pq_chain_step_32(1) [OF assms(1)] by (simp add: stepped_def keys32_def)
    ultimately show ?thesis using refl by simp
  next
    case False
    with Cons.prems obtain cs1 where "step_send_chain P ep cs = Inr (cs1, i, k)" "cs' = c # cs1"
      by (auto simp: result_iffs)
    moreover have "stepped c c" by (simp add: stepped_def)
    ultimately show ?thesis using Cons.IH by simp
  qed
qed simp

lemma chains_ok_map:
  assumes ok: "chains_ok cur cs" and st: "list_all2 stepped cs cs'"
  shows "chains_ok cur cs'"
proof -
  have len: "length cs' = length cs" using list_all2_lengthD [OF st] by simp
  have nth: "stepped (cs ! j) (cs' ! j)" if "j < length cs" for j
    using list_all2_nthD [OF st that] .
  have "ec_epoch (cs' ! j) = ec_epoch (cs ! j)" if "j < length cs" for j
    using nth [OF that] unfolding stepped_def by (rule conjunct1)
  then have ep: "map ec_epoch cs' = map ec_epoch cs"
    using len by (metis (no_types, lifting) length_map nth_equalityI nth_map)
  have "ec_epoch c \<noteq> 0 \<and> ec_epoch c \<le> cur \<and> keys32 c \<and> (ec_send c \<noteq> None \<longrightarrow> ec_epoch c = cur)"
    if c: "c \<in> set cs'" for c
  proof -
    obtain j where j: "j < length cs" "c = cs' ! j" using c len by (metis in_set_conv_nth)
    have "cs ! j \<in> set cs" using j(1) by simp
    with ok have "ec_epoch (cs ! j) \<noteq> 0 \<and> ec_epoch (cs ! j) \<le> cur \<and> keys32 (cs ! j) \<and>
        (ec_send (cs ! j) \<noteq> None \<longrightarrow> ec_epoch (cs ! j) = cur)"
      unfolding chains_ok_def by blast
    then show ?thesis using nth [OF j(1)] unfolding stepped_def j(2) by metis
  qed
  moreover have "\<exists>c \<in> set cs'. ec_epoch c = cur \<and> ec_send c \<noteq> None" if "cur \<noteq> 0"
  proof -
    from ok that obtain c where c: "c \<in> set cs" "ec_epoch c = cur" "ec_send c \<noteq> None"
      unfolding chains_ok_def by blast
    then obtain j where j: "j < length cs" "c = cs ! j" by (metis in_set_conv_nth)
    have "ec_epoch (cs' ! j) = cur \<and> ec_send (cs' ! j) \<noteq> None"
      using nth [OF j(1)] c unfolding stepped_def j(2) by metis
    then show ?thesis using j(1) len by (metis nth_mem)
  qed
  moreover have "length cs' \<le> PQ_CHAIN_RETENTION" "sorted_wrt (<) (map ec_epoch cs')"
    using ok len ep by (simp_all add: chains_ok_def)
  ultimately show ?thesis unfolding chains_ok_def by blast
qed

subsection \<open>Kept keys\<close>

lemma kept_ok_insert:
  assumes "kept_ok m st" "hm_len m < unat (max_skipped_messages global_config)"
  shows "kept_ok (hm_insert k v m) (hm_insert k t st)"
  using assms by (auto simp: kept_ok_def hm.get_insert hm.len_insert hm.wf_insert)

lemma kept_ok_remove: "kept_ok m st \<Longrightarrow> kept_ok (hm_remove k m) (hm_remove k st)"
  using hm_len_remove_le [of k m] by (auto simp: kept_ok_def hm.get_remove hm.wf_remove)

lemma kept_ok_fold_remove: "kept_ok m st \<Longrightarrow> kept_ok (fold hm_remove ks m) (fold hm_remove ks st)"
  by (induction ks arbitrary: m st) (auto intro: kept_ok_remove)


lemma pq_ok_upd [simp]:
  "pq_ok (s\<lparr> sending_chain_key := a, sending_chain_length := b \<rparr>) = pq_ok s"
  "pq_ok (s\<lparr> previous_sending_length := b \<rparr>) = pq_ok s"
  "pq_ok (s\<lparr> receiving_chain_key := a \<rparr>) = pq_ok s"
  "pq_ok (s\<lparr> receiving_chain_length := b \<rparr>) = pq_ok s"
  "pq_ok (s\<lparr> skipped_message_keys := sk, skipped_key_timestamps := st \<rparr>) = pq_ok s"
  "pq_ok (s\<lparr> peer_ad_version := v \<rparr>) = pq_ok s"
  "pq_ok (s\<lparr> dr_prekey_header := h \<rparr>) = pq_ok s"
  "pq_ok (s\<lparr> last_ratchet_at := t \<rparr>) = pq_ok s"
  "pq_ok (store_skipped E dh k c s) = pq_ok s"
  by (simp_all add: pq_ok_def store_skipped_def)

lemma exchange_ok_start:
  assumes "pq_ok s" "is_pq_initiator s" "draws_ok E" "start_pq_exchange E s = (r, s')"
  shows "pq_ok s' \<and> skipped_message_keys s' = skipped_message_keys s \<and> skipped_key_timestamps s' = skipped_key_timestamps s"
  using assms
  by (auto simp: start_pq_exchange_def mlkem768_keygen_def draws_ok_def pq_ok_def exchange_ok_def
      split: if_splits prod.splits)

lemma abandon_ok: "pq_ok s \<Longrightarrow> pq_ok (abandon_unanswered_pq_exchange E s)"
  by (simp add: abandon_unanswered_pq_exchange_def Let_def pq_ok_def exchange_ok_def)

lemma abandon_frame [simp]:
  "is_pq_initiator (abandon_unanswered_pq_exchange E s) = is_pq_initiator s"
  "skipped_message_keys (abandon_unanswered_pq_exchange E s) = skipped_message_keys s"
  "skipped_key_timestamps (abandon_unanswered_pq_exchange E s) = skipped_key_timestamps s"
  by (simp_all add: abandon_unanswered_pq_exchange_def Let_def)

lemma maybe_start_inv:
  assumes "draws_ok E" "dr_inv s" "maybe_start_pq_exchange_by_age E s = (r, s')"
  shows "dr_inv s'"
proof (cases "is_pq_ratchet (dr_suite_id s) \<and> is_pq_initiator s \<and> pq_epoch_is_old E (abandon_unanswered_pq_exchange E s)")
  case True
  let ?s = "abandon_unanswered_pq_exchange E s"
  from True assms(3) have "start_pq_exchange E ?s = (r, s')"
    by (simp add: maybe_start_pq_exchange_by_age_def)
  then show ?thesis
    using exchange_ok_start [of ?s E] abandon_ok [of s E] True assms(1,2) by (simp add: dr_inv_def)
next
  case False
  then have "s' = s \<or> s' = abandon_unanswered_pq_exchange E s"
    using assms(3) by (auto simp: maybe_start_pq_exchange_by_age_def split: if_splits)
  then show ?thesis using assms(2) abandon_ok [of s E] by (auto simp: dr_inv_def)
qed

lemma maybe_advance_inv:
  assumes "draws_ok E" "dr_inv s" "maybe_advance_pq_ratchet E s = (r, s')"
  shows "dr_inv s'"
proof (cases "is_pq_ratchet (dr_suite_id s) \<and> is_pq_initiator s")
  case True
  let ?a = "abandon_unanswered_pq_exchange E s"
  let ?s = "?a\<lparr> pq_turns_since_mix := sat_add (pq_turns_since_mix ?a) 1 \<rparr>"
  have ok: "pq_ok ?s" using abandon_ok [of s E] assms(2) by (simp add: dr_inv_def pq_ok_def)
  have "s' = ?s \<or> start_pq_exchange E ?s = (r, s')"
    using True assms(3) by (auto simp: maybe_advance_pq_ratchet_def split: if_splits)
  then show ?thesis
    using exchange_ok_start [OF ok _ assms(1)] ok True assms(2) by (auto simp: dr_inv_def)
next
  case False
  then have "s' = s" using assms(3) by (auto simp: maybe_advance_pq_ratchet_def split: if_splits)
  then show ?thesis using assms(2) by simp
qed

lemma pq_send_inv:
  assumes "hkdf_total P" "dr_inv s" "pq_send_key P s = (r, s')"
  shows "dr_inv s'"
proof (cases "\<exists>cs i k. step_send_chain P (current_pq_epoch s) (pq_chains s) = Inr (cs, i, k) \<and> s' = s\<lparr> pq_chains := cs \<rparr>")
  case True
  then obtain cs i k where "step_send_chain P (current_pq_epoch s) (pq_chains s) = Inr (cs, i, k)" "s' = s\<lparr> pq_chains := cs \<rparr>"
    by blast
  moreover have "chains_ok (current_pq_epoch s) cs"
    using chains_ok_map [OF _ step_send_chain_map [OF assms(1) calculation(1)]] assms(2)
    by (simp add: dr_inv_def pq_ok_def)
  ultimately show ?thesis using assms(2) by (simp add: dr_inv_def pq_ok_def)
next
  case False
  then have "s' = s"
    using assms(3) by (cases "step_send_chain P (current_pq_epoch s) (pq_chains s)")
      (auto simp: pq_send_key_def Let_def split: if_splits)
  then show ?thesis using assms(2) by simp
qed

lemma encrypt_inv:
  assumes "hkdf_total P" "draws_ok E" "dr_inv s" "encrypt P E pt s = (r, s')"
  shows "dr_inv s'"
proof -
  have "st_keeps dr_inv (maybe_start_pq_exchange_by_age E)" "st_keeps dr_inv (pq_send_key P)"
    using maybe_start_inv [OF assms(2)] pq_send_inv [OF assms(1)] by (metis st_keeps_def prod.collapse)+
  moreover have "dr_inv (s\<lparr> sending_chain_key := a, sending_chain_length := b \<rparr>) = dr_inv s" for s a b
    by (simp add: dr_inv_def)
  ultimately have "st_keeps dr_inv (encrypt P E pt)"
    unfolding encrypt_def Let_def
    by (auto simp: st_keeps_split intro!: st_keeps_bind st_keeps_prim split: prod.splits)
  then show ?thesis using assms(3,4) unfolding st_keeps_def by (metis snd_conv)
qed

lemma cleanup_inv: "dr_inv s \<Longrightarrow> dr_inv (cleanup_old_skipped_keys E age s)"
  by (auto simp: dr_inv_def pq_ok_def cleanup_old_skipped_keys_def Let_def kept_ok_fold_remove
      hm_get_fold_remove split: if_splits)


lemma skip_old_chain_inv:
  assumes "dr_inv s" "skip_old_chain P E old pn s = (Inr r, s')"
  shows "dr_inv s'"
  using assms
proof (induction P E old pn s rule: skip_old_chain.induct)
  case (1 P E old pn s)
  show ?case
  proof (cases "receiving_chain_length s < pn")
    case False
    with "1.prems" show ?thesis by (subst (asm) skip_old_chain.simps) simp
  next
    case lt: True
    let ?full = "unat (max_skipped_messages global_config) \<le> hm_len (skipped_message_keys s)"
    have nf: "\<not> ?full" using "1.prems"(2) lt by (subst (asm) skip_old_chain.simps) auto
    obtain mk nk where k: "kdf_ck P (receiving_chain_key s) = Inr (mk, nk)"
      using "1.prems"(2) lt nf by (subst (asm) skip_old_chain.simps) (auto split: sum.splits)
    let ?s1 = "store_skipped E old mk nk s"
    obtain v where v: "checked_add (receiving_chain_length s) 1 = Some v"
      using "1.prems"(2) lt nf k by (subst (asm) skip_old_chain.simps) (auto simp: Let_def split: option.splits)
    have rest: "skip_old_chain P E old pn (?s1\<lparr> receiving_chain_length := v \<rparr>) = (Inr r, s')"
      using "1.prems"(2) lt nf k v by (subst (asm) skip_old_chain.simps) simp
    have "dr_inv (?s1\<lparr> receiving_chain_length := v \<rparr>)"
      using "1.prems"(1) nf by (simp add: dr_inv_def store_skipped_def kept_ok_insert)
    then show ?thesis using "1.IH" [OF lt nf k refl refl v _ rest] by blast
  qed
qed

lemma walk_chain_inv:
  assumes "dr_inv s" "walk_chain P E dh n s = (Inr r, s')"
  shows "dr_inv s'"
  using assms
proof (induction P E dh n s rule: walk_chain.induct)
  case (1 P E dh n s)
  let ?l = "receiving_chain_length s"
  show ?case
  proof (cases "?l \<le> n")
    case False
    with "1.prems" show ?thesis by (subst (asm) walk_chain.simps) simp
  next
    case le: True
    obtain mk nk where k: "kdf_ck P (receiving_chain_key s) = Inr (mk, nk)"
      using "1.prems"(2) le by (subst (asm) walk_chain.simps) (auto split: sum.splits)
    obtain v where v: "checked_add ?l 1 = Some v"
      using "1.prems"(2) le k by (subst (asm) walk_chain.simps) (auto simp: Let_def split: option.splits if_splits)
    show ?thesis
    proof (cases "?l = n")
      case True
      with "1.prems"(2) le k v have "s' = s\<lparr> receiving_chain_key := nk, receiving_chain_length := v \<rparr>"
        by (subst (asm) walk_chain.simps) simp
      then show ?thesis using "1.prems"(1) by (simp add: dr_inv_def pq_ok_def)
    next
      case ne: False
      let ?s1 = "(store_skipped E dh mk nk s)\<lparr> receiving_chain_length := v \<rparr>"
      have eq: "walk_chain P E dh n s = (if unat (max_skipped_messages global_config) \<le> hm_len (skipped_message_keys ?s1)
          then (Inl TooManySkipped, ?s1) else walk_chain P E dh n ?s1)"
        using le k v ne by (subst walk_chain.simps) simp
      then have lim: "\<not> unat (max_skipped_messages global_config) \<le> hm_len (skipped_message_keys ?s1)"
        and rest: "walk_chain P E dh n ?s1 = (Inr r, s')"
        using "1.prems"(2) by (simp_all split: if_splits)
      have "kept_ok (skipped_message_keys s) (skipped_key_timestamps s)" using "1.prems"(1) by (simp add: dr_inv_def)
      then have "kept_ok (skipped_message_keys ?s1) (skipped_key_timestamps ?s1)"
        using lim by (auto simp: kept_ok_def store_skipped_def hm.get_insert hm.wf_insert)
      then have "dr_inv ?s1" using "1.prems"(1) by (simp add: dr_inv_def)
      then show ?thesis using "1.IH" [OF le k refl ne refl v refl lim _ rest] by blast
    qed
  qed
qed

lemma perform_dh_inv:
  assumes "draws_ok E"
  shows "st_keeps_ok dr_inv (perform_dh_ratchet P E k sec)"
proof -
  have m: "st_keeps_ok dr_inv (maybe_advance_pq_ratchet E)"
    unfolding st_keeps_ok_def using maybe_advance_inv [OF assms] by blast
  have u: "dr_inv (s\<lparr> previous_sending_length := x \<rparr>) = dr_inv s"
    "dr_inv (s\<lparr> root_key := a, receiving_chain_key := b, receiving_chain_length := 0 \<rparr>) = dr_inv s"
    "dr_inv (s\<lparr> root_key := a, receiving_chain_key := b, dr_identity_proof := ip \<rparr>) = dr_inv s"
    "dr_inv (s\<lparr> root_key := a, sending_chain_key := c, sending_chain_length := 0, dh_ratchet_private := dp,
       dh_ratchet_public := dq, remote_dh_public := rd, last_ratchet_at := t \<rparr>) = dr_inv s" for s x a b ip c dp dq rd t
    by (simp_all add: dr_inv_def pq_ok_def)
  show ?thesis
    unfolding perform_dh_ratchet_def
    by (auto simp: st_keeps_ok_split u intro!: st_keeps_ok_bind st_keeps_ok_prim m split: prod.splits)
qed

lemma dh_turn_inv:
  assumes "draws_ok E"
  shows "st_keeps_ok dr_inv (dh_turn P E m sec)"
proof -
  have "st_keeps_ok dr_inv (skip_old_chain P E old pn)" for old pn
    unfolding st_keeps_ok_def using skip_old_chain_inv by blast
  then show ?thesis
    unfolding dh_turn_def
    by (auto intro!: st_keeps_ok_bind st_keeps_ok_prim perform_dh_inv [OF assms] split: option.splits)
qed

lemma pq_receive_loop_ok:
  assumes "hkdf_total P" "kept_ok sk ts" "\<And>k v. hm_get k sk = Some v \<Longrightarrow> length v = 32"
    and "pq_receive_loop P t ep n c sk ts = (r, c', sk', ts')" "length (ch_key c) = 32"
  shows "kept_ok sk' ts' \<and> (\<forall>k v. hm_get k sk' = Some v \<longrightarrow> length v = 32) \<and> length (ch_key c') = 32"
  using assms
proof (induction P t ep n c sk ts rule: pq_receive_loop.induct)
  case (1 P t ep n c sk ts)
  show ?case
  proof (cases "pq_chain_step P c")
    case (Inl e)
    then show ?thesis using "1.prems" by (subst (asm) pq_receive_loop.simps) simp
  next
    case (Inr x)
    obtain c1 i key where x: "pq_chain_step P c = Inr (c1, i, key)" using Inr by (cases x) auto
    note l = pq_chain_step_32 [OF "1.prems"(1) x]
    show ?thesis
    proof (cases "i = n \<or> unat (max_skipped_messages global_config) \<le> hm_len sk")
      case True
      then show ?thesis using "1.prems" x l by (subst (asm) pq_receive_loop.simps) (auto split: if_splits)
    next
      case False
      then have ne: "i \<noteq> n" and lim: "\<not> unat (max_skipped_messages global_config) \<le> hm_len sk" by auto
      have rest: "pq_receive_loop P t ep n c1 (hm_insert (ep, i) key sk) (hm_insert (ep, i) t ts) = (r, c', sk', ts')"
        using "1.prems"(4) x ne lim by (subst (asm) pq_receive_loop.simps) simp
      have "kept_ok (hm_insert (ep, i) key sk) (hm_insert (ep, i) t ts)"
        using "1.prems"(2) lim by (simp add: kept_ok_insert)
      moreover have "length v = 32" if "hm_get k (hm_insert (ep, i) key sk) = Some v" for k v
        using that "1.prems"(3) l(2) by (auto simp: hm.get_insert split: if_splits)
      ultimately show ?thesis using "1.IH" [OF x refl refl ne lim "1.prems"(1) _ _ rest l(1)] by blast
    qed
  qed
qed


lemma find_recv_chain_32:
  assumes "pq_ok s" "find_recv_chain ep s = Some c"
  shows "length (ch_key c) = 32"
proof (cases "find (\<lambda>c. ec_epoch c = ep) (pq_chains s)")
  case (Some ec)
  then have "ec \<in> set (pq_chains s)" by (metis find_Some_iff nth_mem)
  then show ?thesis using assms Some by (auto simp: find_recv_chain_def pq_ok_def chains_ok_def keys32_def)
next
  case None
  then show ?thesis
    using assms by (auto simp: find_recv_chain_def pq_ok_def ciphertext_ok_def keys32_def split: option.splits if_splits)
qed

lemma set_recv_chain_ok:
  assumes "pq_ok s" "length (ch_key c) = 32" "find_recv_chain ep s \<noteq> None"
  shows "pq_ok (set_recv_chain ep c s)"
proof (cases "find (\<lambda>c. ec_epoch c = ep) (pq_chains s)")
  case (Some ec)
  then show ?thesis
    using assms chains_ok_set_recv [of "current_pq_epoch s" "pq_chains s" c ep] by (simp add: set_recv_chain_def pq_ok_def)
next
  case None
  with assms(3) obtain p where "dr_pending_pq_ciphertext s = Some p"
    by (auto simp: find_recv_chain_def split: option.splits)
  then show ?thesis
    using assms(1,2) None by (auto simp: set_recv_chain_def pq_ok_def ciphertext_ok_def keys32_def)
qed

lemma set_recv_chain_frame [simp]:
  "skipped_message_keys (set_recv_chain ep c s) = skipped_message_keys s"
  "skipped_key_timestamps (set_recv_chain ep c s) = skipped_key_timestamps s"
  "current_pq_epoch (set_recv_chain ep c s) = current_pq_epoch s"
  "is_pq_initiator (set_recv_chain ep c s) = is_pq_initiator s"
  "dr_pending_pq_exchange (set_recv_chain ep c s) = dr_pending_pq_exchange s"
  by (simp_all add: set_recv_chain_def split: option.split)

lemma pq_receive_inv:
  assumes "hkdf_total P" "dr_inv s" "pq_receive_key P E ep i s = (r, s')"
  shows "dr_inv s'"
proof (cases "is_pq_ratchet (dr_suite_id s) \<and> ep \<noteq> 0 \<and> hm_get (ep, i) (pq_skipped_keys s) = None \<and> s' \<noteq> s")
  case True
  then obtain c where c: "find_recv_chain ep s = Some c"
    using assms(3) by (auto simp: pq_receive_key_def split: option.splits)
  obtain r1 c' sk' ts' where l: "pq_receive_loop P (now E) ep i c (pq_skipped_keys s) (pq_skipped_key_timestamps s) =
      (r1, c', sk', ts')" by (metis prod_cases4)
  have s': "s' = (set_recv_chain ep c' s)\<lparr> pq_skipped_keys := sk', pq_skipped_key_timestamps := ts' \<rparr>"
    using True assms(3) c l by (auto simp: pq_receive_key_def split: if_splits)
  have ok: "pq_ok s" using assms(2) by (simp add: dr_inv_def)
  have "kept_ok sk' ts' \<and> (\<forall>k v. hm_get k sk' = Some v \<longrightarrow> length v = 32) \<and> length (ch_key c') = 32"
    by (rule pq_receive_loop_ok [OF assms(1) _ _ l find_recv_chain_32 [OF ok c]])
      (use ok in \<open>auto simp: pq_ok_def\<close>)
  moreover from this have "pq_ok (set_recv_chain ep c' s)" using set_recv_chain_ok [OF ok] c by simp
  ultimately show ?thesis using assms(2) by (simp add: s' dr_inv_def pq_ok_def)
next
  case False
  show ?thesis
  proof (cases "s' = s")
    case ne: False
    have pq: "is_pq_ratchet (dr_suite_id s)" "ep \<noteq> 0"
      using ne assms(3) by (auto simp: pq_receive_key_def split: if_splits)
    with False ne obtain k where "hm_get (ep, i) (pq_skipped_keys s) = Some k" by auto
    with pq assms(3) have "s' = s\<lparr> pq_skipped_keys := hm_remove (ep, i) (pq_skipped_keys s),
        pq_skipped_key_timestamps := hm_remove (ep, i) (pq_skipped_key_timestamps s) \<rparr>"
      by (simp add: pq_receive_key_def)
    then show ?thesis using assms(2)
      by (auto simp: dr_inv_def pq_ok_def kept_ok_remove hm.get_remove split: if_splits)
  qed (use assms(2) in simp)
qed

lemma pq_ek_hash_8:
  assumes "hkdf_total P"
  shows "length (pq_ek_hash P ek) = 8"
proof -
  obtain out where "hkdf_derive_key P [] ek (ascii ''construct-pqr-ekhash-v1'') 8 = Inr out" "length out = 8"
    by (rule hkdf_derive_key_total [OF assms, where len = 8]) auto
  then show ?thesis by (simp add: pq_ek_hash_def)
qed

lemma pq_epoch_chains_of_ok:
  assumes "hkdf_total P" "pq_epoch_chains_of P secret ep ini = Inr c"
  shows "ec_epoch c = ep" "keys32 c" "ec_send c \<noteq> None"
proof -
  obtain out where "hkdf_derive_key P [] secret (ascii ''construct-pqr-chains-v2'' @ u32_to_be ep) 64 = Inr out"
    "length out = 64"
    by (rule hkdf_derive_key_total [OF assms(1), where len = 64]) auto
  with assms(2) show "ec_epoch c = ep" "keys32 c" "ec_send c \<noteq> None"
    by (cases ini, auto simp: pq_epoch_chains_of_def keys32_def Let_def)+
qed

lemma insert_epoch_frame [simp]:
  "skipped_message_keys (insert_pq_epoch_chains c s) = skipped_message_keys s"
  "skipped_key_timestamps (insert_pq_epoch_chains c s) = skipped_key_timestamps s"
  "current_pq_epoch (insert_pq_epoch_chains c s) = current_pq_epoch s"
  "is_pq_initiator (insert_pq_epoch_chains c s) = is_pq_initiator s"
  "dr_pending_pq_exchange (insert_pq_epoch_chains c s) = dr_pending_pq_exchange s"
  "dr_pending_pq_ciphertext (insert_pq_epoch_chains c s) = dr_pending_pq_ciphertext s"
  "pq_skipped_keys (insert_pq_epoch_chains c s) = pq_skipped_keys s"
  "pq_skipped_key_timestamps (insert_pq_epoch_chains c s) = pq_skipped_key_timestamps s"
  by (simp_all add: insert_pq_epoch_chains_def Let_def)

lemma sat_add_1_ge: "cur \<le> sat_add cur 1 \<and> sat_add cur 1 \<noteq> 0" for cur :: u32
  using unat_less_power [of cur] by (auto simp: word_le_nat_alt unat_sat_add word_unat_eq_iff)


lemma promote_inv:
  assumes "dr_inv s"
  shows "dr_inv (promote_pending E m s)"
proof (cases "dr_pending_pq_ciphertext s")
  case (Some p)
  show ?thesis
  proof (cases "pc_epoch p \<le> em_pq_message_epoch m")
    case True
    let ?s = "s\<lparr> dr_pending_pq_ciphertext := None, current_pq_epoch := max (current_pq_epoch s) (pc_epoch p) \<rparr>"
    have ct: "\<not> is_pq_initiator s" "current_pq_epoch s < pc_epoch p" "ec_epoch (pc_chains p) = pc_epoch p"
      "keys32 (pc_chains p)" "ec_send (pc_chains p) \<noteq> None"
      using assms Some by (simp_all add: dr_inv_def pq_ok_def ciphertext_ok_def)
    then have mx: "max (current_pq_epoch s) (pc_epoch p) = pc_epoch p" by simp
    have "pc_epoch p \<noteq> 0" using ct(2) by auto
    then have "chains_ok (pc_epoch p) (pq_chains (insert_pq_epoch_chains (pc_chains p) ?s))"
      using chains_ok_insert [of "current_pq_epoch s" ?s "pc_chains p"] ct assms by (simp add: dr_inv_def pq_ok_def)
    moreover have "dr_pending_pq_exchange s = None"
      using assms ct(1) by (auto simp: dr_inv_def pq_ok_def exchange_ok_def split: option.splits)
    ultimately show ?thesis
      using assms Some True by (simp add: promote_pending_def dr_inv_def pq_ok_def exchange_ok_def ciphertext_ok_def mx)
  next
    case False
    then show ?thesis using assms Some by (simp add: promote_pending_def)
  qed
qed (use assms in \<open>simp add: promote_pending_def\<close>)

lemma new_ciphertext_inv:
  assumes "hkdf_total P" "draws_ok E" "dr_inv s" "\<not> is_pq_initiator s" "current_pq_epoch s < ep"
    and "mlkem768_encapsulate E key = Inr (ct, ss)" "pq_epoch_chains_of P ss ep (is_pq_initiator s) = Inr ec"
  shows "dr_inv (s\<lparr> dr_pending_pq_ciphertext := Some \<lparr> pc_epoch = ep, pc_ek_hash = pq_ek_hash P key,
    pc_ciphertext = ct, pc_chains = ec \<rparr> \<rparr>)"
proof -
  have "length ct = MLKEM768_CT_SIZE"
    using assms(2,6) by (auto simp: mlkem768_encapsulate_def draws_ok_def ok_or_def split: if_splits option.splits)
  then show ?thesis
    using assms(3-5) pq_ek_hash_8 [OF assms(1)] pq_epoch_chains_of_ok [OF assms(1,7)]
    by (simp add: dr_inv_def pq_ok_def ciphertext_ok_def)
qed

lemma ingest_public_key_inv:
  assumes "hkdf_total P" "draws_ok E" "dr_inv s"
  shows "dr_inv (ingest_public_key P E ep key s)"
  using assms new_ciphertext_inv [OF assms]
  by (simp add: ingest_public_key_def Let_def not_le split: sum.split prod.split)

lemma new_epoch_inv:
  assumes "hkdf_total P" "dr_inv s" "dr_pending_pq_exchange s = Some ex"
    and "pq_epoch_chains_of P ss (px_epoch ex) (is_pq_initiator s) = Inr ec"
  shows "dr_inv ((insert_pq_epoch_chains ec (s\<lparr> dr_pending_pq_exchange := None, current_pq_epoch := px_epoch ex \<rparr>))
     \<lparr> pq_pending_since := 0, pq_epoch_since := t \<rparr>)"
proof -
  let ?s = "s\<lparr> dr_pending_pq_exchange := None, current_pq_epoch := px_epoch ex \<rparr>"
  have x: "is_pq_initiator s" "px_epoch ex = sat_add (current_pq_epoch s) 1"
    using assms(2,3) by (auto simp: dr_inv_def pq_ok_def exchange_ok_def)
  then have "chains_ok (px_epoch ex) (pq_chains (insert_pq_epoch_chains ec ?s))"
    using chains_ok_insert [of "current_pq_epoch s" ?s ec] pq_epoch_chains_of_ok [OF assms(1,4)] assms(2)
      sat_add_1_ge [of "current_pq_epoch s"]
    by (simp add: dr_inv_def pq_ok_def)
  moreover have "dr_pending_pq_ciphertext s = None"
    using assms(2) x(1) by (auto simp: dr_inv_def pq_ok_def ciphertext_ok_def split: option.splits)
  ultimately show ?thesis
    using assms(2) by (simp add: dr_inv_def pq_ok_def exchange_ok_def ciphertext_ok_def)
qed

lemma ingest_ciphertext_inv:
  assumes "hkdf_total P" "dr_inv s"
  shows "dr_inv (ingest_ciphertext P E ep h ct s)"
  using assms(2) new_epoch_inv [OF assms]
  by (auto simp: ingest_ciphertext_def split: option.split sum.split)

lemma commit_inv:
  assumes "hkdf_total P" "draws_ok E" "dr_inv s"
  shows "dr_inv (commit_pq_post_decrypt P E m s)"
  using assms ingest_public_key_inv [OF assms(1,2)] ingest_ciphertext_inv [OF assms(1)] promote_inv [OF assms(3), of E m]
  by (simp add: commit_pq_post_decrypt_def Let_def split: option.split pq_ratchet_wire_field.split)

lemma decrypt_with_key_inv:
  assumes "hkdf_total P"
  shows "st_keeps_ok dr_inv (decrypt_with_key P E k m)"
proof -
  have "st_keeps_ok dr_inv (pq_receive_key P E ep i)" for ep i
    unfolding st_keeps_ok_def using pq_receive_inv [OF assms] by blast
  moreover have "dr_inv (s\<lparr> peer_ad_version := v \<rparr>) = dr_inv s" for s v by (simp add: dr_inv_def)
  ultimately show ?thesis
    unfolding decrypt_with_key_def
    by (auto simp: st_keeps_ok_split Let_def intro!: st_keeps_ok_bind st_keeps_ok_prim split: prod.splits)
qed

lemma complete_identity_inv [simp]: "dr_inv (complete_identity_proof s) = dr_inv s"
  by (simp add: complete_identity_proof_def dr_inv_def pq_ok_def split: identity_proof.split)

lemma decrypt_ok_inv:
  assumes "hkdf_total P" "draws_ok E"
  shows "st_keeps_ok dr_inv (decrypt_with_identity_secret P E m sec)"
proof -
  have w: "st_keeps_ok dr_inv (walk_chain P E dh n)" for dh n
    unfolding st_keeps_ok_def using walk_chain_inv by blast
  have h: "dr_inv (s\<lparr> dr_prekey_header := None \<rparr>) = dr_inv s" for s by (simp add: dr_inv_def)
  have r: "dr_inv s \<Longrightarrow> dr_inv (s\<lparr> skipped_message_keys := hm_remove k (skipped_message_keys s),
       skipped_key_timestamps := hm_remove k (skipped_key_timestamps s) \<rparr>)" for s k
    by (simp add: dr_inv_def kept_ok_remove)
  have p: "dr_inv s \<Longrightarrow> dr_inv (periodic_cleanup E s)" for s
    by (simp add: periodic_cleanup_def cleanup_inv)
  have s: "st_keeps_ok dr_inv (decrypt_skipped P E m k)" for k
    unfolding decrypt_skipped_def Let_def
    by (intro st_keeps_ok_bind st_keeps_ok_prim st_keeps_ok_inspect r decrypt_with_key_inv commit_inv assms)
  have c: "st_keeps_ok dr_inv (decrypt_on_chain P E m sec)"
    unfolding decrypt_on_chain_def
    by (auto simp: st_keeps_ok_split intro!: st_keeps_ok_bind st_keeps_ok_prim st_keeps_ok_inspect w
        dh_turn_inv decrypt_with_key_inv commit_inv assms split: option.split)
  show ?thesis
    unfolding decrypt_with_identity_secret_def decrypt_message_def
    by (auto simp: h intro!: st_keeps_ok_bind st_keeps_ok_prim p s c split: option.split)
qed

lemma decrypt_inv:
  assumes "hkdf_total P" "draws_ok E" "dr_inv s" "decrypt_with_identity_secret P E m sec s = (r, s')"
  shows "dr_inv s'"
proof (cases r)
  case (Inl e)
  then have "s' = (periodic_cleanup E s)\<lparr> last_ratchet_at := last_ratchet_at s' \<rparr>"
    using decrypt_error assms(4) by blast
  moreover have "dr_inv (periodic_cleanup E s)" using assms(3) by (simp add: periodic_cleanup_def cleanup_inv)
  moreover have "dr_inv (s\<lparr> last_ratchet_at := t \<rparr>) = dr_inv s" for s t by (simp add: dr_inv_def)
  ultimately show ?thesis by metis
next
  case (Inr pt)
  then show ?thesis using decrypt_ok_inv [OF assms(1,2)] assms(3,4) unfolding st_keeps_ok_def by blast
qed


text \<open>What no operation changes: the suite and the ids stay, the peer's AD version only rises, and a
  session of a suite without the post-quantum ratchet keeps that part of its state untouched.\<close>

definition pq_part :: "dr_session \<Rightarrow> _" where
  "pq_part s = (pq_turns_since_mix s, current_pq_epoch s, pq_chains s, pq_skipped_keys s,
    pq_skipped_key_timestamps s, dr_pending_pq_exchange s, dr_pending_pq_ciphertext s, pq_pending_since s)"

definition identity_kept :: "dr_session \<Rightarrow> dr_session \<Rightarrow> bool" where
  "identity_kept s0 s \<longleftrightarrow> dr_suite_id s = dr_suite_id s0 \<and> session_id s = session_id s0 \<and>
    contact_id s = contact_id s0 \<and> local_user_id s = local_user_id s0 \<and>
    is_pq_initiator s = is_pq_initiator s0 \<and> peer_ad_version s0 \<le> peer_ad_version s \<and>
    (\<not> is_pq_ratchet (dr_suite_id s0) \<longrightarrow>
      (pq_part s0 = (0, 0, [], [], [], None, None, 0) \<longrightarrow> pq_part s = (0, 0, [], [], [], None, None, 0)))"

lemmas identity_kept_simps = identity_kept_def pq_part_def

lemma identity_kept_refl [simp]: "identity_kept s s"
  by (simp add: identity_kept_def)

lemma identity_kept_trans: "identity_kept s s1 \<Longrightarrow> identity_kept s1 s2 \<Longrightarrow> identity_kept s s2"
  by (auto simp: identity_kept_def)

lemma maybe_start_identity: "st_keeps (identity_kept s0) (maybe_start_pq_exchange_by_age E)"
  unfolding st_keeps_def
  by (simp add: maybe_start_pq_exchange_by_age_def start_pq_exchange_def mlkem768_keygen_def
      abandon_unanswered_pq_exchange_def Let_def identity_kept_simps split: prod.split)

lemma maybe_advance_identity: "st_keeps (identity_kept s0) (maybe_advance_pq_ratchet E)"
  unfolding st_keeps_def
  by (simp add: maybe_advance_pq_ratchet_def start_pq_exchange_def mlkem768_keygen_def
      abandon_unanswered_pq_exchange_def Let_def identity_kept_simps split: prod.split)

lemma pq_send_identity: "st_keeps (identity_kept s0) (pq_send_key P)"
  unfolding st_keeps_def
proof (intro allI impI)
  fix s assume k: "identity_kept s0 s"
  show "identity_kept s0 (snd (pq_send_key P s))"
  proof (cases "is_pq_ratchet (dr_suite_id s) \<and> current_pq_epoch s \<noteq> 0")
    case True
    then show ?thesis
      using k by (cases "step_send_chain P (current_pq_epoch s) (pq_chains s)")
        (auto simp: pq_send_key_def Let_def identity_kept_simps split: prod.split)
  qed (use k in \<open>auto simp: pq_send_key_def Let_def\<close>)
qed

lemma encrypt_identity:
  assumes "encrypt P E pt s = (r, s')"
  shows "identity_kept s s'"
proof -
  have u: "identity_kept s0 (s\<lparr> sending_chain_key := a, sending_chain_length := b \<rparr>) = identity_kept s0 s" for s0 s a b
    by (simp add: identity_kept_simps)
  have "st_keeps (identity_kept s0) (encrypt P E pt)" for s0
    unfolding encrypt_def Let_def
    by (auto simp: st_keeps_split u intro!: st_keeps_bind st_keeps_prim maybe_start_identity pq_send_identity split: prod.splits)
  then show ?thesis using assms unfolding st_keeps_def by (metis identity_kept_refl snd_conv)
qed

lemma walk_identity: "st_keeps (identity_kept s0) (walk_chain P E dh n)"
  unfolding st_keeps_def
proof (intro allI impI)
  fix s assume "identity_kept s0 s"
  then show "identity_kept s0 (snd (walk_chain P E dh n s))"
  proof (induction P E dh n s rule: walk_chain.induct)
    case (1 P E dh n s)
    then show ?case
      by (subst walk_chain.simps)
        (auto simp: Let_def store_skipped_def identity_kept_simps split: sum.splits option.splits)
  qed
qed

lemma skip_identity: "st_keeps (identity_kept s0) (skip_old_chain P E old pn)"
  unfolding st_keeps_def
proof (intro allI impI)
  fix s assume "identity_kept s0 s"
  then show "identity_kept s0 (snd (skip_old_chain P E old pn s))"
  proof (induction P E old pn s rule: skip_old_chain.induct)
    case (1 P E old pn s)
    then show ?case
      by (subst skip_old_chain.simps)
        (auto simp: Let_def store_skipped_def identity_kept_simps split: sum.splits option.splits)
  qed
qed

lemma perform_dh_identity: "st_keeps (identity_kept s0) (perform_dh_ratchet P E k sec)"
proof -
  have u: "identity_kept s0 (s\<lparr> previous_sending_length := x \<rparr>) = identity_kept s0 s"
    "identity_kept s0 (s\<lparr> root_key := a, receiving_chain_key := b, receiving_chain_length := 0 \<rparr>) = identity_kept s0 s"
    "identity_kept s0 (s\<lparr> root_key := a, receiving_chain_key := b, dr_identity_proof := ip \<rparr>) = identity_kept s0 s"
    "identity_kept s0 (s\<lparr> root_key := a, sending_chain_key := c, sending_chain_length := 0, dh_ratchet_private := dp,
       dh_ratchet_public := dq, remote_dh_public := rd, last_ratchet_at := t \<rparr>) = identity_kept s0 s" for s x a b ip c dp dq rd t
    by (simp_all add: identity_kept_simps)
  show ?thesis
    unfolding perform_dh_ratchet_def
    by (auto simp: st_keeps_split u intro!: st_keeps_bind st_keeps_prim maybe_advance_identity split: prod.splits)
qed

lemma pq_receive_identity: "st_keeps (identity_kept s0) (pq_receive_key P E ep i)"
  unfolding st_keeps_def
proof (intro allI impI)
  fix s assume k: "identity_kept s0 s"
  show "identity_kept s0 (snd (pq_receive_key P E ep i s))"
  proof (cases "is_pq_ratchet (dr_suite_id s) \<and> ep \<noteq> 0")
    case True
    then have pq: "is_pq_ratchet (dr_suite_id s0)" using k by (simp add: identity_kept_def)
    have f: "dr_suite_id (snd (pq_receive_key P E ep i s)) = dr_suite_id s \<and>
        is_pq_initiator (snd (pq_receive_key P E ep i s)) = is_pq_initiator s \<and>
        same_dr s (snd (pq_receive_key P E ep i s)) \<and>
        peer_ad_version (snd (pq_receive_key P E ep i s)) = peer_ad_version s"
      using pq_receive_key_same_dr [of P E ep i s] pq_receive_key_unsnapped [of P E ep i s]
      by (cases "pq_receive_key P E ep i s") (auto simp: same_dr_def unsnapped_def)
    then show ?thesis using k pq by (simp add: identity_kept_def same_dr_def)
  qed (use k in \<open>auto simp: pq_receive_key_def\<close>)
qed


lemma commit_identity: "identity_kept s0 s \<Longrightarrow> identity_kept s0 (commit_pq_post_decrypt P E m s)"
proof (cases "is_pq_ratchet (dr_suite_id s)")
  case True
  assume k: "identity_kept s0 s"
  have "is_pq_initiator (commit_pq_post_decrypt P E m s) = is_pq_initiator s"
    by (simp add: commit_pq_post_decrypt_def promote_pending_def ingest_public_key_def ingest_ciphertext_def
        insert_pq_epoch_chains_def Let_def split: option.split pq_ratchet_wire_field.split sum.split prod.split)
  then show ?thesis
    using k True commit_same_dr [where s = s and P = P and E = E and m = m] by (simp add: identity_kept_def same_dr_def)
qed (simp add: commit_pq_post_decrypt_def)

lemma decrypt_with_key_identity: "st_keeps (identity_kept s0) (decrypt_with_key P E k m)"
proof -
  have "identity_kept s0 s \<Longrightarrow> identity_kept s0 (s\<lparr> peer_ad_version := max (peer_ad_version s) v \<rparr>)" for s v
    by (auto simp: identity_kept_simps intro: order.trans [OF _ max.cobounded1])
  then show ?thesis
    unfolding decrypt_with_key_def
    by (auto simp: st_keeps_split Let_def intro!: st_keeps_bind st_keeps_prim pq_receive_identity split: prod.splits)
qed

lemma periodic_cleanup_identity: "identity_kept s0 s \<Longrightarrow> identity_kept s0 (periodic_cleanup E s)"
  by (simp add: periodic_cleanup_def cleanup_old_skipped_keys_def Let_def identity_kept_simps)

lemma decrypt_ok_identity: "st_keeps_ok (identity_kept s0) (decrypt_with_identity_secret P E m sec)"
proof -
  have h: "identity_kept s0 (s\<lparr> dr_prekey_header := None \<rparr>) = identity_kept s0 s"
    "identity_kept s0 (s\<lparr> skipped_message_keys := a, skipped_key_timestamps := b \<rparr>) = identity_kept s0 s"
    "identity_kept s0 (complete_identity_proof s) = identity_kept s0 s" for s a b
    by (simp_all add: identity_kept_simps complete_identity_proof_def split: identity_proof.split)
  note ok = walk_identity [THEN st_keeps_imp_ok] decrypt_with_key_identity [THEN st_keeps_imp_ok]
    skip_identity [THEN st_keeps_imp_ok] perform_dh_identity [THEN st_keeps_imp_ok]
  have d: "st_keeps_ok (identity_kept s0) (dh_turn P E m sec)"
    unfolding dh_turn_def by (auto intro!: st_keeps_ok_bind st_keeps_ok_prim ok split: option.split)
  have s: "st_keeps_ok (identity_kept s0) (decrypt_skipped P E m k)" for k
    unfolding decrypt_skipped_def Let_def
    by (intro st_keeps_ok_bind st_keeps_ok_prim st_keeps_ok_inspect ok commit_identity) (simp_all add: h)
  have c: "st_keeps_ok (identity_kept s0) (decrypt_on_chain P E m sec)"
    unfolding decrypt_on_chain_def
    by (auto simp: st_keeps_ok_split h intro!: st_keeps_ok_bind st_keeps_ok_prim st_keeps_ok_inspect d ok
        commit_identity split: option.split)
  show ?thesis
    unfolding decrypt_with_identity_secret_def decrypt_message_def
    by (auto simp: h intro!: st_keeps_ok_bind st_keeps_ok_prim periodic_cleanup_identity s c split: option.split)
qed

lemma decrypt_identity:
  assumes "decrypt_with_identity_secret P E m sec s = (r, s')"
  shows "identity_kept s s'"
proof (cases r)
  case (Inl e)
  then have "s' = (periodic_cleanup E s)\<lparr> last_ratchet_at := last_ratchet_at s' \<rparr>"
    using decrypt_error assms by blast
  moreover have "identity_kept s0 (s\<lparr> last_ratchet_at := t \<rparr>) = identity_kept s0 s" for s0 s t
    by (simp add: identity_kept_simps)
  ultimately show ?thesis using periodic_cleanup_identity [of s s E] by (metis identity_kept_refl)
next
  case (Inr pt)
  then show ?thesis
    using decrypt_ok_identity [of s P E m sec] assms unfolding st_keeps_ok_def by (metis identity_kept_refl)
qed

subsection \<open>Reachable sessions\<close>

text \<open>A session as the code can bring it about: made by either constructor, then changed by any
  sequence of its operations, successful or not.\<close>

inductive session_reach :: "primitives \<Rightarrow> dr_session \<Rightarrow> bool" for P where
  initiator: "draws_ok E \<Longrightarrow> is_supported (as_u16 suite) \<Longrightarrow>
    new_initiator_session P E root eph remote contact me suite = Inr s \<Longrightarrow> session_reach P s"
| responder: "draws_ok E \<Longrightarrow> new_responder_session P E root local_identity m contact me = Inr (s, pt) \<Longrightarrow> session_reach P s"
| sends: "session_reach P s \<Longrightarrow> draws_ok E \<Longrightarrow> encrypt P E pt s = (r, s') \<Longrightarrow> session_reach P s'"
| receives: "session_reach P s \<Longrightarrow> draws_ok E \<Longrightarrow> decrypt_with_identity_secret P E m sec s = (r, s') \<Longrightarrow> session_reach P s'"
| answers: "session_reach P s \<Longrightarrow> answer_initiator_identity P secret ct s = (r, s') \<Longrightarrow> session_reach P s'"
| expects: "session_reach P s \<Longrightarrow> session_reach P (expect_identity_answer s)"
| marks: "session_reach P s \<Longrightarrow> session_reach P (mark_pqxdh_v2 a s)"
| header: "session_reach P s \<Longrightarrow> session_reach P (set_prekey_header h s)"
| cleans: "session_reach P s \<Longrightarrow> session_reach P (cleanup_old_skipped_keys E age s)"

definition session_ok :: "dr_session \<Rightarrow> bool" where
  "session_ok s \<longleftrightarrow> dr_inv s \<and> is_supported (as_u16 (dr_suite_id s)) \<and>
    (\<exists>bs. session_id s = hex_encode bs \<and> length bs = 16) \<and> AD_VERSION_LEGACY \<le> peer_ad_version s \<and>
    (is_pq_ratchet (dr_suite_id s) \<or> \<not> is_pq_initiator s \<and> pq_part s = (0, 0, [], [], [], None, None, 0))"

lemma session_ok_step: "session_ok s \<Longrightarrow> dr_inv s' \<Longrightarrow> identity_kept s s' \<Longrightarrow> session_ok s'"
  by (auto simp: session_ok_def identity_kept_def)

lemma fresh_session_ok:
  assumes "is_supported (as_u16 suite)" "length bs = 16" "ini \<longrightarrow> is_pq_ratchet suite"
  shows "session_ok (fresh_session E suite root sending rcv priv pub remote ini (hex_encode bs) contact me)"
  using assms
  by (auto simp: session_ok_def fresh_session_def dr_inv_def pq_ok_def kept_ok_def chains_ok_def exchange_ok_def
      ciphertext_ok_def pq_part_def)

lemma session_id_16:
  assumes "hkdf_total P" "derive_shared_session_id P root a b = Inr sid"
  shows "\<exists>bs. sid = hex_encode bs \<and> length bs = 16"
proof -
  define info where "info = (let (first, second) = (if a \<le> b then (a, b) else (b, a))
    in ascii ''Construct-SessionID-v2'' @ [0] @ first @ [0] @ second)"
  obtain out where "hkdf_derive_key P root (ascii ''construct-session-id'') info 16 = Inr out" "length out = 16"
    by (rule hkdf_derive_key_total [OF assms(1), where len = 16]) auto
  then show ?thesis using assms(2)
    by (auto simp: derive_shared_session_id_def info_def Let_def split: if_splits)
qed

lemma reachable_session_ok:
  assumes "hkdf_total P" "session_reach P s"
  shows "session_ok s"
  using assms(2)
proof induction
  case (initiator E suite root eph remote contact me s)
  from initiator(3) obtain sid r ch pub where s: "derive_shared_session_id P root me contact = Inr sid"
    "s = fresh_session E suite r ch [] eph pub remote (is_pq_ratchet suite) sid contact me"
    by (auto simp: new_initiator_session_def result_iffs)
  obtain bs where "sid = hex_encode bs" "length bs = 16" using session_id_16 [OF assms(1) s(1)] by blast
  then show ?case using fresh_session_ok initiator(2) by (simp add: s(2))
next
  case (responder E root local_identity m contact me s pt)
  from responder(2) obtain sid suite r sn rc priv pub where s12: "derive_shared_session_id P root me contact = Inr sid"
    "suite_new (em_suite_id m) = Inr suite" and
    fin: "(case decrypt P E m (fresh_session E suite r sn rc priv pub (em_dh_public_key m) False sid contact me) of
       (Inl e, _) \<Rightarrow> Inl e | (Inr plaintext, session') \<Rightarrow> Inr (session', plaintext)) = Inr (s, pt)"
    by (auto simp: new_responder_session_def Let_def result_iffs)
  define s0 where "s0 = fresh_session E suite r sn rc priv pub (em_dh_public_key m) False sid contact me"
  have "decrypt P E m s0 = (Inr pt, s)" using fin by (auto simp: s0_def split: prod.splits sum.splits)
  note s = s12 s0_def this
  obtain bs where bs: "sid = hex_encode bs" "length bs = 16" using session_id_16 [OF assms(1) s(1)] by blast
  have "is_supported (as_u16 suite)"
    using s(2) by (auto simp: suite_new_def is_supported_def CLASSIC_def PQ_HYBRID_def PQ_RATCHET_def split: if_splits)
  then have ok: "session_ok s0" using fresh_session_ok bs by (simp add: s(3))
  have "dr_inv s0" using ok by (simp add: session_ok_def)
  then have "dr_inv s" using decrypt_inv [OF assms(1) responder(1)] s(4) unfolding decrypt_def by blast
  then show ?case
    using session_ok_step [OF ok] decrypt_identity s(4) unfolding decrypt_def by blast
next
  case (sends s E pt r s')
  then show ?case
    using encrypt_inv [OF assms(1)] encrypt_identity session_ok_step by (metis session_ok_def)
next
  case (receives s E m sec r s')
  then show ?case
    using decrypt_inv [OF assms(1)] decrypt_identity session_ok_step by (metis session_ok_def)
next
  case (answers s secret ct r s')
  then have "s' = s \<or> (\<exists>a b c. s' = s\<lparr> root_key := a, sending_chain_key := b, dr_identity_proof := c \<rparr>)"
    by (auto simp: answer_initiator_identity_def mix_identity_secret_def split: if_splits prod.splits sum.splits
      simp: st_bind_def)
  then show ?case using answers(3) by (auto simp: session_ok_def dr_inv_def pq_ok_def pq_part_def)
next
  case (cleans s E age)
  have "identity_kept s (cleanup_old_skipped_keys E age s)"
    by (simp add: cleanup_old_skipped_keys_def Let_def identity_kept_simps)
  moreover have "dr_inv (cleanup_old_skipped_keys E age s)"
    using cleans(2) cleanup_inv by (simp add: session_ok_def)
  ultimately show ?case using cleans(2) session_ok_step by blast
qed (auto simp: expect_identity_answer_def mark_pqxdh_v2_def set_prekey_header_def session_ok_def dr_inv_def pq_ok_def pq_part_def)

text \<open>
  C7.  Every session the code can bring about, by either constructor and any sequence of its
  operations whether they succeed or fail, is well formed: at most 1000 kept keys in either table, each
  with its time stamp; at most two post-quantum epochs, in rising order, with a send chain only for the
  current one; a pending exchange only on the initiator's side and a pending ciphertext only on the
  responder's; keys of their fixed sizes; a session id that is the hex form of 16 bytes.
\<close>

theorem session_invariant:
  assumes "hkdf_total P" "session_reach P s"
  shows "session_ok s"
  using assms by (rule reachable_session_ok)

lemma new_initiator_total:
  assumes "hkdf_total P" "length eph = 32" "length remote = 32" "x25519 P eph remote \<noteq> replicate 32 0"
  shows "\<exists>s. new_initiator_session P E root eph remote contact me suite = Inr s"
proof -
  define info where "info = (let (first, second) = (if me \<le> contact then (me, contact) else (contact, me))
    in ascii ''Construct-SessionID-v2'' @ [0] @ first @ [0] @ second)"
  obtain out where "hkdf_derive_key P root (ascii ''construct-session-id'') info 16 = Inr out"
    by (rule hkdf_derive_key_total [OF assms(1), where len = 16]) auto
  then have 1: "derive_shared_session_id P root me contact = Inr (hex_encode out)"
    by (simp add: derive_shared_session_id_def info_def Let_def split: if_splits)
  obtain r where "hkdf_derive_key P (replicate 32 0xFE) root (ascii ''InitialRootKey'') 32 = Inr r"
    by (rule hkdf_derive_key_total [OF assms(1), where len = 32]) auto
  then have 2: "initial_root P root = Inr r" by (simp add: initial_root_def)
  obtain rk ck where "kdf_rk P r (x25519 P eph remote) = Inr (rk, ck)" by (rule kdf_rk_total [OF assms(1)])
  then show ?thesis
    using 1 2 assms(2-4)
    by (simp add: new_initiator_session_def from_private_key_to_public_key_def kem_decapsulate_def Let_def)
qed

lemma sample_draws_ok: "draws_ok sample_draws"
  by (simp add: draws_ok_def sample_draws_def MLKEM768_PK_SIZE_def MLKEM768_SK_SIZE_def MLKEM768_CT_SIZE_def)

lemma sample_initiator:
  "\<exists>s. new_initiator_session sample_primitives sample_draws [1] (replicate 32 7) (replicate 32 8)
    (ascii ''bob'') (ascii ''alice'') suite = Inr s"
proof (rule new_initiator_total [OF sample_hkdf_total])
  have "x25519 sample_primitives (replicate 32 7) (replicate 32 8) = replicate 32 15"
    by (simp add: sample_primitives_def zip_replicate)
  then show "x25519 sample_primitives (replicate 32 7) (replicate 32 8) \<noteq> replicate 32 0"
    by (simp add: replicate_eq_replicate)
qed simp_all

theorem session_invariant_witness:
  "\<exists>s. session_reach sample_primitives s \<and> is_pq_ratchet (dr_suite_id s) \<and> session_ok s"
proof -
  obtain s where s: "new_initiator_session sample_primitives sample_draws [1] (replicate 32 7) (replicate 32 8)
    (ascii ''bob'') (ascii ''alice'') PQ_RATCHET = Inr s"
    using sample_initiator by blast
  then have "session_reach sample_primitives s"
    by (rule session_reach.initiator [OF sample_draws_ok, rotated]) (simp add: is_supported_def PQ_RATCHET_def)
  moreover have "dr_suite_id s = PQ_RATCHET"
    using s by (auto simp: new_initiator_session_def result_iffs fresh_session_def)
  ultimately show ?thesis
    using session_invariant [OF sample_hkdf_total] by (auto simp: is_pq_ratchet_def PQ_RATCHET_def)
qed

end
