(* ===== verification/Ratchet_Storage.thy ===== *)
theory Ratchet_Storage
  imports Ratchet_Invariant "HOL-Library.Product_Lexorder"
begin

text \<open>
  Keeping a session on disk (\<open>src/crypto/messaging/double_ratchet/storage.rs\<close> and the session records of
  \<open>src/cfe/types.rs\<close>): the stored form of a session, the checks on a stored post-quantum state, and the
  record of the file format.  Every session the code can reach passes the checks and is loaded back as it
  was.  The two fields of \<open>SerializableSession\<close> that only older files filled, \<open>skipped_message_keys\<close> and
  \<open>skipped_key_timestamps\<close>, are written empty and never read; they are left out.
\<close>

subsection \<open>The stored forms\<close>

record skipped_key_entry =
  sk_dh_public :: bytes
  sk_msg_number :: u32
  sk_key_bytes :: bytes
  sk_timestamp :: u64

record serializable_prekey_header =
  sh_one_time_prekey_id :: u32
  sh_kyber_prekey_id :: u32
  sh_kem_ciphertext :: bytes
  sh_kem_identity :: bytes

record serializable_pq_chain =
  sc_index :: u32
  sc_key :: bytes

record serializable_pq_epoch_chains =
  se_epoch :: u32
  se_send :: "serializable_pq_chain option"
  se_recv :: serializable_pq_chain

record serializable_pq_skipped_key =
  ss_epoch :: u32
  ss_index :: u32
  ss_key :: bytes
  ss_at :: u64

record serializable_pq_pending_exchange =
  sx_epoch :: u32
  sx_public :: bytes
  sx_secret :: bytes

record serializable_pq_pending_ciphertext =
  sp_epoch :: u32
  sp_ek_hash :: bytes
  sp_ciphertext :: bytes
  sp_chains :: serializable_pq_epoch_chains

record serializable_pq_ratchet_state =
  rs_is_initiator :: bool
  rs_current_epoch :: u32
  rs_chains :: "serializable_pq_epoch_chains list"
  rs_skipped :: "serializable_pq_skipped_key list"
  rs_pending_exchange :: "serializable_pq_pending_exchange option"
  rs_pending_ciphertext :: "serializable_pq_pending_ciphertext option"
  rs_pending_since :: u64
  rs_epoch_since :: u64
  rs_turns_since_mix :: u32

record serializable_session =
  sv_version :: u16
  sv_suite_id :: u16
  sv_root_key :: bytes
  sv_sending_chain_key :: bytes
  sv_sending_chain_length :: u32
  sv_receiving_chain_key :: bytes
  sv_receiving_chain_length :: u32
  sv_dh_ratchet_private :: "bytes option"
  sv_dh_ratchet_public :: bytes
  sv_remote_dh_public :: "bytes option"
  sv_previous_sending_length :: u32
  sv_skipped_keys :: "skipped_key_entry list"
  sv_prekey_header :: "serializable_prekey_header option"
  sv_pq_handshake :: "u8 option"
  sv_session_id :: bytes
  sv_contact_id :: bytes
  sv_local_user_id :: bytes
  sv_last_ratchet_at :: u64
  sv_peer_ad_version :: u8
  sv_pq_authentication :: u8
  sv_pq_applied :: "bool option"
  sv_identity_proof_awaiting :: bool
  sv_identity_proof_ciphertext :: "bytes option"
  sv_pq_ratchet :: "serializable_pq_ratchet_state option"

subsection \<open>Saving\<close>

definition ser_chain :: "pq_chain \<Rightarrow> serializable_pq_chain" where
  "ser_chain ch = \<lparr> sc_index = ch_index ch, sc_key = ch_key ch \<rparr>"

definition ser_epoch_chains :: "pq_epoch_chains \<Rightarrow> serializable_pq_epoch_chains" where
  "ser_epoch_chains c =
    \<lparr> se_epoch = ec_epoch c, se_send = map_option ser_chain (ec_send c), se_recv = ser_chain (ec_recv c) \<rparr>"

definition unser_chain :: "serializable_pq_chain \<Rightarrow> pq_chain" where
  "unser_chain ch = \<lparr> ch_index = sc_index ch, ch_key = sc_key ch \<rparr>"

definition unser_epoch_chains :: "serializable_pq_epoch_chains \<Rightarrow> pq_epoch_chains" where
  "unser_epoch_chains c =
    \<lparr> ec_epoch = se_epoch c, ec_send = map_option unser_chain (se_send c), ec_recv = unser_chain (se_recv c) \<rparr>"

definition ser_skipped_keys :: "dr_session \<Rightarrow> skipped_key_entry list" where
  "ser_skipped_keys s = map (\<lambda>((dh_pub, msg_num), key).
     \<lparr> sk_dh_public = dh_pub, sk_msg_number = msg_num, sk_key_bytes = key,
       sk_timestamp = (case hm_get (dh_pub, msg_num) (skipped_key_timestamps s) of
         None \<Rightarrow> 0 | Some t \<Rightarrow> t) \<rparr>) (skipped_message_keys s)"

definition ser_pq_skipped :: "dr_session \<Rightarrow> serializable_pq_skipped_key list" where
  "ser_pq_skipped s = sort_key (\<lambda>k. (ss_epoch k, ss_index k)) (map (\<lambda>((epoch, index), key).
     \<lparr> ss_epoch = epoch, ss_index = index, ss_key = key,
       ss_at = (case hm_get (epoch, index) (pq_skipped_key_timestamps s) of
         None \<Rightarrow> 0 | Some t \<Rightarrow> t) \<rparr>) (pq_skipped_keys s))"

definition ser_pq_ratchet :: "dr_session \<Rightarrow> serializable_pq_ratchet_state" where
  "ser_pq_ratchet s =
    \<lparr> rs_is_initiator = is_pq_initiator s, rs_current_epoch = current_pq_epoch s,
      rs_chains = map ser_epoch_chains (pq_chains s), rs_skipped = ser_pq_skipped s,
      rs_pending_exchange = map_option (\<lambda>ex. \<lparr> sx_epoch = px_epoch ex,
        sx_public = kp_public (px_keypair ex), sx_secret = kp_secret (px_keypair ex) \<rparr>)
        (dr_pending_pq_exchange s),
      rs_pending_ciphertext = map_option (\<lambda>p. \<lparr> sp_epoch = pc_epoch p, sp_ek_hash = pc_ek_hash p,
        sp_ciphertext = pc_ciphertext p, sp_chains = ser_epoch_chains (pc_chains p) \<rparr>)
        (dr_pending_pq_ciphertext s),
      rs_pending_since = pq_pending_since s, rs_epoch_since = pq_epoch_since s,
      rs_turns_since_mix = pq_turns_since_mix s \<rparr>"

definition to_serializable :: "dr_session \<Rightarrow> serializable_session" where
  "to_serializable s =
    \<lparr> sv_version = 2, sv_suite_id = as_u16 (dr_suite_id s), sv_root_key = root_key s,
      sv_sending_chain_key = sending_chain_key s, sv_sending_chain_length = sending_chain_length s,
      sv_receiving_chain_key = receiving_chain_key s,
      sv_receiving_chain_length = receiving_chain_length s,
      sv_dh_ratchet_private = dh_ratchet_private s, sv_dh_ratchet_public = dh_ratchet_public s,
      sv_remote_dh_public = remote_dh_public s,
      sv_previous_sending_length = previous_sending_length s,
      sv_skipped_keys = ser_skipped_keys s,
      sv_prekey_header = map_option (\<lambda>h.
        \<lparr> sh_one_time_prekey_id = ph_one_time_prekey_id h, sh_kyber_prekey_id = ph_kyber_prekey_id h,
          sh_kem_ciphertext = ph_kem_ciphertext h, sh_kem_identity = ph_kem_identity h \<rparr>)
        (dr_prekey_header s),
      sv_pq_handshake = Some (pq_handshake_as_u8 (dr_pq_handshake s)),
      sv_session_id = session_id s, sv_contact_id = contact_id s, sv_local_user_id = local_user_id s,
      sv_last_ratchet_at = last_ratchet_at s, sv_peer_ad_version = peer_ad_version s,
      sv_pq_authentication = pq_authentication_as_u8 (dr_pq_authentication s),
      sv_pq_applied = pq_applied s,
      sv_identity_proof_awaiting = (dr_identity_proof s = AwaitingAnswer),
      sv_identity_proof_ciphertext =
        (case dr_identity_proof s of Answered ciphertext \<Rightarrow> Some ciphertext | _ \<Rightarrow> None),
      sv_pq_ratchet = (if is_pq_ratchet (dr_suite_id s) then Some (ser_pq_ratchet s) else None) \<rparr>"

subsection \<open>Validation of a stored post-quantum state\<close>

datatype pq_state_error =
    ChainsExceedRetention nat
  | EpochOutside u32 u32
  | ChainKeyLength u32 nat
  | SendChainBehind u32 u32
  | DuplicateEpoch u32
  | NoSendChain u32
  | TooManySkippedKeys nat
  | SkippedKeyLength u32 u32 nat
  | ExchangeEpoch u32 u32
  | ExchangeKeySizes nat nat
  | CiphertextEpoch u32 u32
  | EkHashLength nat
  | CiphertextLength nat
  | CiphertextChainsEpoch u32 u32
  | BothPending

definition PQ_CHAIN_KEY_LEN :: nat where "PQ_CHAIN_KEY_LEN = 32"

definition validate_pq_epoch_chains :: "serializable_pq_epoch_chains \<Rightarrow> pq_state_error + unit" where
  "validate_pq_epoch_chains c =
    (case find (\<lambda>chain. length (sc_key chain) \<noteq> PQ_CHAIN_KEY_LEN)
        (se_recv c # (case se_send c of None \<Rightarrow> [] | Some ch \<Rightarrow> [ch])) of
       Some chain \<Rightarrow> Inl (ChainKeyLength (se_epoch c) (length (sc_key chain)))
     | None \<Rightarrow> Inr ())"

fun validate_chains ::
    "u32 \<Rightarrow> u32 set \<Rightarrow> serializable_pq_epoch_chains list \<Rightarrow> pq_state_error + unit" where
  "validate_chains current seen [] = Inr ()"
| "validate_chains current seen (c # cs) =
    (let epoch = se_epoch c
     in if epoch = 0 \<or> current < epoch then Inl (EpochOutside epoch current)
        else res_bind (validate_pq_epoch_chains c) (\<lambda>_.
          if se_send c \<noteq> None \<and> epoch \<noteq> current then Inl (SendChainBehind epoch current)
          else if epoch \<in> seen then Inl (DuplicateEpoch epoch)
          else validate_chains current (insert epoch seen) cs))"

definition validate_pending_exchange ::
    "u32 \<Rightarrow> serializable_pq_pending_exchange option \<Rightarrow> pq_state_error + unit" where
  "validate_pending_exchange current pending = (case pending of
     None \<Rightarrow> Inr ()
   | Some ex \<Rightarrow>
       if sx_epoch ex \<noteq> sat_add current 1 then Inl (ExchangeEpoch (sx_epoch ex) current)
       else if length (sx_public ex) \<noteq> MLKEM768_PK_SIZE \<or> length (sx_secret ex) \<noteq> MLKEM768_SK_SIZE
       then Inl (ExchangeKeySizes (length (sx_public ex)) (length (sx_secret ex)))
       else Inr ())"

definition validate_pending_ciphertext ::
    "u32 \<Rightarrow> serializable_pq_pending_ciphertext option \<Rightarrow> pq_state_error + unit" where
  "validate_pending_ciphertext current pending = (case pending of
     None \<Rightarrow> Inr ()
   | Some ct \<Rightarrow>
       if sp_epoch ct \<le> current then Inl (CiphertextEpoch (sp_epoch ct) current)
       else if length (sp_ek_hash ct) \<noteq> 8 then Inl (EkHashLength (length (sp_ek_hash ct)))
       else if length (sp_ciphertext ct) \<noteq> MLKEM768_CT_SIZE
       then Inl (CiphertextLength (length (sp_ciphertext ct)))
       else if se_epoch (sp_chains ct) \<noteq> sp_epoch ct
       then Inl (CiphertextChainsEpoch (sp_epoch ct) (se_epoch (sp_chains ct)))
       else validate_pq_epoch_chains (sp_chains ct))"

definition validate_pq_ratchet_state :: "serializable_pq_ratchet_state \<Rightarrow> pq_state_error + unit" where
  "validate_pq_ratchet_state pq =
    (if PQ_CHAIN_RETENTION < length (rs_chains pq)
     then Inl (ChainsExceedRetention (length (rs_chains pq)))
     else
       res_bind (validate_chains (rs_current_epoch pq) {} (rs_chains pq)) (\<lambda>_.
       if 0 < rs_current_epoch pq \<and>
          \<not> list_ex (\<lambda>c. se_epoch c = rs_current_epoch pq \<and> se_send c \<noteq> None) (rs_chains pq)
       then Inl (NoSendChain (rs_current_epoch pq))
       else if unat (max_skipped_messages global_config) < length (rs_skipped pq)
       then Inl (TooManySkippedKeys (length (rs_skipped pq)))
       else (case find (\<lambda>s. length (ss_key s) \<noteq> PQ_CHAIN_KEY_LEN) (rs_skipped pq) of
         Some bad \<Rightarrow> Inl (SkippedKeyLength (ss_epoch bad) (ss_index bad) (length (ss_key bad)))
       | None \<Rightarrow>
           res_bind (validate_pending_exchange (rs_current_epoch pq) (rs_pending_exchange pq)) (\<lambda>_.
           res_bind (validate_pending_ciphertext (rs_current_epoch pq) (rs_pending_ciphertext pq)) (\<lambda>_.
           if rs_pending_exchange pq \<noteq> None \<and> rs_pending_ciphertext pq \<noteq> None then Inl BothPending
           else Inr ())))))"

subsection \<open>Loading\<close>

definition restore_pq_ratchet_state :: "serializable_session \<Rightarrow> dr_session \<Rightarrow> dr_session" where
  "restore_pq_ratchet_state data s =
    (if \<not> is_pq_ratchet (dr_suite_id s) then s
     else (case sv_pq_ratchet data of
        None \<Rightarrow> s
      | Some pq \<Rightarrow> (case validate_pq_ratchet_state pq of
          Inl _ \<Rightarrow> s
        | Inr _ \<Rightarrow> s\<lparr> is_pq_initiator := rs_is_initiator pq, current_pq_epoch := rs_current_epoch pq,
            pq_chains := map unser_epoch_chains (rs_chains pq),
            pq_skipped_keys := fold (\<lambda>k. hm_insert (ss_epoch k, ss_index k) (ss_key k)) (rs_skipped pq)
              (pq_skipped_keys s),
            pq_skipped_key_timestamps := fold (\<lambda>k. hm_insert (ss_epoch k, ss_index k) (ss_at k))
              (rs_skipped pq) (pq_skipped_key_timestamps s),
            dr_pending_pq_exchange := map_option (\<lambda>ex. \<lparr> px_epoch = sx_epoch ex,
              px_keypair = \<lparr> kp_public = sx_public ex, kp_secret = sx_secret ex \<rparr> \<rparr>)
              (rs_pending_exchange pq),
            dr_pending_pq_ciphertext := map_option (\<lambda>p. \<lparr> pc_epoch = sp_epoch p,
              pc_ek_hash = sp_ek_hash p, pc_ciphertext = sp_ciphertext p,
              pc_chains = unser_epoch_chains (sp_chains p) \<rparr>) (rs_pending_ciphertext pq),
            pq_pending_since := rs_pending_since pq, pq_epoch_since := rs_epoch_since pq,
            pq_turns_since_mix := rs_turns_since_mix pq \<rparr>)))"

datatype storage_error =
    UnsupportedSessionVersion u16
  | InvalidSuiteInSession u16
  | SuiteIdOutOfRange u16
  | InvalidSessionIdHex
  | InvalidSessionIdLength nat
  | UnsupportedStateVersion u8
  | ContactMismatch bytes bytes
  | LocalUserMismatch bytes bytes

definition loaded_session :: "serializable_session \<Rightarrow> suite_id \<Rightarrow> dr_session" where
  "loaded_session data suite =
    \<lparr> dr_suite_id = suite, root_key = sv_root_key data,
      sending_chain_key = sv_sending_chain_key data,
      sending_chain_length = sv_sending_chain_length data,
      receiving_chain_key = sv_receiving_chain_key data,
      receiving_chain_length = sv_receiving_chain_length data,
      dh_ratchet_private = sv_dh_ratchet_private data, dh_ratchet_public = sv_dh_ratchet_public data,
      remote_dh_public = sv_remote_dh_public data,
      previous_sending_length = sv_previous_sending_length data,
      skipped_message_keys = fold (\<lambda>e. hm_insert (sk_dh_public e, sk_msg_number e) (sk_key_bytes e))
        (sv_skipped_keys data) [],
      skipped_key_timestamps = fold (\<lambda>e. hm_insert (sk_dh_public e, sk_msg_number e) (sk_timestamp e))
        (sv_skipped_keys data) [],
      dr_prekey_header = map_option (\<lambda>h.
        \<lparr> ph_one_time_prekey_id = sh_one_time_prekey_id h, ph_kyber_prekey_id = sh_kyber_prekey_id h,
          ph_kem_ciphertext = sh_kem_ciphertext h, ph_kem_identity = sh_kem_identity h \<rparr>)
        (sv_prekey_header data),
      dr_pq_handshake = (case sv_pq_handshake data of
        Some v \<Rightarrow> pq_handshake_from_u8 v | None \<Rightarrow> pq_handshake_legacy (sv_pq_applied data)),
      pq_turns_since_mix = 0, is_pq_initiator = False, current_pq_epoch = 0, pq_chains = [],
      pq_skipped_keys = [], pq_skipped_key_timestamps = [], dr_pending_pq_exchange = None,
      dr_pending_pq_ciphertext = None, pq_pending_since = 0, pq_epoch_since = 0,
      session_id = sv_session_id data, contact_id = sv_contact_id data,
      local_user_id = sv_local_user_id data, last_ratchet_at = sv_last_ratchet_at data,
      peer_ad_version = max (sv_peer_ad_version data) AD_VERSION_LEGACY,
      dr_pq_authentication = pq_authentication_from_u8 (sv_pq_authentication data),
      pq_applied = sv_pq_applied data,
      dr_identity_proof = (case sv_identity_proof_ciphertext data of
        Some ciphertext \<Rightarrow> Answered ciphertext
      | None \<Rightarrow> if sv_identity_proof_awaiting data then AwaitingAnswer else NoProof) \<rparr>"

definition from_serializable :: "draws \<Rightarrow> serializable_session \<Rightarrow> storage_error + dr_session" where
  "from_serializable E data =
    (if sv_version data \<noteq> 1 \<and> sv_version data \<noteq> 2
     then Inl (UnsupportedSessionVersion (sv_version data))
     else res_bind (map_err (\<lambda>_. InvalidSuiteInSession (sv_suite_id data)) (suite_new (sv_suite_id data)))
       (\<lambda>suite. Inr (cleanup_old_skipped_keys E (max_skipped_message_age_seconds global_config)
          (restore_pq_ratchet_state data (loaded_session data suite)))))"

definition verify_identity :: "serializable_session \<Rightarrow> bytes \<Rightarrow> bytes \<Rightarrow> storage_error + unit" where
  "verify_identity data expected_contact_id expected_local_user_id =
    (if sv_contact_id data \<noteq> expected_contact_id
     then Inl (ContactMismatch (sv_contact_id data) expected_contact_id)
     else if sv_local_user_id data = [] \<or> expected_local_user_id = [] then Inr ()
     else if sv_local_user_id data \<noteq> expected_local_user_id
     then Inl (LocalUserMismatch (sv_local_user_id data) expected_local_user_id)
     else Inr ())"

lemma hm_get_fold_insert:
  "hm_get k (fold (\<lambda>e. hm_insert (f e) (g e)) xs m) =
    (case map_of (rev (map (\<lambda>e. (f e, g e)) xs)) k of Some v \<Rightarrow> Some v | None \<Rightarrow> hm_get k m)"
  by (induction xs arbitrary: m) (auto simp: hm.get_insert map_of_append map_add_def split: option.split)

lemma hm_get_reload:
  assumes "distinct (map f xs)"
  shows "hm_get k (fold (\<lambda>e. hm_insert (f e) (g e)) xs []) = map_of (map (\<lambda>e. (f e, g e)) xs) k"
proof -
  have "map_of (rev (map (\<lambda>e. (f e, g e)) xs)) = map_of (map (\<lambda>e. (f e, g e)) xs)"
    using assms by (subst map_of_inject_set) (simp_all add: comp_def rev_map [symmetric])
  then show ?thesis by (simp add: hm_get_fold_insert split: option.split)
qed

lemma map_of_pairs_get:
  assumes "hm_wf m"
  shows "map_of (map (\<lambda>(k, v). (k, g k)) m) k = (if hm_get k m = None then None else Some (g k))"
  using assms by (induction m) (auto simp: hm_get_def hm_wf_def)

text \<open>The same session, the order of its tables aside.\<close>

definition same_session :: "dr_session \<Rightarrow> dr_session \<Rightarrow> bool" where
  "same_session a b \<longleftrightarrow>
    b = a\<lparr> skipped_message_keys := skipped_message_keys b, skipped_key_timestamps := skipped_key_timestamps b,
           pq_skipped_keys := pq_skipped_keys b, pq_skipped_key_timestamps := pq_skipped_key_timestamps b \<rparr> \<and>
    (\<forall>k. hm_get k (skipped_message_keys b) = hm_get k (skipped_message_keys a)) \<and>
    (\<forall>k. hm_get k (skipped_key_timestamps b) = hm_get k (skipped_key_timestamps a)) \<and>
    (\<forall>k. hm_get k (pq_skipped_keys b) = hm_get k (pq_skipped_keys a)) \<and>
    (\<forall>k. hm_get k (pq_skipped_key_timestamps b) = hm_get k (pq_skipped_key_timestamps a))"

lemma same_sessionI:
  assumes "b = a\<lparr> skipped_message_keys := sk, skipped_key_timestamps := st, pq_skipped_keys := pk,
      pq_skipped_key_timestamps := pt \<rparr>"
    and "\<And>k. hm_get k sk = hm_get k (skipped_message_keys a)" "\<And>k. hm_get k st = hm_get k (skipped_key_timestamps a)"
    and "\<And>k. hm_get k pk = hm_get k (pq_skipped_keys a)" "\<And>k. hm_get k pt = hm_get k (pq_skipped_key_timestamps a)"
  shows "same_session a b"
  using assms by (simp add: same_session_def)

lemma hm_get_expired:
  "hm_get k (fold hm_remove (filter (\<lambda>k. p (hm_get k st)) (map fst m)) m') =
    (if hm_get k m \<noteq> None \<and> p (hm_get k st) then None else hm_get k m')"
proof -
  have "k \<in> set (map fst m) \<longleftrightarrow> hm_get k m \<noteq> None" by (auto simp: hm_get_def map_of_eq_None_iff)
  then show ?thesis by (simp add: hm_get_fold_remove)
qed

lemma cleanup_same_session:
  assumes "same_session a b"
  shows "same_session (cleanup_old_skipped_keys E age a) (cleanup_old_skipped_keys E age b)"
proof -
  obtain sk st pk pt where b: "b = a\<lparr> skipped_message_keys := sk, skipped_key_timestamps := st,
      pq_skipped_keys := pk, pq_skipped_key_timestamps := pt \<rparr>"
    using assms unfolding same_session_def by blast
  show ?thesis
    using assms
    by (simp add: same_session_def cleanup_old_skipped_keys_def Let_def hm_get_expired b)
qed

lemma unser_ser_chains [simp]: "unser_epoch_chains (ser_epoch_chains c) = c"
  by (cases c; cases "ec_send c") (auto simp: unser_epoch_chains_def ser_epoch_chains_def unser_chain_def ser_chain_def)

lemma ser_epoch_chains_sel [simp]:
  "se_epoch (ser_epoch_chains c) = ec_epoch c" "(se_send (ser_epoch_chains c) = None) = (ec_send c = None)"
  by (simp_all add: ser_epoch_chains_def)

lemma validate_epoch_chains_ok: "keys32 c \<Longrightarrow> validate_pq_epoch_chains (ser_epoch_chains c) = Inr ()"
  by (auto simp: validate_pq_epoch_chains_def ser_epoch_chains_def ser_chain_def keys32_def PQ_CHAIN_KEY_LEN_def
      split: option.splits)

lemma validate_chains_ok:
  assumes "\<And>c. c \<in> set cs \<Longrightarrow> ec_epoch c \<noteq> 0 \<and> ec_epoch c \<le> cur \<and> keys32 c \<and> (ec_send c \<noteq> None \<longrightarrow> ec_epoch c = cur)"
    and "distinct (map ec_epoch cs)" "set (map ec_epoch cs) \<inter> seen = {}"
  shows "validate_chains cur seen (map ser_epoch_chains cs) = Inr ()"
  using assms
proof (induction cs arbitrary: seen)
  case (Cons c cs)
  have c: "ec_epoch c \<noteq> 0 \<and> ec_epoch c \<le> cur \<and> keys32 c \<and> (ec_send c \<noteq> None \<longrightarrow> ec_epoch c = cur)"
    using Cons.prems(1) by simp
  have "validate_chains cur (insert (ec_epoch c) seen) (map ser_epoch_chains cs) = Inr ()"
    using Cons.prems by (intro Cons.IH) auto
  then show ?case
    using c validate_epoch_chains_ok [of c] Cons.prems(3) by (auto simp: Let_def not_less)
qed simp

lemma ser_pq_skipped_mem:
  assumes "x \<in> set (ser_pq_skipped s)" "hm_wf (pq_skipped_keys s)"
  shows "hm_get (ss_epoch x, ss_index x) (pq_skipped_keys s) = Some (ss_key x)"
  using assms by (auto simp: ser_pq_skipped_def hm_get_def hm_wf_def)

lemma validate_of_inv:
  assumes "pq_ok s"
  shows "validate_pq_ratchet_state (ser_pq_ratchet s) = Inr ()"
proof -
  let ?pq = "ser_pq_ratchet s"
  have ch: "chains_ok (current_pq_epoch s) (pq_chains s)" using assms by (simp add: pq_ok_def)
  then have d: "distinct (map ec_epoch (pq_chains s))" by (simp add: chains_ok_def strict_sorted_iff)
  have 1: "validate_chains (current_pq_epoch s) {} (map ser_epoch_chains (pq_chains s)) = Inr ()"
    using ch d unfolding chains_ok_def by (intro validate_chains_ok) auto
  have 2: "list_ex (\<lambda>c. se_epoch c = current_pq_epoch s \<and> se_send c \<noteq> None) (map ser_epoch_chains (pq_chains s))"
    if "current_pq_epoch s \<noteq> 0"
  proof -
    from ch that obtain c where "c \<in> set (pq_chains s)" "ec_epoch c = current_pq_epoch s" "ec_send c \<noteq> None"
      unfolding chains_ok_def by blast
    then show ?thesis by (auto simp: list_ex_iff ser_epoch_chains_def intro!: bexI [of _ c])
  qed
  have 3: "length (ser_pq_skipped s) \<le> unat (max_skipped_messages global_config)"
    using assms by (simp add: pq_ok_def kept_ok_def ser_pq_skipped_def hm_len_def)
  have "length (ss_key x) = 32" if "x \<in> set (ser_pq_skipped s)" for x
    using ser_pq_skipped_mem [OF that] assms by (auto simp: pq_ok_def kept_ok_def)
  then have 4: "find (\<lambda>k. length (ss_key k) \<noteq> PQ_CHAIN_KEY_LEN) (ser_pq_skipped s) = None"
    by (simp add: find_None_iff PQ_CHAIN_KEY_LEN_def)
  have 5: "validate_pending_exchange (current_pq_epoch s) (rs_pending_exchange ?pq) = Inr ()"
    using assms by (auto simp: pq_ok_def exchange_ok_def validate_pending_exchange_def ser_pq_ratchet_def split: option.splits)
  have 6: "validate_pending_ciphertext (current_pq_epoch s) (rs_pending_ciphertext ?pq) = Inr ()"
    using assms validate_epoch_chains_ok
    by (auto simp: pq_ok_def ciphertext_ok_def validate_pending_ciphertext_def ser_pq_ratchet_def
        split: option.splits)
  have 7: "dr_pending_pq_exchange s = None \<or> dr_pending_pq_ciphertext s = None"
    using assms by (auto simp: pq_ok_def exchange_ok_def ciphertext_ok_def split: option.splits)
  have "length (pq_chains s) \<le> PQ_CHAIN_RETENTION" using ch by (simp add: chains_ok_def)
  then show ?thesis
    using 1 2 3 4 5 6 7
    by (auto simp: validate_pq_ratchet_state_def ser_pq_ratchet_def word_neq_0_conv)
qed


lemma reload_skipped:
  assumes "kept_ok (skipped_message_keys s) (skipped_key_timestamps s)"
  shows "hm_get k (fold (\<lambda>e. hm_insert (sk_dh_public e, sk_msg_number e) (sk_key_bytes e)) (ser_skipped_keys s) []) =
      hm_get k (skipped_message_keys s)" (is ?keys)
    and "hm_get k (fold (\<lambda>e. hm_insert (sk_dh_public e, sk_msg_number e) (sk_timestamp e)) (ser_skipped_keys s) []) =
      hm_get k (skipped_key_timestamps s)" (is ?stamps)
proof -
  let ?m = "skipped_message_keys s" and ?g = "\<lambda>k. case hm_get k (skipped_key_timestamps s) of None \<Rightarrow> 0 | Some t \<Rightarrow> t"
  have wf: "hm_wf ?m" using assms by (simp add: kept_ok_def)
  have kept: "(hm_get k ?m = None) = (hm_get k (skipped_key_timestamps s) = None)" using assms unfolding kept_ok_def by blast
  have slots: "map (\<lambda>e. (sk_dh_public e, sk_msg_number e)) (ser_skipped_keys s) = map fst ?m"
    by (auto simp: ser_skipped_keys_def)
  have d: "distinct (map (\<lambda>e. (sk_dh_public e, sk_msg_number e)) (ser_skipped_keys s))"
    using wf by (simp only: slots hm_wf_def)
  have "map (\<lambda>e. ((sk_dh_public e, sk_msg_number e), sk_key_bytes e)) (ser_skipped_keys s) = ?m"
    by (simp add: ser_skipped_keys_def comp_def case_prod_unfold)
  then show ?keys by (simp only: hm_get_reload [OF d]) (simp add: hm_get_def)
  have "map (\<lambda>e. ((sk_dh_public e, sk_msg_number e), sk_timestamp e)) (ser_skipped_keys s) = map (\<lambda>(k, v). (k, ?g k)) ?m"
    by (simp add: ser_skipped_keys_def comp_def case_prod_unfold)
  then show ?stamps
    using kept by (simp only: hm_get_reload [OF d] map_of_pairs_get [OF wf]) (auto split: option.split)
qed

lemma reload_pq_skipped:
  assumes "kept_ok (pq_skipped_keys s) (pq_skipped_key_timestamps s)"
  shows "hm_get k (fold (\<lambda>e. hm_insert (ss_epoch e, ss_index e) (ss_key e)) (ser_pq_skipped s) []) =
      hm_get k (pq_skipped_keys s)" (is ?keys)
    and "hm_get k (fold (\<lambda>e. hm_insert (ss_epoch e, ss_index e) (ss_at e)) (ser_pq_skipped s) []) =
      hm_get k (pq_skipped_key_timestamps s)" (is ?stamps)
proof -
  let ?m = "pq_skipped_keys s" and ?g = "\<lambda>k. case hm_get k (pq_skipped_key_timestamps s) of None \<Rightarrow> 0 | Some t \<Rightarrow> t"
  define xs where "xs = map (\<lambda>((epoch, index), key). \<lparr> ss_epoch = epoch, ss_index = index, ss_key = key,
     ss_at = ?g (epoch, index) \<rparr>) ?m"
  have ser: "ser_pq_skipped s = sort_key (\<lambda>k. (ss_epoch k, ss_index k)) xs"
    by (simp add: ser_pq_skipped_def xs_def)
  have wf: "hm_wf ?m" using assms by (simp add: kept_ok_def)
  have kept: "(hm_get k ?m = None) = (hm_get k (pq_skipped_key_timestamps s) = None)" using assms unfolding kept_ok_def by blast
  have "map (\<lambda>e. (ss_epoch e, ss_index e)) xs = map fst ?m" by (auto simp: xs_def)
  then have dx: "distinct (map (\<lambda>e. (ss_epoch e, ss_index e)) xs)" using wf by (simp only: hm_wf_def)
  then have d: "distinct (map (\<lambda>e. (ss_epoch e, ss_index e)) (ser_pq_skipped s))"
    unfolding ser by (simp add: distinct_map)
  have perm: "map_of (map (\<lambda>e. ((ss_epoch e, ss_index e), f e)) (ser_pq_skipped s)) =
      map_of (map (\<lambda>e. ((ss_epoch e, ss_index e), f e)) xs)" for f :: "serializable_pq_skipped_key \<Rightarrow> 'b"
    using d dx by (subst map_of_inject_set) (simp_all add: comp_def ser)
  have "map (\<lambda>e. ((ss_epoch e, ss_index e), ss_key e)) xs = ?m"
    by (simp add: xs_def comp_def case_prod_unfold)
  then show ?keys by (simp only: hm_get_reload [OF d] perm) (simp add: hm_get_def)
  have "map (\<lambda>e. ((ss_epoch e, ss_index e), ss_at e)) xs = map (\<lambda>(k, v). (k, ?g k)) ?m"
    by (simp add: xs_def comp_def case_prod_unfold)
  then show ?stamps
    using kept by (simp only: hm_get_reload [OF d] perm map_of_pairs_get [OF wf]) (auto split: option.split)
qed

text \<open>What storage keeps of a session: everything, except that \<open>pq_epoch_since\<close> is stored only with the
  post-quantum state.\<close>

definition stored_part :: "dr_session \<Rightarrow> dr_session" where
  "stored_part s = (if is_pq_ratchet (dr_suite_id s) then s else s\<lparr> pq_epoch_since := 0 \<rparr>)"

lemma supported_suite_new: "is_supported (as_u16 suite) \<Longrightarrow> suite_new (as_u16 suite) = Inr suite"
  by (cases suite) (auto simp: is_supported_def suite_new_def CLASSIC_def PQ_HYBRID_def PQ_RATCHET_def)

lemma identity_proof_reload:
  "p \<noteq> AwaitingAnswer \<longrightarrow> (case (case p of Answered ct \<Rightarrow> Some ct | _ \<Rightarrow> None) of None \<Rightarrow> NoProof
    | Some ct \<Rightarrow> Answered ct) = p"
  by (cases p) simp_all

lemma prekey_header_reload:
  "map_option (\<lambda>h. \<lparr> ph_one_time_prekey_id = ph_one_time_prekey_id h, ph_kyber_prekey_id = ph_kyber_prekey_id h,
     ph_kem_ciphertext = ph_kem_ciphertext h, ph_kem_identity = ph_kem_identity h \<rparr>) oh = (oh :: prekey_header option)"
  by (cases oh) simp_all

lemma pending_reload:
  "map_option ((\<lambda>ex. \<lparr> px_epoch = sx_epoch ex, px_keypair = \<lparr> kp_public = sx_public ex, kp_secret = sx_secret ex \<rparr> \<rparr>) \<circ>
    (\<lambda>ex. \<lparr> sx_epoch = px_epoch ex, sx_public = kp_public (px_keypair ex), sx_secret = kp_secret (px_keypair ex) \<rparr>)) e = e"
  "map_option ((\<lambda>p. \<lparr> pc_epoch = sp_epoch p, pc_ek_hash = sp_ek_hash p, pc_ciphertext = sp_ciphertext p,
      pc_chains = unser_epoch_chains (sp_chains p) \<rparr>) \<circ>
    (\<lambda>p. \<lparr> sp_epoch = pc_epoch p, sp_ek_hash = pc_ek_hash p, sp_ciphertext = pc_ciphertext p,
      sp_chains = ser_epoch_chains (pc_chains p) \<rparr>)) c = c"
  by (cases e; simp) (cases c; simp)

lemma restore_same:
  assumes "session_ok s"
  shows "same_session (stored_part s) (restore_pq_ratchet_state (to_serializable s) (loaded_session (to_serializable s) (dr_suite_id s)))"
proof -
  let ?l = "loaded_session (to_serializable s) (dr_suite_id s)"
  have k: "kept_ok (skipped_message_keys s) (skipped_key_timestamps s)" and pq: "pq_ok s"
    using assms by (simp_all add: session_ok_def dr_inv_def)
  have pk: "kept_ok (pq_skipped_keys s) (pq_skipped_key_timestamps s)" using pq by (simp add: pq_ok_def)
  have v: "max (peer_ad_version s) AD_VERSION_LEGACY = peer_ad_version s"
    using assms by (simp add: session_ok_def max.absorb1)
  let ?sk = "fold (\<lambda>e. hm_insert (sk_dh_public e, sk_msg_number e) (sk_key_bytes e)) (ser_skipped_keys s) []"
  let ?st = "fold (\<lambda>e. hm_insert (sk_dh_public e, sk_msg_number e) (sk_timestamp e)) (ser_skipped_keys s) []"
  have l: "?l = s\<lparr> skipped_message_keys := ?sk, skipped_key_timestamps := ?st,
      pq_turns_since_mix := 0, is_pq_initiator := False, current_pq_epoch := 0, pq_chains := [],
      pq_skipped_keys := [], pq_skipped_key_timestamps := [], dr_pending_pq_exchange := None,
      dr_pending_pq_ciphertext := None, pq_pending_since := 0, pq_epoch_since := 0 \<rparr>"
    by (intro dr_session.equality)
      (simp_all add: loaded_session_def to_serializable_def v identity_proof_reload prekey_header_reload
        option.map_comp comp_def)
  show ?thesis
  proof (cases "is_pq_ratchet (dr_suite_id s)")
    case False
    have p: "pq_part s = (0, 0, [], [], [], None, None, 0)" "\<not> is_pq_initiator s"
      using assms False by (auto simp: session_ok_def)
    have r: "restore_pq_ratchet_state (to_serializable s) ?l = ?l"
      using False by (simp add: restore_pq_ratchet_state_def loaded_session_def)
    have "?l = (stored_part s)\<lparr> skipped_message_keys := ?sk, skipped_key_timestamps := ?st, pq_skipped_keys := [],
        pq_skipped_key_timestamps := [] \<rparr>"
      unfolding l using p False by (intro dr_session.equality) (simp_all add: pq_part_def stored_part_def)
    then show ?thesis
      unfolding r by (rule same_sessionI) (use reload_skipped [OF k] p False in \<open>simp_all add: pq_part_def stored_part_def\<close>)
  next
    case True
    let ?r = "restore_pq_ratchet_state (to_serializable s) ?l"
    let ?pk = "fold (\<lambda>k. hm_insert (ss_epoch k, ss_index k) (ss_key k)) (ser_pq_skipped s) []"
    let ?pt = "fold (\<lambda>k. hm_insert (ss_epoch k, ss_index k) (ss_at k)) (ser_pq_skipped s) []"
    have "sv_pq_ratchet (to_serializable s) = Some (ser_pq_ratchet s)" using True by (simp add: to_serializable_def)
    then have r: "?r = ?l\<lparr> is_pq_initiator := is_pq_initiator s, current_pq_epoch := current_pq_epoch s,
        pq_chains := pq_chains s, pq_skipped_keys := ?pk, pq_skipped_key_timestamps := ?pt,
        dr_pending_pq_exchange := dr_pending_pq_exchange s, dr_pending_pq_ciphertext := dr_pending_pq_ciphertext s,
        pq_pending_since := pq_pending_since s, pq_epoch_since := pq_epoch_since s, pq_turns_since_mix := pq_turns_since_mix s \<rparr>"
      using True validate_of_inv [OF pq] pending_reload [unfolded comp_def]
      by (simp add: restore_pq_ratchet_state_def ser_pq_ratchet_def option.map_comp comp_def loaded_session_def map_idI)
    have "?r = (stored_part s)\<lparr> skipped_message_keys := ?sk, skipped_key_timestamps := ?st, pq_skipped_keys := ?pk,
        pq_skipped_key_timestamps := ?pt \<rparr>"
      using True by (subst r) (subst l, intro dr_session.equality, simp_all add: stored_part_def)
    then show ?thesis
      by (rule same_sessionI) (use reload_skipped [OF k] reload_pq_skipped [OF pk] True in \<open>simp_all add: stored_part_def\<close>)
  qed
qed

subsection \<open>The session record of the file format\<close>

record cfe_skipped_key_entry =
  ck_dh_pub :: bytes
  ck_msg_number :: u32
  ck_key_bytes :: bytes
  ck_timestamp :: u64

record cfe_prekey_header =
  cp_one_time_prekey_id :: u32
  cp_kyber_prekey_id :: u32
  cp_kem_ciphertext :: bytes
  cp_kem_identity :: bytes

record cfe_pq_chain =
  cc_index :: u32
  cc_key :: bytes

record cfe_pq_epoch_chains =
  ce_epoch :: u32
  ce_send :: "cfe_pq_chain option"
  ce_recv :: cfe_pq_chain

record cfe_pq_skipped_key =
  cq_epoch :: u32
  cq_index :: u32
  cq_key :: bytes
  cq_at :: u64

record cfe_pq_pending_exchange =
  cx_epoch :: u32
  cx_public :: bytes
  cx_secret :: bytes

record cfe_pq_pending_ciphertext =
  cy_epoch :: u32
  cy_ek_hash :: bytes
  cy_ciphertext :: bytes
  cy_chains :: cfe_pq_epoch_chains

record cfe_pq_ratchet_state =
  cr_is_initiator :: bool
  cr_current_epoch :: u32
  cr_chains :: "cfe_pq_epoch_chains list"
  cr_skipped :: "cfe_pq_skipped_key list"
  cr_pending_exchange :: "cfe_pq_pending_exchange option"
  cr_pending_ciphertext :: "cfe_pq_pending_ciphertext option"
  cr_pending_since :: u64
  cr_turns_since_mix :: u32
  cr_epoch_since :: u64

record cfe_session_fields =
  cf_ver :: u8
  cf_suite_id :: u8
  cf_contact_id :: bytes
  cf_local_uid :: bytes
  cf_session_id :: bytes
  cf_rk :: bytes
  cf_sck :: bytes
  cf_rck :: bytes
  cf_scl :: u32
  cf_rcl :: u32
  cf_psl :: u32
  cf_dh_priv :: "bytes option"
  cf_dh_pub :: bytes
  cf_rdh_pub :: "bytes option"
  cf_skipped :: "cfe_skipped_key_entry list"
  cf_prekey_header :: "cfe_prekey_header option"
  cf_pq_handshake :: "u8 option"
  cf_last_ratchet_at :: u64
  cf_peer_ad_version :: u8
  cf_pq_authentication :: u8
  cf_pq_applied :: "bool option"
  cf_identity_proof_awaiting :: bool
  cf_identity_proof_ciphertext :: "bytes option"
  cf_pqr :: "cfe_pq_ratchet_state option"

record cfe_retired_mark =
  rm_retired_at :: u64
  rm_held_back :: bool

text \<open>A record of a device holds the states the current one replaced, each a record itself.\<close>

datatype cfe_session_state =
  CfeSessionState (cfe_fields: cfe_session_fields) (cfe_previous: "cfe_previous_state list")
    (cfe_retired: "cfe_retired_mark option")
and cfe_previous_state =
  CfePreviousState (prev_retired_at: u64) (prev_state: cfe_session_state) (prev_held_back: bool)

definition cfe_chain :: "serializable_pq_chain \<Rightarrow> cfe_pq_chain" where
  "cfe_chain ch = \<lparr> cc_index = sc_index ch, cc_key = sc_key ch \<rparr>"

definition cfe_epoch_chains :: "serializable_pq_epoch_chains \<Rightarrow> cfe_pq_epoch_chains" where
  "cfe_epoch_chains c =
    \<lparr> ce_epoch = se_epoch c, ce_send = map_option cfe_chain (se_send c), ce_recv = cfe_chain (se_recv c) \<rparr>"

definition serializable_chain :: "cfe_pq_chain \<Rightarrow> serializable_pq_chain" where
  "serializable_chain ch = \<lparr> sc_index = cc_index ch, sc_key = cc_key ch \<rparr>"

definition serializable_epoch_chains :: "cfe_pq_epoch_chains \<Rightarrow> serializable_pq_epoch_chains" where
  "serializable_epoch_chains c =
    \<lparr> se_epoch = ce_epoch c, se_send = map_option serializable_chain (ce_send c),
      se_recv = serializable_chain (ce_recv c) \<rparr>"

definition cfe_pq_state :: "serializable_pq_ratchet_state \<Rightarrow> cfe_pq_ratchet_state" where
  "cfe_pq_state pq =
    \<lparr> cr_is_initiator = rs_is_initiator pq, cr_current_epoch = rs_current_epoch pq,
      cr_chains = map cfe_epoch_chains (rs_chains pq),
      cr_skipped = map (\<lambda>s. \<lparr> cq_epoch = ss_epoch s, cq_index = ss_index s, cq_key = ss_key s,
        cq_at = ss_at s \<rparr>) (rs_skipped pq),
      cr_pending_exchange = map_option (\<lambda>ex. \<lparr> cx_epoch = sx_epoch ex, cx_public = sx_public ex,
        cx_secret = sx_secret ex \<rparr>) (rs_pending_exchange pq),
      cr_pending_ciphertext = map_option (\<lambda>p. \<lparr> cy_epoch = sp_epoch p, cy_ek_hash = sp_ek_hash p,
        cy_ciphertext = sp_ciphertext p, cy_chains = cfe_epoch_chains (sp_chains p) \<rparr>)
        (rs_pending_ciphertext pq),
      cr_pending_since = rs_pending_since pq, cr_turns_since_mix = rs_turns_since_mix pq,
      cr_epoch_since = rs_epoch_since pq \<rparr>"

definition serializable_pq_state :: "cfe_pq_ratchet_state \<Rightarrow> serializable_pq_ratchet_state" where
  "serializable_pq_state pq =
    \<lparr> rs_is_initiator = cr_is_initiator pq, rs_current_epoch = cr_current_epoch pq,
      rs_chains = map serializable_epoch_chains (cr_chains pq),
      rs_skipped = map (\<lambda>s. \<lparr> ss_epoch = cq_epoch s, ss_index = cq_index s, ss_key = cq_key s,
        ss_at = cq_at s \<rparr>) (cr_skipped pq),
      rs_pending_exchange = map_option (\<lambda>ex. \<lparr> sx_epoch = cx_epoch ex, sx_public = cx_public ex,
        sx_secret = cx_secret ex \<rparr>) (cr_pending_exchange pq),
      rs_pending_ciphertext = map_option (\<lambda>p. \<lparr> sp_epoch = cy_epoch p, sp_ek_hash = cy_ek_hash p,
        sp_ciphertext = cy_ciphertext p, sp_chains = serializable_epoch_chains (cy_chains p) \<rparr>)
        (cr_pending_ciphertext pq),
      rs_pending_since = cr_pending_since pq, rs_epoch_since = cr_epoch_since pq,
      rs_turns_since_mix = cr_turns_since_mix pq \<rparr>"

definition to_cfe_v1 :: "serializable_session \<Rightarrow> storage_error + cfe_session_state" where
  "to_cfe_v1 s =
    (if 255 < unat (sv_suite_id s) then Inl (SuiteIdOutOfRange (sv_suite_id s))
     else res_bind (ok_or InvalidSessionIdHex (hex_decode (sv_session_id s))) (\<lambda>session_id_raw.
       if length session_id_raw \<noteq> 16 then Inl (InvalidSessionIdLength (length session_id_raw))
       else Inr (CfeSessionState
         \<lparr> cf_ver = 1, cf_suite_id = ucast (sv_suite_id s), cf_contact_id = sv_contact_id s,
           cf_local_uid = sv_local_user_id s, cf_session_id = session_id_raw, cf_rk = sv_root_key s,
           cf_sck = sv_sending_chain_key s, cf_rck = sv_receiving_chain_key s,
           cf_scl = sv_sending_chain_length s, cf_rcl = sv_receiving_chain_length s,
           cf_psl = sv_previous_sending_length s, cf_dh_priv = sv_dh_ratchet_private s,
           cf_dh_pub = sv_dh_ratchet_public s, cf_rdh_pub = sv_remote_dh_public s,
           cf_skipped = map (\<lambda>e. \<lparr> ck_dh_pub = sk_dh_public e, ck_msg_number = sk_msg_number e,
             ck_key_bytes = sk_key_bytes e, ck_timestamp = sk_timestamp e \<rparr>) (sv_skipped_keys s),
           cf_prekey_header = map_option (\<lambda>h. \<lparr> cp_one_time_prekey_id = sh_one_time_prekey_id h,
             cp_kyber_prekey_id = sh_kyber_prekey_id h, cp_kem_ciphertext = sh_kem_ciphertext h,
             cp_kem_identity = sh_kem_identity h \<rparr>) (sv_prekey_header s),
           cf_pq_handshake = sv_pq_handshake s, cf_last_ratchet_at = sv_last_ratchet_at s,
           cf_peer_ad_version = sv_peer_ad_version s, cf_pq_authentication = sv_pq_authentication s,
           cf_pq_applied = sv_pq_applied s, cf_identity_proof_awaiting = sv_identity_proof_awaiting s,
           cf_identity_proof_ciphertext = sv_identity_proof_ciphertext s,
           cf_pqr = map_option cfe_pq_state (sv_pq_ratchet s) \<rparr> [] None)))"

definition from_cfe_v1 :: "cfe_session_state \<Rightarrow> storage_error + serializable_session" where
  "from_cfe_v1 state =
    (let data = cfe_fields state
     in if cf_ver data \<noteq> 1 then Inl (UnsupportedStateVersion (cf_ver data))
        else Inr
          \<lparr> sv_version = 2, sv_suite_id = ucast (cf_suite_id data), sv_root_key = cf_rk data,
            sv_sending_chain_key = cf_sck data, sv_sending_chain_length = cf_scl data,
            sv_receiving_chain_key = cf_rck data, sv_receiving_chain_length = cf_rcl data,
            sv_dh_ratchet_private = cf_dh_priv data, sv_dh_ratchet_public = cf_dh_pub data,
            sv_remote_dh_public = cf_rdh_pub data, sv_previous_sending_length = cf_psl data,
            sv_skipped_keys = map (\<lambda>e. \<lparr> sk_dh_public = ck_dh_pub e, sk_msg_number = ck_msg_number e,
              sk_key_bytes = ck_key_bytes e, sk_timestamp = ck_timestamp e \<rparr>) (cf_skipped data),
            sv_prekey_header = map_option (\<lambda>h. \<lparr> sh_one_time_prekey_id = cp_one_time_prekey_id h,
              sh_kyber_prekey_id = cp_kyber_prekey_id h, sh_kem_ciphertext = cp_kem_ciphertext h,
              sh_kem_identity = cp_kem_identity h \<rparr>) (cf_prekey_header data),
            sv_pq_handshake = cf_pq_handshake data, sv_session_id = hex_encode (cf_session_id data),
            sv_contact_id = cf_contact_id data, sv_local_user_id = cf_local_uid data,
            sv_last_ratchet_at = cf_last_ratchet_at data, sv_peer_ad_version = cf_peer_ad_version data,
            sv_pq_authentication = cf_pq_authentication data, sv_pq_applied = cf_pq_applied data,
            sv_identity_proof_awaiting = cf_identity_proof_awaiting data,
            sv_identity_proof_ciphertext = cf_identity_proof_ciphertext data,
            sv_pq_ratchet = map_option serializable_pq_state (cf_pqr data) \<rparr>)"

lemma cfe_chains_roundtrip [simp]: "serializable_epoch_chains (cfe_epoch_chains c) = c"
  by (cases c; cases "se_send c")
    (auto simp: serializable_epoch_chains_def cfe_epoch_chains_def serializable_chain_def cfe_chain_def)

lemma map_option_idI: "(\<And>x. f x = x) \<Longrightarrow> map_option f v = v"
  by (cases v) simp_all

lemma cfe_pq_state_roundtrip [simp]: "serializable_pq_state (cfe_pq_state pq) = pq"
  by (simp add: serializable_pq_state_def cfe_pq_state_def comp_def option.map_comp map_idI map_option_idI)

lemma cfe_state_roundtrip:
  assumes "to_cfe_v1 s = Inr c" "sv_version s = 2" "sv_session_id s = hex_encode bs"
  shows "from_cfe_v1 c = Inr s"
proof -
  have "unat (sv_suite_id s) < 256" using assms(1) by (auto simp: to_cfe_v1_def split: if_splits)
  then have "ucast (ucast (sv_suite_id s) :: u8) = sv_suite_id s"
    by (simp add: word_unat_eq_iff unsigned_ucast_eq take_bit_eq_mod unat_mod)
  then show ?thesis
    using assms by (auto simp: to_cfe_v1_def from_cfe_v1_def comp_def option.map_comp map_idI map_option_idI
        split: if_splits)
qed

lemma to_cfe_total:
  assumes "session_ok s"
  obtains c where "to_cfe_v1 (to_serializable s) = Inr c"
  using assms by (auto simp: to_cfe_v1_def to_serializable_def session_ok_def is_supported_def)


lemma reload_serializable:
  assumes "session_ok s"
  obtains s' where "from_serializable E (to_serializable s) = Inr s'"
    "same_session (cleanup_old_skipped_keys E (max_skipped_message_age_seconds global_config) (stored_part s)) s'"
proof -
  have "suite_new (sv_suite_id (to_serializable s)) = Inr (dr_suite_id s)"
    using assms supported_suite_new by (simp add: to_serializable_def session_ok_def)
  moreover have "sv_version (to_serializable s) = 2" by (simp add: to_serializable_def)
  ultimately show ?thesis
    using that cleanup_same_session [OF restore_same [OF assms]] by (simp add: from_serializable_def)
qed

text \<open>
  C10.  A session survives a restart.  Whatever session the code can bring about, turning it into the
  record of the file format succeeds, the record read back gives the stored session, which passes every
  check on its post-quantum state, and the session loaded from it is the one that was stored, key for key
  and time stamp for time stamp, less the kept keys that have expired when it is loaded.
\<close>

theorem session_survives_restart:
  assumes "hkdf_total P" "session_reach P s"
  shows "\<exists>c s'. to_cfe_v1 (to_serializable s) = Inr c \<and> from_cfe_v1 c = Inr (to_serializable s) \<and>
    validate_pq_ratchet_state (ser_pq_ratchet s) = Inr () \<and>
    from_serializable E (to_serializable s) = Inr s' \<and>
    same_session (cleanup_old_skipped_keys E (max_skipped_message_age_seconds global_config) (stored_part s)) s'"
proof -
  have ok: "session_ok s" using assms by (rule reachable_session_ok)
  obtain c where c: "to_cfe_v1 (to_serializable s) = Inr c" by (rule to_cfe_total [OF ok])
  obtain bs where "session_id s = hex_encode bs" using ok by (auto simp: session_ok_def)
  then have "from_cfe_v1 c = Inr (to_serializable s)"
    by (intro cfe_state_roundtrip [OF c]) (simp_all add: to_serializable_def)
  moreover have "validate_pq_ratchet_state (ser_pq_ratchet s) = Inr ()"
    using ok by (intro validate_of_inv) (simp add: session_ok_def dr_inv_def)
  moreover obtain s' where "from_serializable E (to_serializable s) = Inr s'"
    "same_session (cleanup_old_skipped_keys E (max_skipped_message_age_seconds global_config) (stored_part s)) s'"
    by (rule reload_serializable [OF ok])
  ultimately show ?thesis using c by blast
qed

theorem session_survives_restart_witness:
  "\<exists>s c s'. session_reach sample_primitives s \<and> to_cfe_v1 (to_serializable s) = Inr c \<and>
    from_cfe_v1 c = Inr (to_serializable s) \<and> from_serializable sample_draws (to_serializable s) = Inr s'"
proof -
  obtain s where "new_initiator_session sample_primitives sample_draws [1] (replicate 32 7) (replicate 32 8)
    (ascii ''bob'') (ascii ''alice'') PQ_RATCHET = Inr s"
    using sample_initiator by blast
  then have "session_reach sample_primitives s"
    by (rule session_reach.initiator [OF sample_draws_ok, rotated]) (simp add: is_supported_def PQ_RATCHET_def)
  then show ?thesis
    using session_survives_restart [OF sample_hkdf_total, where E = sample_draws] by blast
qed

end
