(* ===== verification/Hybrid_Suite.thy ===== *)
theory Hybrid_Suite
  imports Sample_Primitives
begin

text \<open>
  The hybrid signature suite (\<open>src/crypto/suites/hybrid.rs\<close>): an Ed25519 and an ML-DSA-65 key kept as one
  byte string, signing with both and accepting a signature only when both halves verify.  Its key agreement,
  AEAD and key derivation are those of the classic suite.
\<close>

definition ML_DSA_65_PUBLIC_KEY_SIZE :: nat where "ML_DSA_65_PUBLIC_KEY_SIZE = 1952"
definition ML_DSA_65_SECRET_KEY_SIZE :: nat where "ML_DSA_65_SECRET_KEY_SIZE = 32"
definition ML_DSA_65_SIGNATURE_SIZE :: nat where "ML_DSA_65_SIGNATURE_SIZE = 3309"
definition ED25519_PUBLIC_KEY_SIZE :: nat where "ED25519_PUBLIC_KEY_SIZE = 32"
definition ED25519_SECRET_KEY_SIZE :: nat where "ED25519_SECRET_KEY_SIZE = 32"
definition ED25519_SIGNATURE_SIZE :: nat where "ED25519_SIGNATURE_SIZE = 64"
definition HYBRID_SIG_PUBLIC_KEY_SIZE :: nat where
  "HYBRID_SIG_PUBLIC_KEY_SIZE = ED25519_PUBLIC_KEY_SIZE + ML_DSA_65_PUBLIC_KEY_SIZE"
definition HYBRID_SIG_SECRET_KEY_SIZE :: nat where
  "HYBRID_SIG_SECRET_KEY_SIZE = ED25519_SECRET_KEY_SIZE + ML_DSA_65_SECRET_KEY_SIZE + ML_DSA_65_PUBLIC_KEY_SIZE"
definition HYBRID_SIGNATURE_SIZE :: nat where
  "HYBRID_SIGNATURE_SIZE = ED25519_SIGNATURE_SIZE + ML_DSA_65_SIGNATURE_SIZE"

lemmas hybrid_sizes = ML_DSA_65_PUBLIC_KEY_SIZE_def ML_DSA_65_SECRET_KEY_SIZE_def ML_DSA_65_SIGNATURE_SIZE_def
  ED25519_PUBLIC_KEY_SIZE_def ED25519_SECRET_KEY_SIZE_def ED25519_SIGNATURE_SIZE_def
  HYBRID_SIG_PUBLIC_KEY_SIZE_def HYBRID_SIG_SECRET_KEY_SIZE_def HYBRID_SIGNATURE_SIZE_def

record hybrid_key_parts =
  hk_ed25519_seed :: bytes
  hk_mldsa_seed :: bytes
  hk_mldsa_pk :: bytes

definition split_hybrid_private_key :: "bytes \<Rightarrow> crypto_error + hybrid_key_parts" where
  "split_hybrid_private_key hybrid_sk =
    (if length hybrid_sk \<noteq> HYBRID_SIG_SECRET_KEY_SIZE then Inl InvalidInputError
     else Inr \<lparr> hk_ed25519_seed = take ED25519_SECRET_KEY_SIZE hybrid_sk,
       hk_mldsa_seed = subslice ED25519_SECRET_KEY_SIZE (ED25519_SECRET_KEY_SIZE + ML_DSA_65_SECRET_KEY_SIZE) hybrid_sk,
       hk_mldsa_pk = drop (ED25519_SECRET_KEY_SIZE + ML_DSA_65_SECRET_KEY_SIZE) hybrid_sk \<rparr>)"

definition split_hybrid_public_key :: "bytes \<Rightarrow> crypto_error + (bytes \<times> bytes)" where
  "split_hybrid_public_key hybrid_pk =
    (if length hybrid_pk \<noteq> HYBRID_SIG_PUBLIC_KEY_SIZE then Inl InvalidInputError
     else Inr (take ED25519_PUBLIC_KEY_SIZE hybrid_pk, drop ED25519_PUBLIC_KEY_SIZE hybrid_pk))"

definition split_hybrid_signature :: "bytes \<Rightarrow> crypto_error + (bytes \<times> bytes)" where
  "split_hybrid_signature hybrid_sig =
    (if length hybrid_sig \<noteq> HYBRID_SIGNATURE_SIZE then Inl InvalidInputError
     else Inr (take ED25519_SIGNATURE_SIZE hybrid_sig, drop ED25519_SIGNATURE_SIZE hybrid_sig))"

definition hybrid_signature_keypair_from_seeds :: "primitives \<Rightarrow> bytes \<Rightarrow> bytes \<Rightarrow> bytes \<times> bytes" where
  "hybrid_signature_keypair_from_seeds P ed25519_seed mldsa_seed =
    (let mldsa_pk = mldsa65_vk P mldsa_seed
     in (ed25519_seed @ mldsa_seed @ mldsa_pk, ed25519_vk P ed25519_seed @ mldsa_pk))"

definition hybrid_generate_signature_keys :: "primitives \<Rightarrow> draws \<Rightarrow> crypto_error + (bytes \<times> bytes)" where
  "hybrid_generate_signature_keys P E =
    Inr (hybrid_signature_keypair_from_seeds P (take ED25519_SECRET_KEY_SIZE (drawn_hybrid_seeds E))
      (drop ED25519_SECRET_KEY_SIZE (drawn_hybrid_seeds E)))"

definition hybrid_private_to_public :: "primitives \<Rightarrow> bytes \<Rightarrow> crypto_error + bytes" where
  "hybrid_private_to_public P private_key =
    res_bind (split_hybrid_private_key private_key) (\<lambda>parts.
      Inr (ed25519_vk P (hk_ed25519_seed parts) @ hk_mldsa_pk parts))"

definition hybrid_sign :: "primitives \<Rightarrow> bytes \<Rightarrow> bytes \<Rightarrow> crypto_error + bytes" where
  "hybrid_sign P private_key message =
    (if length private_key \<noteq> HYBRID_SIG_SECRET_KEY_SIZE then Inl InvalidInputError
     else res_bind (split_hybrid_private_key private_key) (\<lambda>parts.
       res_bind (ok_or SigningError (mldsa65_sig P (hk_mldsa_seed parts) message)) (\<lambda>mldsa_sig.
         Inr (ed25519_sig P (hk_ed25519_seed parts) message @ mldsa_sig))))"

definition hybrid_verify :: "primitives \<Rightarrow> bytes \<Rightarrow> bytes \<Rightarrow> bytes \<Rightarrow> crypto_error + unit" where
  "hybrid_verify P public_key message signature =
    res_bind (split_hybrid_public_key public_key) (\<lambda>(ed25519_pk, mldsa_pk).
    res_bind (split_hybrid_signature signature) (\<lambda>(ed_sig, mldsa_sig).
      if \<not> ed25519_vk_ok P ed25519_pk then Inl InvalidInputError
      else if \<not> ed25519_check P ed25519_pk message ed_sig then Inl SignatureVerificationError
      else if \<not> mldsa65_sig_ok P mldsa_sig then Inl InvalidInputError
      else if \<not> mldsa65_check P mldsa_pk message mldsa_sig then Inl SignatureVerificationError
      else Inr ()))"

text \<open>A private key as \<open>hybrid_signature_keypair_from_seeds\<close> makes it.\<close>

definition hybrid_pair :: "primitives \<Rightarrow> bytes \<Rightarrow> bytes \<Rightarrow> bool" where
  "hybrid_pair P sk pk \<longleftrightarrow> (\<exists>ed ml. length ed = 32 \<and> length ml = 32 \<and>
    (sk, pk) = hybrid_signature_keypair_from_seeds P ed ml)"

lemma hybrid_pair_public:
  assumes "mldsa65_correct P" "ed25519_correct P" "hybrid_pair P sk pk"
  shows "hybrid_private_to_public P sk = Inr pk" "length sk = HYBRID_SIG_SECRET_KEY_SIZE"
    "length pk = HYBRID_SIG_PUBLIC_KEY_SIZE"
proof -
  obtain ed ml where s: "length ed = 32" "length ml = 32" "sk = ed @ ml @ mldsa65_vk P ml"
    "pk = ed25519_vk P ed @ mldsa65_vk P ml"
    using assms(3) by (auto simp: hybrid_pair_def hybrid_signature_keypair_from_seeds_def Let_def)
  have l: "length (mldsa65_vk P ml) = 1952" using assms(1) s(2) unfolding mldsa65_correct_def by blast
  have "length (ed25519_vk P ed) = 32" using assms(2) s(1) unfolding ed25519_correct_def by blast
  then show "hybrid_private_to_public P sk = Inr pk" "length sk = HYBRID_SIG_SECRET_KEY_SIZE"
    "length pk = HYBRID_SIG_PUBLIC_KEY_SIZE"
    using s l by (simp_all add: hybrid_private_to_public_def split_hybrid_private_key_def hybrid_sizes)
qed

lemma hybrid_sign_verify:
  assumes "ed25519_correct P" "mldsa65_correct P" "hybrid_pair P sk pk" "hybrid_sign P sk m = Inr sig"
  shows "hybrid_verify P pk m sig = Inr ()" "length sig = HYBRID_SIGNATURE_SIZE" "length pk = HYBRID_SIG_PUBLIC_KEY_SIZE"
proof -
  obtain ed ml where s: "length ed = 32" "length ml = 32" "sk = ed @ ml @ mldsa65_vk P ml"
    "pk = ed25519_vk P ed @ mldsa65_vk P ml"
    using assms(3) by (auto simp: hybrid_pair_def hybrid_signature_keypair_from_seeds_def Let_def)
  have l: "length (mldsa65_vk P ml) = 1952" using assms(2) s(2) unfolding mldsa65_correct_def by blast
  obtain t where t: "mldsa65_sig P ml m = Some t" "sig = ed25519_sig P ed m @ t"
    using assms(4) s l
    by (auto simp: hybrid_sign_def split_hybrid_private_key_def hybrid_sizes subslice_def result_iffs)
  have t2: "length t = 3309 \<and> mldsa65_sig_ok P t \<and> mldsa65_check P (mldsa65_vk P ml) m t"
    using assms(2) s(2) t(1) unfolding mldsa65_correct_def by blast
  have e: "length (ed25519_vk P ed) = 32 \<and> ed25519_vk_ok P (ed25519_vk P ed) \<and>
    length (ed25519_sig P ed m) = 64 \<and> ed25519_check P (ed25519_vk P ed) m (ed25519_sig P ed m)"
    using assms(1) s(1) unfolding ed25519_correct_def by blast
  show "length sig = HYBRID_SIGNATURE_SIZE" "length pk = HYBRID_SIG_PUBLIC_KEY_SIZE"
    using s t t2 e l by (simp_all add: hybrid_sizes)
  then show "hybrid_verify P pk m sig = Inr ()"
    using s t t2 e l by (simp add: hybrid_verify_def split_hybrid_public_key_def split_hybrid_signature_def hybrid_sizes)
qed

text \<open>
  C13.  A hybrid signature is accepted exactly when both of its halves are: the Ed25519 half under the first
  32 bytes of the key and the ML-DSA-65 half under the rest, over the same message, with keys and signatures
  of exactly the fixed sizes.  Neither half alone is enough.
\<close>

theorem hybrid_verify_both:
  "hybrid_verify P pk m sig = Inr () \<longleftrightarrow>
    (\<exists>ed_pk ml_pk ed_sig ml_sig. pk = ed_pk @ ml_pk \<and> sig = ed_sig @ ml_sig \<and>
      length ml_pk = ML_DSA_65_PUBLIC_KEY_SIZE \<and> length ml_sig = ML_DSA_65_SIGNATURE_SIZE \<and>
      verify P ed_pk m ed_sig = Inr () \<and> mldsa65_sig_ok P ml_sig \<and> mldsa65_check P ml_pk m ml_sig)"
  (is "?L \<longleftrightarrow> ?R")
proof
  assume ?L
  then have "length pk = 1984" "length sig = 3373" "verify P (take 32 pk) m (take 64 sig) = Inr ()"
    "mldsa65_sig_ok P (drop 64 sig)" "mldsa65_check P (drop 32 pk) m (drop 64 sig)"
    by (auto simp: hybrid_verify_def split_hybrid_public_key_def split_hybrid_signature_def hybrid_sizes verify_def
        split: if_splits)
  then show ?R
    by (intro exI [of _ "take 32 pk"] exI [of _ "drop 32 pk"] exI [of _ "take 64 sig"] exI [of _ "drop 64 sig"])
      (simp add: hybrid_sizes)
next
  assume ?R
  then show ?L
    by (auto simp: hybrid_verify_def split_hybrid_public_key_def split_hybrid_signature_def hybrid_sizes verify_def
        split: if_splits)
qed

end
