(* ===== verification/Kyber_Prekeys.thy ===== *)
theory Kyber_Prekeys
  imports Hybrid_Suite
begin

text \<open>
  The Kyber (ML-KEM-1024) prekeys (\<open>src/crypto/kyber_prekeys.rs\<close> and its records in \<open>src/cfe/types.rs\<close>):
  the signed prekey with its two-phase rotation and retention, the one-time pool, look-up by id and the stored
  form.  An id names one key for ever, and a rotated-out key is found for fourteen days.
\<close>

definition KYBER_OTPK_ID_START :: u32 where "KYBER_OTPK_ID_START = 1000000"

record kyber_prekey =
  kk_key_id :: u32
  kk_created_at :: u64
  kk_seed :: bytes

record kyber_prekey_upload =
  ku_key_id :: u32
  ku_public_key :: bytes
  ku_created_at :: u64
  ku_signature :: bytes
  ku_hybrid_signature :: bytes

record retired_spk =
  rt_prekey :: kyber_prekey
  rt_retired_at :: u64

record kyber_prekey_store =
  ks_spk :: "kyber_prekey option"
  ks_pending_spk :: "kyber_prekey option"
  ks_retired_spks :: "retired_spk list"
  ks_otpks :: "(u32, kyber_prekey) hmap"
  ks_next_spk_id :: u32
  ks_next_otpk_id :: u32

datatype kyber_error = SpkIdsExhausted | OtpkIdsExhausted | KyberKeygenFailed mlkem_error

definition kyber_default :: kyber_prekey_store where
  "kyber_default = \<lparr> ks_spk = None, ks_pending_spk = None, ks_retired_spks = [], ks_otpks = [],
     ks_next_spk_id = 1, ks_next_otpk_id = KYBER_OTPK_ID_START \<rparr>"

definition kyber_generate :: "primitives \<Rightarrow> draws \<Rightarrow> u32 \<Rightarrow> u64 \<Rightarrow> kyber_error + kyber_prekey" where
  "kyber_generate P E key_id created_at =
    res_bind (map_err KyberKeygenFailed (mlkem1024_generate P E)) (\<lambda>(seed, _).
      Inr \<lparr> kk_key_id = key_id, kk_created_at = created_at, kk_seed = seed \<rparr>)"

definition kyber_public_key :: "primitives \<Rightarrow> kyber_prekey \<Rightarrow> mlkem_error + bytes" where
  "kyber_public_key P k = mlkem1024_public_from_seed P (kk_seed k)"

definition begin_spk_rotation ::
    "primitives \<Rightarrow> draws \<Rightarrow> u64 \<Rightarrow> (kyber_prekey_store, kyber_error, kyber_prekey) eff" where
  "begin_spk_rotation P E now_s s =
    (case ks_pending_spk s of
       Some pending \<Rightarrow> (Inr pending, s)
     | None \<Rightarrow>
         if KYBER_OTPK_ID_START \<le> ks_next_spk_id s then (Inl SpkIdsExhausted, s)
         else (case kyber_generate P E (ks_next_spk_id s) now_s of
           Inl e \<Rightarrow> (Inl e, s)
         | Inr prekey \<Rightarrow>
             (Inr prekey, s\<lparr> ks_next_spk_id := ks_next_spk_id s + 1, ks_pending_spk := Some prekey \<rparr>)))"

definition prune_retired :: "u64 \<Rightarrow> kyber_prekey_store \<Rightarrow> kyber_prekey_store" where
  "prune_retired now_s s = s\<lparr> ks_retired_spks :=
     filter (\<lambda>r. sat_sub now_s (rt_retired_at r) < SPK_RETENTION_AFTER_ROTATION_SECS) (ks_retired_spks s) \<rparr>"

definition commit_spk_rotation :: "u64 \<Rightarrow> kyber_prekey_store \<Rightarrow> bool \<times> kyber_prekey_store" where
  "commit_spk_rotation now_s s =
    (case ks_pending_spk s of
       None \<Rightarrow> (False, s)
     | Some pending \<Rightarrow>
         (let s1 = s\<lparr> ks_pending_spk := None, ks_spk := Some pending \<rparr>;
              s2 = (case ks_spk s of
                 None \<Rightarrow> s1
               | Some previous \<Rightarrow> s1\<lparr> ks_retired_spks := ks_retired_spks s1 @
                   [\<lparr> rt_prekey = previous, rt_retired_at = now_s \<rparr>] \<rparr>)
          in (True, prune_retired now_s s2)))"

definition rollback_spk_rotation :: "kyber_prekey_store \<Rightarrow> kyber_prekey_store" where
  "rollback_spk_rotation s = s\<lparr> ks_pending_spk := None \<rparr>"

text \<open>One draw per key: the list of draws has \<open>count\<close> elements.\<close>

fun generate_otpks ::
    "primitives \<Rightarrow> draws list \<Rightarrow> u64 \<Rightarrow> (kyber_prekey_store, kyber_error, kyber_prekey list) eff" where
  "generate_otpks P [] now_s s = (Inr [], s)"
| "generate_otpks P (E # Es) now_s s =
    (case checked_add (ks_next_otpk_id s) 1 of
       None \<Rightarrow> (Inl OtpkIdsExhausted, s)
     | Some next_id \<Rightarrow> (case kyber_generate P E (ks_next_otpk_id s) now_s of
         Inl e \<Rightarrow> (Inl e, s)
       | Inr prekey \<Rightarrow>
           (case generate_otpks P Es now_s (s\<lparr> ks_next_otpk_id := next_id,
               ks_otpks := hm_insert (ks_next_otpk_id s) prekey (ks_otpks s) \<rparr>) of
              (Inl e, s') \<Rightarrow> (Inl e, s')
            | (Inr out, s') \<Rightarrow> (Inr (prekey # out), s'))))"

definition otpk_count :: "kyber_prekey_store \<Rightarrow> nat" where
  "otpk_count s = hm_len (ks_otpks s)"

definition prune_otpks_below :: "u32 \<Rightarrow> kyber_prekey_store \<Rightarrow> nat \<times> kyber_prekey_store" where
  "prune_otpks_below min_keep_id s =
    (let kept = hm_retain (\<lambda>i _. min_keep_id \<le> i) (ks_otpks s)
     in (hm_len (ks_otpks s) - hm_len kept, s\<lparr> ks_otpks := kept \<rparr>))"

definition remove_otpk :: "u32 \<Rightarrow> kyber_prekey_store \<Rightarrow> kyber_prekey option \<times> kyber_prekey_store" where
  "remove_otpk key_id s = (hm_get key_id (ks_otpks s), s\<lparr> ks_otpks := hm_remove key_id (ks_otpks s) \<rparr>)"

definition held_spks :: "kyber_prekey_store \<Rightarrow> kyber_prekey list" where
  "held_spks s = (case ks_spk s of None \<Rightarrow> [] | Some k \<Rightarrow> [k]) @
     (case ks_pending_spk s of None \<Rightarrow> [] | Some k \<Rightarrow> [k]) @ map rt_prekey (ks_retired_spks s)"

definition kyber_find :: "u32 \<Rightarrow> kyber_prekey_store \<Rightarrow> kyber_prekey option" where
  "kyber_find key_id s =
    (if KYBER_OTPK_ID_START \<le> key_id then hm_get key_id (ks_otpks s)
     else List.find (\<lambda>k. kk_key_id k = key_id) (held_spks s))"

subsection \<open>Persistence\<close>

record cfe_kyber_prekey =
  ckp_key_id :: u32
  ckp_created_at :: u64
  ckp_seed :: bytes

record cfe_retired_kyber_spk =
  crk_prekey :: cfe_kyber_prekey
  crk_retired_at :: u64

record cfe_kyber_prekeys =
  cks_spk :: "cfe_kyber_prekey option"
  cks_pending_spk :: "cfe_kyber_prekey option"
  cks_retired_spks :: "cfe_retired_kyber_spk list"
  cks_otpks :: "cfe_kyber_prekey list"
  cks_next_spk_id :: u32
  cks_next_otpk_id :: u32

definition kyber_prekey_to_cfe :: "kyber_prekey \<Rightarrow> cfe_kyber_prekey" where
  "kyber_prekey_to_cfe k = \<lparr> ckp_key_id = kk_key_id k, ckp_created_at = kk_created_at k, ckp_seed = kk_seed k \<rparr>"

definition kyber_prekey_from_cfe :: "cfe_kyber_prekey \<Rightarrow> kyber_prekey option" where
  "kyber_prekey_from_cfe r = (if length (ckp_seed r) = MLKEM_SEED_SIZE
     then Some \<lparr> kk_key_id = ckp_key_id r, kk_created_at = ckp_created_at r, kk_seed = ckp_seed r \<rparr> else None)"

text \<open>The values of the ordered table, in the order of their keys.\<close>

definition kyber_to_cfe :: "kyber_prekey_store \<Rightarrow> cfe_kyber_prekeys" where
  "kyber_to_cfe s =
    \<lparr> cks_spk = map_option kyber_prekey_to_cfe (ks_spk s),
      cks_pending_spk = map_option kyber_prekey_to_cfe (ks_pending_spk s),
      cks_retired_spks = map (\<lambda>r. \<lparr> crk_prekey = kyber_prekey_to_cfe (rt_prekey r),
        crk_retired_at = rt_retired_at r \<rparr>) (ks_retired_spks s),
      cks_otpks = map (\<lambda>e. kyber_prekey_to_cfe (snd e)) (sort_key fst (ks_otpks s)),
      cks_next_spk_id = ks_next_spk_id s, cks_next_otpk_id = ks_next_otpk_id s \<rparr>"

text \<open>The counters raised past every id that is held.  The sum of a signed prekey's id wraps, as it does in
  a release build.\<close>

definition kyber_counters :: "kyber_prekey_store \<Rightarrow> kyber_prekey_store" where
  "kyber_counters store =
    (let spk_ids = map kk_key_id (held_spks store); otpk_ids = map fst (ks_otpks store)
     in store\<lparr>
       ks_next_spk_id := (if spk_ids = [] then ks_next_spk_id store
         else max (ks_next_spk_id store) (fold max spk_ids 0 + 1)),
       ks_next_otpk_id := (if otpk_ids = [] then ks_next_otpk_id store
         else max (ks_next_otpk_id store) (sat_add (fold max otpk_ids 0) 1)) \<rparr>)"

definition kyber_from_cfe :: "cfe_kyber_prekeys \<Rightarrow> u64 \<Rightarrow> kyber_prekey_store" where
  "kyber_from_cfe record now_s = prune_retired now_s (kyber_counters
     \<lparr> ks_spk = Option.bind (cks_spk record) kyber_prekey_from_cfe,
       ks_pending_spk = Option.bind (cks_pending_spk record) kyber_prekey_from_cfe,
       ks_retired_spks = List.map_filter (\<lambda>r. map_option (\<lambda>prekey. \<lparr> rt_prekey = prekey,
         rt_retired_at = crk_retired_at r \<rparr>) (kyber_prekey_from_cfe (crk_prekey r))) (cks_retired_spks record),
       ks_otpks = fold (\<lambda>k. hm_insert (kk_key_id k) k) (List.map_filter kyber_prekey_from_cfe (cks_otpks record)) [],
       ks_next_spk_id = max (cks_next_spk_id record) 1,
       ks_next_otpk_id = max (cks_next_otpk_id record) KYBER_OTPK_ID_START \<rparr>)"

subsection \<open>The store's invariant\<close>

definition kyber_ok :: "kyber_prekey_store \<Rightarrow> bool" where
  "kyber_ok s \<longleftrightarrow> 1 \<le> ks_next_spk_id s \<and> ks_next_spk_id s \<le> KYBER_OTPK_ID_START \<and>
    KYBER_OTPK_ID_START \<le> ks_next_otpk_id s \<and> distinct (map kk_key_id (held_spks s)) \<and>
    (\<forall>k \<in> set (held_spks s). kk_key_id k < ks_next_spk_id s \<and> length (kk_seed k) = MLKEM_SEED_SIZE) \<and>
    hm_wf (ks_otpks s) \<and>
    (\<forall>i k. (i, k) \<in> set (ks_otpks s) \<longrightarrow> kk_key_id k = i \<and> KYBER_OTPK_ID_START \<le> i \<and> i < ks_next_otpk_id s \<and>
      length (kk_seed k) = MLKEM_SEED_SIZE)"

datatype kyber_op =
    BeginRotation draws u64 | CommitRotation u64 | RollbackRotation | PruneRetired u64
  | GenerateOtpks "draws list" u64 | PruneOtpks u32 | RemoveOtpk u32 | Reload u64

fun kyber_step :: "primitives \<Rightarrow> kyber_op \<Rightarrow> kyber_prekey_store \<Rightarrow> kyber_prekey_store" where
  "kyber_step P (BeginRotation E t) s = snd (begin_spk_rotation P E t s)"
| "kyber_step P (CommitRotation t) s = snd (commit_spk_rotation t s)"
| "kyber_step P RollbackRotation s = rollback_spk_rotation s"
| "kyber_step P (PruneRetired t) s = prune_retired t s"
| "kyber_step P (GenerateOtpks Es t) s = snd (generate_otpks P Es t s)"
| "kyber_step P (PruneOtpks i) s = snd (prune_otpks_below i s)"
| "kyber_step P (RemoveOtpk i) s = snd (remove_otpk i s)"
| "kyber_step P (Reload t) s = kyber_from_cfe (kyber_to_cfe s) t"

fun kyber_op_ok :: "kyber_op \<Rightarrow> bool" where
  "kyber_op_ok (BeginRotation E t) = (length (drawn_mlkem1024_seed E) = MLKEM_SEED_SIZE)"
| "kyber_op_ok (GenerateOtpks Es t) = list_all (\<lambda>E. length (drawn_mlkem1024_seed E) = MLKEM_SEED_SIZE) Es"
| "kyber_op_ok _ = True"

definition kyber_held :: "kyber_prekey_store \<Rightarrow> kyber_prekey set" where
  "kyber_held s = set (held_spks s) \<union> snd ` set (ks_otpks s)"

definition kyber_unused :: "kyber_prekey_store \<Rightarrow> u32 \<Rightarrow> bool" where
  "kyber_unused s i \<longleftrightarrow> (if KYBER_OTPK_ID_START \<le> i then ks_next_otpk_id s \<le> i else ks_next_spk_id s \<le> i)"

text \<open>What every operation does to the keys held and to the counters.\<close>

definition kyber_grows :: "kyber_prekey_store \<Rightarrow> kyber_prekey_store \<Rightarrow> bool" where
  "kyber_grows s s' \<longleftrightarrow> kyber_ok s' \<and> ks_next_spk_id s \<le> ks_next_spk_id s' \<and> ks_next_otpk_id s \<le> ks_next_otpk_id s' \<and>
    (\<forall>k \<in> kyber_held s'. k \<in> kyber_held s \<or> kyber_unused s (kk_key_id k))"

lemma find_distinct:
  assumes "distinct (map f xs)"
  shows "List.find (\<lambda>x. f x = v) xs = Some k \<longleftrightarrow> k \<in> set xs \<and> f k = v"
  using assms by (induction xs) auto

lemma kyber_find_iff:
  assumes "kyber_ok s"
  shows "kyber_find i s = Some k \<longleftrightarrow> k \<in> kyber_held s \<and> kk_key_id k = i"
proof -
  have spk: "kk_key_id k < KYBER_OTPK_ID_START" if "k \<in> set (held_spks s)" for k
    using assms that unfolding kyber_ok_def by (meson order.strict_trans2)
  have otpk: "kk_key_id k = j \<and> KYBER_OTPK_ID_START \<le> j" if "(j, k) \<in> set (ks_otpks s)" for j k
    using assms that unfolding kyber_ok_def by fast
  have d: "distinct (map fst (ks_otpks s))" "distinct (map kk_key_id (held_spks s))"
    using assms by (simp_all add: kyber_ok_def hm_wf_def)
  show ?thesis
  proof (cases "KYBER_OTPK_ID_START \<le> i")
    case True
    then have "kyber_find i s = Some k \<longleftrightarrow> (i, k) \<in> set (ks_otpks s)"
      using d(1) by (simp add: kyber_find_def hm_get_def)
    also have "\<dots> \<longleftrightarrow> k \<in> kyber_held s \<and> kk_key_id k = i"
      using spk [of k] otpk True by (force simp: kyber_held_def)
    finally show ?thesis .
  next
    case False
    then have "kyber_find i s = Some k \<longleftrightarrow> k \<in> set (held_spks s) \<and> kk_key_id k = i"
      using find_distinct [OF d(2)] by (simp add: kyber_find_def)
    also have "\<dots> \<longleftrightarrow> k \<in> kyber_held s \<and> kk_key_id k = i"
      using otpk False by (force simp: kyber_held_def)
    finally show ?thesis .
  qed
qed

lemma kyber_grows_refl: "kyber_ok s \<Longrightarrow> kyber_grows s s"
  by (simp add: kyber_grows_def)

lemma kyber_grows_trans: "kyber_grows s s1 \<Longrightarrow> kyber_grows s1 s2 \<Longrightarrow> kyber_grows s s2"
  unfolding kyber_grows_def kyber_unused_def by (smt (verit) order.trans)

lemma kyber_held_unused:
  assumes "kyber_ok s" "k \<in> kyber_held s"
  shows "\<not> kyber_unused s (kk_key_id k)"
proof -
  have spk: "kk_key_id k < ks_next_spk_id s" "kk_key_id k < KYBER_OTPK_ID_START" if "k \<in> set (held_spks s)"
    using assms(1) that unfolding kyber_ok_def by (auto intro: order.strict_trans2)
  have otpk: "kk_key_id k < ks_next_otpk_id s" "KYBER_OTPK_ID_START \<le> kk_key_id k" if "(j, k) \<in> set (ks_otpks s)" for j
    using assms(1) that unfolding kyber_ok_def by fast+
  consider "k \<in> set (held_spks s)" | j where "(j, k) \<in> set (ks_otpks s)"
    using assms(2) by (auto simp: kyber_held_def)
  then show ?thesis
  proof cases
    case 1
    then show ?thesis using spk by (auto simp: kyber_unused_def dest: leD)
  next
    case 2
    then show ?thesis using otpk by (auto simp: kyber_unused_def dest: leD)
  qed
qed

text \<open>A store with fewer keys and the same counters.\<close>

lemma kyber_shrink:
  assumes "kyber_ok s" "ks_next_spk_id s' = ks_next_spk_id s" "ks_next_otpk_id s' = ks_next_otpk_id s"
    and "set (held_spks s') \<subseteq> set (held_spks s)" "distinct (map kk_key_id (held_spks s'))"
    and "set (ks_otpks s') \<subseteq> set (ks_otpks s)" "hm_wf (ks_otpks s')"
  shows "kyber_grows s s'"
proof -
  have "kyber_ok s'" using assms unfolding kyber_ok_def by auto
  moreover have "kyber_held s' \<subseteq> kyber_held s" using assms(4,6) by (auto simp: kyber_held_def)
  ultimately show ?thesis using assms(2,3) by (auto simp: kyber_grows_def)
qed

lemma held_spks_prune: "held_spks (prune_retired t s) =
    (case ks_spk s of None \<Rightarrow> [] | Some k \<Rightarrow> [k]) @ (case ks_pending_spk s of None \<Rightarrow> [] | Some k \<Rightarrow> [k]) @
    map rt_prekey (filter (\<lambda>r. sat_sub t (rt_retired_at r) < SPK_RETENTION_AFTER_ROTATION_SECS) (ks_retired_spks s))"
  by (simp add: held_spks_def prune_retired_def cong: option.case_cong)

lemma prune_retired_grows:
  assumes "kyber_ok s"
  shows "kyber_grows s (prune_retired t s)"
proof (rule kyber_shrink [OF assms])
  have d: "distinct (map kk_key_id (held_spks s))" using assms by (simp add: kyber_ok_def)
  show "set (held_spks (prune_retired t s)) \<subseteq> set (held_spks s)"
    by (auto simp: held_spks_prune held_spks_def [of s])
  show "distinct (map kk_key_id (held_spks (prune_retired t s)))"
    using d by (auto simp: held_spks_prune held_spks_def [of s] distinct_map_filter split: option.splits)
qed (use assms in \<open>simp_all add: prune_retired_def kyber_ok_def\<close>)

lemma commit_unfold:
  assumes "ks_pending_spk s = Some p"
  shows "snd (commit_spk_rotation t s) = prune_retired t (s\<lparr> ks_pending_spk := None, ks_spk := Some p,
     ks_retired_spks := ks_retired_spks s @ (case ks_spk s of None \<Rightarrow> [] | Some k \<Rightarrow> [\<lparr> rt_prekey = k, rt_retired_at = t \<rparr>]) \<rparr>)"
  using assms by (cases "ks_spk s") (simp_all add: commit_spk_rotation_def Let_def)

lemma commit_grows:
  assumes "kyber_ok s"
  shows "kyber_grows s (snd (commit_spk_rotation t s))"
proof (cases "ks_pending_spk s")
  case None
  then show ?thesis using assms by (simp add: commit_spk_rotation_def kyber_grows_refl)
next
  case (Some p)
  let ?s = "s\<lparr> ks_pending_spk := None, ks_spk := Some p,
     ks_retired_spks := ks_retired_spks s @ (case ks_spk s of None \<Rightarrow> [] | Some k \<Rightarrow> [\<lparr> rt_prekey = k, rt_retired_at = t \<rparr>]) \<rparr>"
  have "kyber_grows s ?s"
    by (rule kyber_shrink [OF assms]) (use assms Some in \<open>auto simp: held_spks_def kyber_ok_def split: option.splits\<close>)
  moreover from this have "kyber_grows ?s (prune_retired t ?s)"
    by (intro prune_retired_grows) (simp add: kyber_grows_def)
  ultimately show ?thesis unfolding commit_unfold [OF Some] by (rule kyber_grows_trans)
qed

lemma begin_grows:
  assumes "kyber_ok s" "length (drawn_mlkem1024_seed E) = MLKEM_SEED_SIZE"
  shows "kyber_grows s (snd (begin_spk_rotation P E t s))"
proof (cases "ks_pending_spk s = None \<and> \<not> KYBER_OTPK_ID_START \<le> ks_next_spk_id s")
  case False
  then show ?thesis using assms(1) by (auto simp: begin_spk_rotation_def kyber_grows_refl split: option.splits)
next
  case True
  let ?n = "ks_next_spk_id s"
  let ?k = "\<lparr> kk_key_id = ?n, kk_created_at = t, kk_seed = drawn_mlkem1024_seed E \<rparr>"
  let ?s = "s\<lparr> ks_next_spk_id := ?n + 1, ks_pending_spk := Some ?k \<rparr>"
  have s: "snd (begin_spk_rotation P E t s) = ?s"
    using True by (simp add: begin_spk_rotation_def kyber_generate_def mlkem1024_generate_def)
  have n: "?n < ?n + 1" "?n + 1 \<le> KYBER_OTPK_ID_START" "?n < KYBER_OTPK_ID_START"
    using True inc_le [of ?n KYBER_OTPK_ID_START]
    by (simp_all add: not_le) (metis inc_less_eq_self_iff_eq inc_le not_le order.strict_trans1 order_le_less max_word_max word_order.extremum_strict)
  have h: "set (held_spks ?s) = insert ?k (set (held_spks s))"
    "distinct (map kk_key_id (held_spks ?s))"
    using True assms(1) unfolding kyber_ok_def by (auto simp: held_spks_def split: option.splits)
  have "kyber_ok ?s"
    using assms n h unfolding kyber_ok_def by (auto intro: order.strict_trans)
  moreover have "kyber_held ?s = insert ?k (kyber_held s)" using h(1) by (simp add: kyber_held_def)
  moreover have "kyber_unused s ?n" using n(3) by (simp add: kyber_unused_def not_le [symmetric])
  ultimately show ?thesis using n(1) by (auto simp: s kyber_grows_def)
qed

lemma hm_insert_fresh: "hm_get k m = None \<Longrightarrow> hm_insert k v m = m @ [(k, v)]"
  by (induction m) (auto simp: hm_get_def hm_insert_def split: if_splits)

lemma hm_insert_all:
  "distinct (map f xs) \<Longrightarrow> (\<And>x. x \<in> set xs \<Longrightarrow> hm_get (f x) m = None) \<Longrightarrow>
    fold (\<lambda>x. hm_insert (f x) (g x)) xs m = m @ map (\<lambda>x. (f x, g x)) xs"
proof (induction xs arbitrary: m)
  case (Cons x xs)
  have "hm_get (f y) (m @ [(f x, g x)]) = None" if "y \<in> set xs" for y
  proof -
    have "f y \<noteq> f x" using Cons.prems(1) that by (metis distinct.simps(2) list.simps(9) image_eqI list.set_map)
    then show ?thesis using Cons.prems(2) that by (simp add: hm_get_def map_add_def)
  qed
  then show ?case using Cons by (simp add: hm_insert_fresh)
qed simp

lemma generate_grows:
  assumes "kyber_ok s" "list_all (\<lambda>E. length (drawn_mlkem1024_seed E) = MLKEM_SEED_SIZE) Es"
  shows "kyber_grows s (snd (generate_otpks P Es t s))"
  using assms
proof (induction P Es t s rule: generate_otpks.induct)
  case (2 P E Es t s)
  let ?n = "ks_next_otpk_id s"
  let ?k = "\<lparr> kk_key_id = ?n, kk_created_at = t, kk_seed = drawn_mlkem1024_seed E \<rparr>"
  have g: "kyber_generate P E ?n t = Inr ?k" by (simp add: kyber_generate_def mlkem1024_generate_def)
  show ?case
  proof (cases "checked_add ?n 1")
    case (Some v)
    let ?s = "s\<lparr> ks_next_otpk_id := v, ks_otpks := hm_insert ?n ?k (ks_otpks s) \<rparr>"
    have v: "unat v = Suc (unat ?n)" using checked_add_SomeD(1) [OF Some] by simp
    then have lt: "?n < v" by (simp add: word_less_nat_alt)
    have ok: "kyber_ok s" by (rule 2(2))
    have old: "i < ?n" if "(i, k) \<in> set (ks_otpks s)" for i k
      using ok that unfolding kyber_ok_def by blast
    then have "hm_get ?n (ks_otpks s) = None" by (force simp: hm_get_def map_of_eq_None_iff)
    then have ins: "ks_otpks ?s = ks_otpks s @ [(?n, ?k)]" by (simp add: hm_insert_fresh)
    have "hm_wf (ks_otpks ?s)" using ok by (simp add: kyber_ok_def hm.wf_insert)
    moreover have hs: "held_spks ?s = held_spks s" by (simp add: held_spks_def cong: option.case_cong)
    moreover have "KYBER_OTPK_ID_START \<le> v" using ok lt by (meson kyber_ok_def less_imp_le order.trans)
    moreover have "i < v" if "(i, k) \<in> set (ks_otpks s)" for i k using old [OF that] lt by (rule order.strict_trans)
    ultimately have "kyber_ok ?s" using ok lt 2(3) unfolding kyber_ok_def ins by auto
    moreover have "kyber_held ?s = insert ?k (kyber_held s)"
      unfolding kyber_held_def ins by (auto simp: held_spks_def cong: option.case_cong)
    moreover have "kyber_unused s ?n" using ok by (simp add: kyber_unused_def kyber_ok_def)
    ultimately have one: "kyber_grows s ?s" using lt by (auto simp: kyber_grows_def)
    have "kyber_grows ?s (snd (generate_otpks P Es t ?s))"
      using 2(1) [OF Some g] one 2(3) by (simp add: kyber_grows_def)
    then have "kyber_grows s (snd (generate_otpks P Es t ?s))" by (rule kyber_grows_trans [OF one])
    then show ?thesis using Some g
      by (cases "generate_otpks P Es t ?s"; cases "fst (generate_otpks P Es t ?s)") simp_all
  qed (use 2(2) in \<open>simp add: kyber_grows_refl\<close>)
qed (simp add: kyber_grows_refl)

lemma reload_prekey: "length (kk_seed k) = MLKEM_SEED_SIZE \<Longrightarrow> kyber_prekey_from_cfe (kyber_prekey_to_cfe k) = Some k"
  by (simp add: kyber_prekey_from_cfe_def kyber_prekey_to_cfe_def)

lemma map_filter_all: "(\<And>x. x \<in> set xs \<Longrightarrow> f (g x) = Some (h x)) \<Longrightarrow> List.map_filter f (map g xs) = map h xs"
  by (induction xs) (simp_all add: map_filter_simps)

lemma fold_max_less:
  assumes "\<And>i. i \<in> set is \<Longrightarrow> i < n" "a < n"
  shows "fold max is a < (n :: 'a::linorder)"
  using assms by (induction "is" arbitrary: a) auto

definition sorted_otpks :: "kyber_prekey_store \<Rightarrow> kyber_prekey_store" where
  "sorted_otpks s = s\<lparr> ks_otpks := sort_key fst (ks_otpks s) \<rparr>"

lemma sorted_otpks_grows:
  assumes "kyber_ok s"
  shows "kyber_grows s (sorted_otpks s)" "kyber_held (sorted_otpks s) = kyber_held s"
proof -
  have h: "held_spks (sorted_otpks s) = held_spks s"
    by (simp add: sorted_otpks_def held_spks_def cong: option.case_cong)
  have o: "set (ks_otpks (sorted_otpks s)) = set (ks_otpks s)" by (simp add: sorted_otpks_def)
  show "kyber_grows s (sorted_otpks s)"
  proof (rule kyber_shrink [OF assms])
    show "hm_wf (ks_otpks (sorted_otpks s))"
      using assms by (simp add: kyber_ok_def hm_wf_def sorted_otpks_def distinct_map)
    show "distinct (map kk_key_id (held_spks (sorted_otpks s)))" using assms by (simp add: h kyber_ok_def)
  qed (use h o in \<open>simp_all add: sorted_otpks_def\<close>)
  show "kyber_held (sorted_otpks s) = kyber_held s" using h o by (simp add: kyber_held_def)
qed

lemma kyber_counters_same:
  assumes "kyber_ok s"
  shows "kyber_counters s = s"
proof -
  have lt: "fold max (map kk_key_id (held_spks s)) 0 < ks_next_spk_id s"
    by (rule fold_max_less) (use assms in \<open>auto simp: kyber_ok_def word_le_nat_alt word_less_nat_alt\<close>)
  have m1: "max (ks_next_spk_id s) (fold max (map kk_key_id (held_spks s)) 0 + 1) = ks_next_spk_id s"
    using inc_le [OF lt] by (simp add: max.absorb1)
  have "(0 :: u32) < KYBER_OTPK_ID_START" by (simp add: KYBER_OTPK_ID_START_def)
  then have pos: "0 < ks_next_otpk_id s" using assms by (meson kyber_ok_def order.strict_trans2)
  have "fold max (map fst (ks_otpks s)) 0 < ks_next_otpk_id s"
    by (rule fold_max_less [OF _ pos]) (use assms in \<open>auto simp: kyber_ok_def\<close>)
  then have "sat_add (fold max (map fst (ks_otpks s)) 0) 1 \<le> ks_next_otpk_id s"
    using unat_less_power [of "ks_next_otpk_id s"] by (simp add: word_le_nat_alt word_less_nat_alt unat_sat_add)
  then have m2: "max (ks_next_otpk_id s) (sat_add (fold max (map fst (ks_otpks s)) 0) 1) = ks_next_otpk_id s"
    by (simp add: max.absorb1)
  show ?thesis unfolding kyber_counters_def Let_def m1 m2 if_cancel by simp
qed

text \<open>A store written and read back is the store, its one-time keys in order, less the rotated-out keys
  past their retention.\<close>

lemma kyber_reload:
  assumes "kyber_ok s"
  shows "kyber_from_cfe (kyber_to_cfe s) t = prune_retired t (sorted_otpks s)"
proof -
  have seeds: "length (kk_seed k) = MLKEM_SEED_SIZE" if "k \<in> set (held_spks s) \<or> (i, k) \<in> set (ks_otpks s)" for i k
    using assms that unfolding kyber_ok_def by blast
  let ?o = "sort_key fst (ks_otpks s)"
  have spk: "Option.bind (map_option kyber_prekey_to_cfe (ks_spk s)) kyber_prekey_from_cfe = ks_spk s"
    "Option.bind (map_option kyber_prekey_to_cfe (ks_pending_spk s)) kyber_prekey_from_cfe = ks_pending_spk s"
    using seeds by (cases "ks_spk s"; cases "ks_pending_spk s"; simp add: held_spks_def reload_prekey)+
  have ret: "List.map_filter (\<lambda>r. map_option (\<lambda>prekey. \<lparr> rt_prekey = prekey, rt_retired_at = crk_retired_at r \<rparr>)
        (kyber_prekey_from_cfe (crk_prekey r)))
      (map (\<lambda>r. \<lparr> crk_prekey = kyber_prekey_to_cfe (rt_prekey r), crk_retired_at = rt_retired_at r \<rparr>) (ks_retired_spks s)) =
      map (\<lambda>r. r) (ks_retired_spks s)"
    by (rule map_filter_all) (use seeds in \<open>simp add: held_spks_def reload_prekey\<close>)
  have "List.map_filter kyber_prekey_from_cfe (map (\<lambda>e. kyber_prekey_to_cfe (snd e)) ?o) = map snd ?o"
    by (rule map_filter_all) (use seeds in \<open>metis reload_prekey prod.collapse set_sort\<close>)
  moreover have "fold (\<lambda>k. hm_insert (kk_key_id k) k) (map snd ?o) [] = ?o"
  proof -
    have d: "distinct (map fst ?o)" using assms by (simp add: kyber_ok_def hm_wf_def distinct_map)
    have e: "kk_key_id (snd x) = fst x" if "x \<in> set ?o" for x
      using assms that unfolding kyber_ok_def by (cases x) auto
    then have "map kk_key_id (map snd ?o) = map fst ?o" by simp
    with d have "distinct (map kk_key_id (map snd ?o))" by (simp only:)
    then have "fold (\<lambda>k. hm_insert (kk_key_id k) k) (map snd ?o) [] = [] @ map (\<lambda>k. (kk_key_id k, k)) (map snd ?o)"
      by (intro hm_insert_all) simp_all
    also have "\<dots> = map (\<lambda>x. x) ?o" unfolding append_Nil list.map_comp using e by (intro map_cong) auto
    also have "\<dots> = ?o" by simp
    finally show ?thesis .
  qed
  ultimately have otp: "fold (\<lambda>k. hm_insert (kk_key_id k) k)
      (List.map_filter kyber_prekey_from_cfe (map (\<lambda>e. kyber_prekey_to_cfe (snd e)) ?o)) [] = ?o" by simp
  have b: "max (ks_next_spk_id s) 1 = ks_next_spk_id s" "max (ks_next_otpk_id s) KYBER_OTPK_ID_START = ks_next_otpk_id s"
    using assms by (simp_all add: kyber_ok_def max.absorb1)
  have "kyber_counters (sorted_otpks s) = sorted_otpks s"
    using kyber_counters_same sorted_otpks_grows(1) [OF assms] by (simp add: kyber_grows_def)
  moreover have "\<lparr> ks_spk = ks_spk s, ks_pending_spk = ks_pending_spk s, ks_retired_spks = ks_retired_spks s, ks_otpks = ?o,
      ks_next_spk_id = ks_next_spk_id s, ks_next_otpk_id = ks_next_otpk_id s \<rparr> = sorted_otpks s"
    by (simp add: sorted_otpks_def)
  ultimately show ?thesis
    by (simp only: kyber_from_cfe_def kyber_to_cfe_def cfe_kyber_prekeys.simps spk ret otp b list.map_ident)
qed

lemma kyber_step_grows:
  assumes "kyber_ok s" "kyber_op_ok op"
  shows "kyber_grows s (kyber_step P op s)"
proof (cases op)
  case RollbackRotation
  have "kyber_grows s (rollback_spk_rotation s)"
    by (rule kyber_shrink [OF assms(1)])
      (use assms(1) in \<open>auto simp: rollback_spk_rotation_def held_spks_def kyber_ok_def split: option.splits\<close>)
  then show ?thesis using RollbackRotation by simp
next
  case (PruneOtpks i)
  have "kyber_grows s (snd (prune_otpks_below i s))"
    by (rule kyber_shrink [OF assms(1)])
      (use assms(1) in \<open>auto simp: prune_otpks_below_def Let_def held_spks_def kyber_ok_def hm_retain_def hm_wf_def distinct_map_filter
        cong: option.case_cong\<close>)
  then show ?thesis using PruneOtpks by simp
next
  case (RemoveOtpk i)
  have "kyber_grows s (snd (remove_otpk i s))"
    by (rule kyber_shrink [OF assms(1)])
      (use assms(1) in \<open>auto simp: remove_otpk_def held_spks_def kyber_ok_def hm_delete_filter hm_wf_def distinct_map_filter
        cong: option.case_cong\<close>)
  then show ?thesis using RemoveOtpk by simp
next
  case (Reload t)
  have "kyber_grows s (prune_retired t (sorted_otpks s))"
    using kyber_grows_trans [OF sorted_otpks_grows(1) [OF assms(1)] prune_retired_grows] sorted_otpks_grows(1) [OF assms(1)]
    by (simp add: kyber_grows_def)
  then show ?thesis using Reload kyber_reload [OF assms(1)] by simp
next
  case (GenerateOtpks Es t)
  then show ?thesis using generate_grows [OF assms(1)] assms(2) by simp
qed (use assms in \<open>simp_all add: begin_grows commit_grows prune_retired_grows\<close>)

lemma kyber_run_grows:
  "kyber_ok s \<Longrightarrow> list_all kyber_op_ok ops \<Longrightarrow> kyber_grows s (fold (kyber_step P) ops s)"
proof (induction ops arbitrary: s)
  case (Cons op ops)
  then have "kyber_grows s (kyber_step P op s)" using kyber_step_grows by simp
  moreover from this have "kyber_grows (kyber_step P op s) (fold (kyber_step P) ops (kyber_step P op s))"
    using Cons by (simp add: kyber_grows_def)
  ultimately show ?case by (simp add: kyber_grows_trans)
qed (simp add: kyber_grows_refl)

lemma kyber_default_ok: "kyber_ok kyber_default"
  by (simp add: kyber_ok_def kyber_default_def held_spks_def KYBER_OTPK_ID_START_def)

lemma otpk_start_above_1: "\<not> (1000000 :: u32) \<le> 1"
  by (simp add: word_le_nat_alt)

text \<open>
  C14.  A Kyber prekey id names one key for ever.  From a new store, whatever sequence of rotations,
  roll-backs, generations, burns, prunings and restarts follows, a first message that names an id finds either
  no key or the key that id has always named: ids of signed and one-time prekeys never meet and none is
  given out twice.
\<close>

theorem kyber_id_names_one_key:
  assumes "list_all kyber_op_ok before" "list_all kyber_op_ok after"
    and "s = fold (kyber_step P) before kyber_default" "s' = fold (kyber_step P) after s"
    and "kyber_find i s = Some k" "kyber_find i s' = Some k'"
  shows "k' = k"
proof -
  have ok: "kyber_ok s" using kyber_run_grows [OF kyber_default_ok assms(1)] assms(3) by (simp add: kyber_grows_def)
  have g: "kyber_grows s s'" using kyber_run_grows [OF ok assms(2)] assms(4) by simp
  then have ok': "kyber_ok s'" by (simp add: kyber_grows_def)
  have k: "k \<in> kyber_held s" "kk_key_id k = i" using kyber_find_iff [OF ok] assms(5) by auto
  have k': "k' \<in> kyber_held s'" "kk_key_id k' = i" using kyber_find_iff [OF ok'] assms(6) by auto
  have "\<not> kyber_unused s i" using kyber_held_unused [OF ok k(1)] k(2) by simp
  then have "k' \<in> kyber_held s" using g k' by (auto simp: kyber_grows_def)
  then have "kyber_find i s = Some k'" using kyber_find_iff [OF ok] k'(2) by simp
  then show ?thesis using assms(5) by simp
qed

theorem kyber_id_names_one_key_witness:
  "\<exists>k. kyber_find 1 (fold (kyber_step sample_primitives) [BeginRotation sample_draws 5, CommitRotation 6] kyber_default) = Some k \<and>
    kyber_find 1 (fold (kyber_step sample_primitives) [BeginRotation sample_draws 7, CommitRotation 8]
      (fold (kyber_step sample_primitives) [BeginRotation sample_draws 5, CommitRotation 6] kyber_default)) = Some k"
proof -
  let ?P = sample_primitives and ?b = "[BeginRotation sample_draws 5, CommitRotation 6]"
    and ?a = "[BeginRotation sample_draws 7, CommitRotation 8]"
  have ok: "list_all kyber_op_ok ?b" "list_all kyber_op_ok ?a"
    by (simp_all add: sample_draws_def MLKEM_SEED_SIZE_def)
  have "kyber_find 1 (fold (kyber_step ?P) ?b kyber_default) \<noteq> None"
    "kyber_find 1 (fold (kyber_step ?P) ?a (fold (kyber_step ?P) ?b kyber_default)) \<noteq> None"
    by (simp_all add: begin_spk_rotation_def commit_spk_rotation_def kyber_default_def kyber_generate_def
        mlkem1024_generate_def kyber_find_def held_spks_def prune_retired_def KYBER_OTPK_ID_START_def
        otpk_start_above_1 sat_sub_def SPK_RETENTION_AFTER_ROTATION_SECS_def)
  then obtain k k' where "kyber_find 1 (fold (kyber_step ?P) ?b kyber_default) = Some k"
    "kyber_find 1 (fold (kyber_step ?P) ?a (fold (kyber_step ?P) ?b kyber_default)) = Some k'" by blast
  with kyber_id_names_one_key [OF ok refl refl this] show ?thesis by auto
qed

subsection \<open>Retention\<close>

fun kyber_op_before :: "u64 \<Rightarrow> kyber_op \<Rightarrow> bool" where
  "kyber_op_before t (CommitRotation n) = (sat_sub n t < SPK_RETENTION_AFTER_ROTATION_SECS)"
| "kyber_op_before t (PruneRetired n) = (sat_sub n t < SPK_RETENTION_AFTER_ROTATION_SECS)"
| "kyber_op_before t (Reload n) = (sat_sub n t < SPK_RETENTION_AFTER_ROTATION_SECS)"
| "kyber_op_before t _ = True"

definition kyber_retired_at :: "kyber_prekey \<Rightarrow> u64 \<Rightarrow> kyber_prekey_store \<Rightarrow> bool" where
  "kyber_retired_at k t s \<longleftrightarrow> \<lparr> rt_prekey = k, rt_retired_at = t \<rparr> \<in> set (ks_retired_spks s)"

lemma generate_retired: "ks_retired_spks (snd (generate_otpks P Es t s)) = ks_retired_spks s"
  by (induction P Es t s rule: generate_otpks.induct) (auto split: option.split sum.split prod.split, (metis snd_conv)+)

lemma retired_step:
  assumes "kyber_retired_at k t s" "kyber_op_before t op" "kyber_ok s"
  shows "kyber_retired_at k t (kyber_step P op s)"
proof (cases op)
  case (CommitRotation n)
  then show ?thesis
    using assms
    by (cases "ks_pending_spk s")
      (simp_all add: commit_unfold kyber_retired_at_def prune_retired_def, simp add: commit_spk_rotation_def)
next
  case (BeginRotation E n)
  then show ?thesis
    using assms(1) by (auto simp: begin_spk_rotation_def kyber_retired_at_def split: option.split sum.split)
next
  case (Reload n)
  then show ?thesis
    using assms by (simp add: kyber_reload kyber_retired_at_def prune_retired_def sorted_otpks_def)
next
  case (GenerateOtpks Es n)
  then show ?thesis using assms(1) generate_retired by (simp add: kyber_retired_at_def)
qed (use assms in \<open>simp_all add: kyber_retired_at_def prune_retired_def rollback_spk_rotation_def prune_otpks_below_def
  remove_otpk_def Let_def\<close>)

lemma retired_run:
  "kyber_ok s \<Longrightarrow> kyber_retired_at k t s \<Longrightarrow> list_all kyber_op_ok ops \<Longrightarrow> list_all (kyber_op_before t) ops \<Longrightarrow>
    kyber_retired_at k t (fold (kyber_step P) ops s)"
proof (induction ops arbitrary: s)
  case (Cons op ops)
  have "kyber_ok (kyber_step P op s)" using kyber_step_grows Cons.prems by (simp add: kyber_grows_def)
  then show ?case using Cons retired_step by simp
qed simp

text \<open>
  C15.  A rotated-out Kyber prekey still answers.  Once a rotation is confirmed, the key it replaced is found
  under its id after every later sequence of operations, restarts included, whose clock is less than fourteen
  days past the rotation: a first message in flight to the old key can still be opened.
\<close>

theorem rotated_key_still_found:
  assumes "list_all kyber_op_ok before" "s = fold (kyber_step P) before kyber_default"
    and "ks_spk s = Some k" "ks_pending_spk s = Some p"
    and "list_all kyber_op_ok after" "list_all (kyber_op_before t) after"
  shows "kyber_find (kk_key_id k) (fold (kyber_step P) after (snd (commit_spk_rotation t s))) = Some k"
proof -
  have ok: "kyber_ok s" using kyber_run_grows [OF kyber_default_ok assms(1)] assms(2) by (simp add: kyber_grows_def)
  let ?c = "snd (commit_spk_rotation t s)"
  have c: "kyber_ok ?c" using commit_grows [OF ok] by (simp add: kyber_grows_def)
  have "sat_sub t t = 0" by (simp add: sat_sub_def)
  then have "kyber_retired_at k t ?c"
    using assms(3) by (simp add: commit_unfold [OF assms(4)] kyber_retired_at_def prune_retired_def
        SPK_RETENTION_AFTER_ROTATION_SECS_def)
  then have "kyber_retired_at k t (fold (kyber_step P) after ?c)" using retired_run [OF c] assms(5,6) by blast
  then have "k \<in> kyber_held (fold (kyber_step P) after ?c)"
    by (force simp: kyber_retired_at_def kyber_held_def held_spks_def)
  moreover have "kyber_ok (fold (kyber_step P) after ?c)"
    using kyber_run_grows [OF c assms(5)] by (simp add: kyber_grows_def)
  ultimately show ?thesis using kyber_find_iff by blast
qed

theorem rotated_key_still_found_witness:
  "\<exists>k. ks_spk (fold (kyber_step sample_primitives) [BeginRotation sample_draws 5, CommitRotation 6, BeginRotation sample_draws 7]
      kyber_default) = Some k \<and>
    kyber_find (kk_key_id k) (fold (kyber_step sample_primitives) [Reload 1209600, PruneRetired 1209607]
      (snd (commit_spk_rotation 8 (fold (kyber_step sample_primitives)
        [BeginRotation sample_draws 5, CommitRotation 6, BeginRotation sample_draws 7] kyber_default)))) = Some k"
proof -
  let ?P = sample_primitives and ?b = "[BeginRotation sample_draws 5, CommitRotation 6, BeginRotation sample_draws 7]"
    and ?a = "[Reload 1209600, PruneRetired 1209607]"
  have ok: "list_all kyber_op_ok ?b" "list_all kyber_op_ok ?a" "list_all (kyber_op_before 8) ?a"
    by (simp_all add: sample_draws_def MLKEM_SEED_SIZE_def sat_sub_def SPK_RETENTION_AFTER_ROTATION_SECS_def)
  have "ks_spk (fold (kyber_step ?P) ?b kyber_default) \<noteq> None" "ks_pending_spk (fold (kyber_step ?P) ?b kyber_default) \<noteq> None"
    by (simp_all add: begin_spk_rotation_def commit_spk_rotation_def kyber_default_def kyber_generate_def
        mlkem1024_generate_def prune_retired_def KYBER_OTPK_ID_START_def
        otpk_start_above_1)
  then obtain k p where "ks_spk (fold (kyber_step ?P) ?b kyber_default) = Some k"
    "ks_pending_spk (fold (kyber_step ?P) ?b kyber_default) = Some p" by blast
  with rotated_key_still_found [OF ok(1) refl this ok(2,3)] show ?thesis by auto
qed

end
