(* ===== verification/X3dh.thy ===== *)
theory X3dh
  imports Sample_Primitives
begin

text \<open>
  The X3DH key agreement with the post-quantum secret (PQXDH): \<open>src/crypto/handshake/x3dh.rs\<close>, the
  input record of \<open>handshake/mod.rs\<close> and the signature prologue of \<open>src/crypto/keys.rs\<close>.  A signed bundle
  that names the responder's keys is accepted, and both sides derive one root key.
\<close>

subsection \<open>The bundles\<close>

record x3dh_public_key_bundle =
  pb_identity_public :: bytes
  pb_signed_prekey_public :: bytes
  pb_signature :: bytes
  pb_verifying_key :: bytes
  pb_suite_id :: suite_id
  pb_one_time_prekey_public :: "bytes option"
  pb_one_time_prekey_id :: "u32 option"
  pb_spk_uploaded_at :: u64
  pb_spk_rotation_epoch :: u32
  pb_kyber_spk_uploaded_at :: u64
  pb_kyber_spk_rotation_epoch :: u32

record x3dh_registration_bundle =
  rb_identity_public :: bytes
  rb_signed_prekey_public :: bytes
  rb_signature :: bytes
  rb_verifying_key :: bytes
  rb_suite_id :: suite_id

record pqxdh_input =
  pi_shared_secret :: bytes
  pi_kyber_public :: bytes
  pi_kem_ciphertext :: bytes
  pi_initiator_kem_identity :: bytes

datatype x3dh_error =
    KeyGenerationFailed crypto_error
  | SigningFailed crypto_error
  | IdentityKeySize nat
  | SignedPrekeySize nat
  | VerifyingKeySize nat
  | SignatureSize nat
  | SignedPrekeySignatureInvalid crypto_error
  | Dh1Failed crypto_error
  | Dh2Failed crypto_error
  | Dh3Failed crypto_error
  | OneTimePrekeySize nat
  | Dh4Failed crypto_error
  | HkdfFailed crypto_error

definition build_prologue :: "suite_id \<Rightarrow> bytes" where
  "build_prologue suite = ascii ''KonstruktX3DH-v1'' @ u16_to_be (as_u16 suite)"

definition X3DH_ROOT_INFO_CLASSIC :: bytes where
  "X3DH_ROOT_INFO_CLASSIC = ascii ''Construct-X3DH-RootKey-v1''"

definition X3DH_ROOT_INFO_PQXDH :: bytes where
  "X3DH_ROOT_INFO_PQXDH = ascii ''Construct-PQXDH-RootKey-v3''"

definition root_info :: "primitives \<Rightarrow> pqxdh_input option \<Rightarrow> bytes" where
  "root_info P pq = (case pq of
     None \<Rightarrow> X3DH_ROOT_INFO_CLASSIC
   | Some i \<Rightarrow> X3DH_ROOT_INFO_PQXDH @ sha256 P (pi_kyber_public i) @ sha256 P (pi_kem_ciphertext i) @
       sha256 P (pi_initiator_kem_identity i))"

definition derive_root_key :: "primitives \<Rightarrow> bytes \<Rightarrow> pqxdh_input option \<Rightarrow> x3dh_error + bytes" where
  "derive_root_key P combined_dh pq =
    (let ikm = combined_dh @ (case pq of None \<Rightarrow> [] | Some i \<Rightarrow> pi_shared_secret i)
     in map_err HkdfFailed (hkdf_derive_key P (replicate 32 0xFF) ikm (root_info P pq) 32))"

subsection \<open>The protocol\<close>

text \<open>The draws of the two key pairs are separate: \<open>E\<close> for the identity key and the signing key,
  \<open>E'\<close> for the signed prekey.\<close>

definition generate_registration_bundle ::
    "primitives \<Rightarrow> draws \<Rightarrow> draws \<Rightarrow> x3dh_error + x3dh_registration_bundle" where
  "generate_registration_bundle P E E' =
    res_bind (map_err KeyGenerationFailed (generate_kem_keys P E)) (\<lambda>(_, identity_public).
    res_bind (map_err KeyGenerationFailed (generate_kem_keys P E')) (\<lambda>(_, signed_prekey_public).
    res_bind (map_err KeyGenerationFailed (generate_signature_keys P E)) (\<lambda>(signing_key, verifying_key).
    res_bind (map_err SigningFailed
        (sign P signing_key (build_prologue CLASSIC @ signed_prekey_public))) (\<lambda>signature.
    Inr \<lparr> rb_identity_public = identity_public, rb_signed_prekey_public = signed_prekey_public,
          rb_signature = signature, rb_verifying_key = verifying_key, rb_suite_id = CLASSIC \<rparr>))))"

definition perform_as_initiator ::
    "primitives \<Rightarrow> draws \<Rightarrow> bytes \<Rightarrow> x3dh_public_key_bundle \<Rightarrow> pqxdh_input option \<Rightarrow>
     x3dh_error + (bytes \<times> bytes)" where
  "perform_as_initiator P E local_identity bundle pq =
    res_bind (map_err KeyGenerationFailed (generate_kem_keys P E)) (\<lambda>(ephemeral_private, _).
    if length (pb_identity_public bundle) \<noteq> 32
    then Inl (IdentityKeySize (length (pb_identity_public bundle)))
    else if length (pb_signed_prekey_public bundle) \<noteq> 32
    then Inl (SignedPrekeySize (length (pb_signed_prekey_public bundle)))
    else if length (pb_verifying_key bundle) \<noteq> 32
    then Inl (VerifyingKeySize (length (pb_verifying_key bundle)))
    else if length (pb_signature bundle) \<noteq> 64
    then Inl (SignatureSize (length (pb_signature bundle)))
    else
    res_bind (map_err SignedPrekeySignatureInvalid
        (verify P (pb_verifying_key bundle)
          (build_prologue (pb_suite_id bundle) @ pb_signed_prekey_public bundle) (pb_signature bundle))) (\<lambda>_.
    res_bind (map_err Dh1Failed (kem_decapsulate P local_identity (pb_signed_prekey_public bundle))) (\<lambda>dh1.
    res_bind (map_err Dh2Failed (kem_decapsulate P ephemeral_private (pb_identity_public bundle))) (\<lambda>dh2.
    res_bind (map_err Dh3Failed (kem_decapsulate P ephemeral_private (pb_signed_prekey_public bundle))) (\<lambda>dh3.
    res_bind (case pb_one_time_prekey_public bundle of
        None \<Rightarrow> Inr []
      | Some otpk \<Rightarrow>
          if length otpk \<noteq> 32 then Inl (OneTimePrekeySize (length otpk))
          else map_err Dh4Failed (kem_decapsulate P ephemeral_private otpk)) (\<lambda>dh4.
    res_bind (derive_root_key P (dh1 @ dh2 @ dh3 @ dh4) pq) (\<lambda>root_key.
    Inr (root_key, ephemeral_private))))))))"

definition perform_as_responder ::
    "primitives \<Rightarrow> bytes \<Rightarrow> bytes \<Rightarrow> bytes \<Rightarrow> bytes \<Rightarrow> bytes option \<Rightarrow> pqxdh_input option \<Rightarrow>
     x3dh_error + bytes" where
  "perform_as_responder P local_identity local_signed_prekey remote_identity remote_ephemeral
      local_one_time_prekey pq =
    res_bind (map_err Dh1Failed (kem_decapsulate P local_signed_prekey remote_identity)) (\<lambda>dh1.
    res_bind (map_err Dh2Failed (kem_decapsulate P local_identity remote_ephemeral)) (\<lambda>dh2.
    res_bind (map_err Dh3Failed (kem_decapsulate P local_signed_prekey remote_ephemeral)) (\<lambda>dh3.
    res_bind (case local_one_time_prekey of
        None \<Rightarrow> Inr []
      | Some otpk_priv \<Rightarrow> map_err Dh4Failed (kem_decapsulate P otpk_priv remote_ephemeral)) (\<lambda>dh4.
    derive_root_key P (dh1 @ dh2 @ dh3 @ dh4) pq))))"

subsection \<open>Both sides derive the same root key\<close>

text \<open>A bundle that names the public halves of the responder's keys.\<close>

definition names_keys ::
    "primitives \<Rightarrow> bytes \<Rightarrow> bytes \<Rightarrow> bytes option \<Rightarrow> x3dh_public_key_bundle \<Rightarrow> bool" where
  "names_keys P ik spk otpk bundle \<longleftrightarrow>
    pb_identity_public bundle = x25519_base P ik \<and> pb_signed_prekey_public bundle = x25519_base P spk \<and>
    pb_one_time_prekey_public bundle = map_option (x25519_base P) otpk \<and>
    length ik = 32 \<and> length spk = 32 \<and> (\<forall>k \<in> set_option otpk. length k = 32)"

lemma kem_decapsulate_lengths: "kem_decapsulate P a b = Inr k \<Longrightarrow> length a = 32 \<and> length b = 32"
  by (auto simp: kem_decapsulate_def split: if_splits)

lemma kem_decapsulate_flip:
  assumes "dh_commutes P" "kem_decapsulate P a (x25519_base P b) = Inr k" "length b = 32"
  shows "kem_decapsulate P b (x25519_base P a) = Inr k"
  using kem_decapsulate_commutes [OF assms(1) _ assms(3), of a] kem_decapsulate_lengths [OF assms(2)] assms(2) by simp

lemma initiator_okE:
  assumes "perform_as_initiator P E ik bundle pq = Inr (root, eph)"
  obtains dh1 dh2 dh3 dh4 where "eph = drawn_x25519 E"
    "verify P (pb_verifying_key bundle) (build_prologue (pb_suite_id bundle) @ pb_signed_prekey_public bundle)
      (pb_signature bundle) = Inr ()"
    "kem_decapsulate P ik (pb_signed_prekey_public bundle) = Inr dh1"
    "kem_decapsulate P eph (pb_identity_public bundle) = Inr dh2"
    "kem_decapsulate P eph (pb_signed_prekey_public bundle) = Inr dh3"
    "pb_one_time_prekey_public bundle = None \<and> dh4 = [] \<or>
      (\<exists>otpk. pb_one_time_prekey_public bundle = Some otpk \<and> kem_decapsulate P eph otpk = Inr dh4)"
    "derive_root_key P (dh1 @ dh2 @ dh3 @ dh4) pq = Inr root"
proof -
  let ?otpk = "case pb_one_time_prekey_public bundle of
        None \<Rightarrow> Inr []
      | Some otpk \<Rightarrow>
          if length otpk \<noteq> 32 then Inl (OneTimePrekeySize (length otpk))
          else map_err Dh4Failed (kem_decapsulate P (drawn_x25519 E) otpk)"
  from assms obtain dh1 dh2 dh3 dh4 where *: "eph = drawn_x25519 E" "?otpk = Inr dh4"
    "verify P (pb_verifying_key bundle) (build_prologue (pb_suite_id bundle) @ pb_signed_prekey_public bundle)
      (pb_signature bundle) = Inr ()"
    "kem_decapsulate P ik (pb_signed_prekey_public bundle) = Inr dh1"
    "kem_decapsulate P (drawn_x25519 E) (pb_identity_public bundle) = Inr dh2"
    "kem_decapsulate P (drawn_x25519 E) (pb_signed_prekey_public bundle) = Inr dh3"
    "derive_root_key P (dh1 @ dh2 @ dh3 @ dh4) pq = Inr root"
    unfolding perform_as_initiator_def generate_kem_keys_def
    by (auto simp: res_bind_eq_Inr split: if_splits)
  have "pb_one_time_prekey_public bundle = None \<and> dh4 = [] \<or>
      (\<exists>otpk. pb_one_time_prekey_public bundle = Some otpk \<and> kem_decapsulate P eph otpk = Inr dh4)"
    using *(1,2) by (auto simp: result_iffs split: option.splits if_splits)
  with * show thesis by (intro that) auto
qed

lemma x3dh_agreement:
  assumes "dh_commutes P" "names_keys P ik_b spk_b otpk_b bundle"
    and "perform_as_initiator P E ik_a bundle pq = Inr (root, eph)"
  shows "perform_as_responder P ik_b spk_b (x25519_base P ik_a) (x25519_base P eph) otpk_b pq = Inr root"
proof -
  note n = assms(2) [unfolded names_keys_def]
  obtain dh1 dh2 dh3 dh4 where d: "kem_decapsulate P ik_a (x25519_base P spk_b) = Inr dh1"
    "kem_decapsulate P eph (x25519_base P ik_b) = Inr dh2" "kem_decapsulate P eph (x25519_base P spk_b) = Inr dh3"
    "otpk_b = None \<and> dh4 = [] \<or> (\<exists>k. otpk_b = Some k \<and> kem_decapsulate P eph (x25519_base P k) = Inr dh4)"
    "derive_root_key P (dh1 @ dh2 @ dh3 @ dh4) pq = Inr root"
    by (rule initiator_okE [OF assms(3)]) (simp add: n map_option_case split: option.splits)
  have "kem_decapsulate P spk_b (x25519_base P ik_a) = Inr dh1" "kem_decapsulate P ik_b (x25519_base P eph) = Inr dh2"
    "kem_decapsulate P spk_b (x25519_base P eph) = Inr dh3"
    using kem_decapsulate_flip [OF assms(1) d(1)] kem_decapsulate_flip [OF assms(1) d(2)]
      kem_decapsulate_flip [OF assms(1) d(3)] n by simp_all
  moreover have "otpk_b = None \<and> dh4 = [] \<or> (\<exists>k. otpk_b = Some k \<and> kem_decapsulate P k (x25519_base P eph) = Inr dh4)"
    using d(4)
  proof
    assume "\<exists>k. otpk_b = Some k \<and> kem_decapsulate P eph (x25519_base P k) = Inr dh4"
    then obtain k where k: "otpk_b = Some k" "kem_decapsulate P eph (x25519_base P k) = Inr dh4" by blast
    then show ?thesis using kem_decapsulate_flip [OF assms(1) k(2)] n by simp
  qed simp
  ultimately show ?thesis using d(5) by (auto simp: perform_as_responder_def)
qed

lemma kem_decapsulate_ok:
  "length a = 32 \<Longrightarrow> length b = 32 \<Longrightarrow> x25519 P a b \<noteq> replicate 32 0 \<Longrightarrow> kem_decapsulate P a b = Inr (x25519 P a b)"
  by (simp add: kem_decapsulate_def)

lemma x25519_base_length: "dh_commutes P \<Longrightarrow> length (x25519_base P a) = 32"
  by (simp add: dh_commutes_def)

lemma derive_root_key_total:
  assumes "hkdf_total P"
  obtains root where "derive_root_key P dh pq = Inr root" "length root = 32"
proof -
  obtain root where "hkdf_derive_key P (replicate 32 0xFF) (dh @ (case pq of None \<Rightarrow> [] | Some i \<Rightarrow> pi_shared_secret i))
      (root_info P pq) 32 = Inr root" "length root = 32"
    by (rule hkdf_derive_key_total [OF assms, where len = 32]) auto
  then show thesis by (intro that [of root]) (simp_all add: derive_root_key_def)
qed

text \<open>
  C11.  Both sides of a handshake reach the same 32-byte root key.  Whenever the bundle names the
  responder's keys and carries the responder's signature over its signed prekey, and no Diffie-Hellman
  output is zero, the initiator accepts it, and the responder, from the two public keys the first message
  brings it, derives the root key the initiator derived, with or without a one-time prekey and with or
  without the post-quantum secret.
\<close>

theorem x3dh_shared_root:
  assumes "dh_commutes P" "hkdf_total P" "ed25519_correct P" "names_keys P ik_b spk_b otpk_b bundle"
    and "sign P sk (build_prologue (pb_suite_id bundle) @ pb_signed_prekey_public bundle) = Inr (pb_signature bundle)"
    and "pb_verifying_key bundle = ed25519_vk P sk" "length ik_a = 32" "length (drawn_x25519 E) = 32"
    and "x25519 P ik_a (x25519_base P spk_b) \<noteq> replicate 32 0"
    and "x25519 P (drawn_x25519 E) (x25519_base P ik_b) \<noteq> replicate 32 0"
    and "x25519 P (drawn_x25519 E) (x25519_base P spk_b) \<noteq> replicate 32 0"
    and "\<forall>k \<in> set_option otpk_b. x25519 P (drawn_x25519 E) (x25519_base P k) \<noteq> replicate 32 0"
  shows "\<exists>root. perform_as_initiator P E ik_a bundle pq = Inr (root, drawn_x25519 E) \<and> length root = 32 \<and>
    perform_as_responder P ik_b spk_b (x25519_base P ik_a) (x25519_base P (drawn_x25519 E)) otpk_b pq = Inr root"
proof -
  note n = assms(4) [unfolded names_keys_def]
  note sv = verify_sign [OF assms(3,5)]
  note len = x25519_base_length [OF assms(1)]
  define dh4 where "dh4 = (case otpk_b of None \<Rightarrow> [] | Some k \<Rightarrow> x25519 P (drawn_x25519 E) (x25519_base P k))"
  obtain root where root: "derive_root_key P (x25519 P ik_a (x25519_base P spk_b) @
      x25519 P (drawn_x25519 E) (x25519_base P ik_b) @ x25519 P (drawn_x25519 E) (x25519_base P spk_b) @ dh4) pq = Inr root"
    "length root = 32"
    by (rule derive_root_key_total [OF assms(2)])
  have "perform_as_initiator P E ik_a bundle pq = Inr (root, drawn_x25519 E)"
    using n sv assms(6-12) len root(1)
    by (cases otpk_b) (simp_all add: perform_as_initiator_def generate_kem_keys_def kem_decapsulate_ok dh4_def)
  with root(2) x3dh_agreement [OF assms(1,4) this] show ?thesis by blast
qed

definition sample_bundle :: x3dh_public_key_bundle where
  "sample_bundle = \<lparr> pb_identity_public = replicate 32 2, pb_signed_prekey_public = replicate 32 3,
     pb_signature = replicate 64 (sum_list (replicate 32 6) +
       sum_list (build_prologue CLASSIC @ replicate 32 3)),
     pb_verifying_key = replicate 32 6, pb_suite_id = CLASSIC,
     pb_one_time_prekey_public = Some (replicate 32 4), pb_one_time_prekey_id = Some 1000000,
     pb_spk_uploaded_at = 0, pb_spk_rotation_epoch = 0, pb_kyber_spk_uploaded_at = 0,
     pb_kyber_spk_rotation_epoch = 0 \<rparr>"

lemma sample_names_keys:
  "names_keys sample_primitives (replicate 32 2) (replicate 32 3) (Some (replicate 32 4)) sample_bundle"
  by (simp add: names_keys_def sample_bundle_def sample_primitives_def)

lemma sample_dh: "x25519 sample_primitives (replicate 32 a) (x25519_base sample_primitives (replicate 32 b)) =
    replicate 32 (a + b)"
  by (simp add: sample_primitives_def zip_replicate)

lemma sample_nonzero: "a + b \<noteq> 0 \<Longrightarrow>
    x25519 sample_primitives (replicate 32 a) (x25519_base sample_primitives (replicate 32 b)) \<noteq> replicate 32 0"
  unfolding sample_dh by (simp add: replicate_eq_replicate)

lemma sample_signed:
  "sign sample_primitives (replicate 32 6) (build_prologue (pb_suite_id sample_bundle) @
     pb_signed_prekey_public sample_bundle) = Inr (pb_signature sample_bundle)"
  "pb_verifying_key sample_bundle = ed25519_vk sample_primitives (replicate 32 6)"
  by (simp_all add: sign_def sample_bundle_def sample_primitives_def)

lemma sample_drawn: "drawn_x25519 sample_draws = replicate 32 9"
  by (simp add: sample_draws_def)

theorem x3dh_shared_root_witness:
  "\<exists>root. perform_as_initiator sample_primitives sample_draws (replicate 32 5) sample_bundle None =
      Inr (root, replicate 32 9) \<and> length root = 32 \<and>
    perform_as_responder sample_primitives (replicate 32 2) (replicate 32 3) (replicate 32 5) (replicate 32 9)
      (Some (replicate 32 4)) None = Inr root"
proof -
  have b: "x25519_base sample_primitives (replicate 32 a) = replicate 32 a" for a
    by (simp add: sample_primitives_def)
  have "\<forall>k \<in> set_option (Some (replicate 32 4)).
      x25519 sample_primitives (drawn_x25519 sample_draws) (x25519_base sample_primitives k) \<noteq> replicate 32 0"
    unfolding sample_drawn using sample_nonzero [of 9 4] by simp
  from x3dh_shared_root [OF sample_dh_commutes sample_hkdf_total sample_ed25519_correct sample_names_keys
      sample_signed, of "replicate 32 5" sample_draws None] this
  show ?thesis
    using sample_nonzero [of 5 3] sample_nonzero [of 9 2] sample_nonzero [of 9 3]
    unfolding sample_drawn by (simp add: b)
qed

end
