(* ===== verification/Session_Start.thy ===== *)
theory Session_Start
  imports X3dh Ratchet_Storage
begin

text \<open>
  The handshake and the Double Ratchet together: the root key of \<open>x3dh.rs\<close> feeds the two session
  constructors of \<open>double_ratchet/messaging.rs\<close>, and any message of the initiator's first flight opens
  the responder's session.
\<close>

lemma kem_decapsulate_InlD: "kem_decapsulate P a b = Inl e \<Longrightarrow> e = InvalidInputError"
  by (auto simp: kem_decapsulate_def Let_def split: if_splits)

lemma initiator_session_okE:
  assumes "new_initiator_session P E root eph remote contact me suite = Inr a"
  obtains sid r0 dh r ck where "derive_shared_session_id P root me contact = Inr sid"
    "initial_root P root = Inr r0" "kem_decapsulate P eph remote = Inr dh" "kdf_rk P r0 dh = Inr (r, ck)"
    "a = fresh_session E suite r ck [] eph (x25519_base P eph) remote (is_pq_ratchet suite) sid contact me"
  using assms
  by (auto simp: new_initiator_session_def result_iffs from_private_key_to_public_key_def split: if_splits)

text \<open>The session a responder builds before it reads the first message.\<close>

lemma responder_session:
  assumes "hkdf_total P" "derive_shared_session_id P root me contact = Inr sid" "initial_root P root = Inr r0"
    and "kem_decapsulate P ik (em_dh_public_key m) = Inr dh" "kdf_rk P r0 dh = Inr (r, ck)"
    and "kem_decapsulate P (drawn_x25519 E) (em_dh_public_key m) = Inr dh2"
    and "suite_new (em_suite_id m) = Inr suite"
  obtains r2 ck2 where "kdf_rk P r dh2 = Inr (r2, ck2)" "length ck2 = 32"
    "new_responder_session P E root ik m contact me =
      (case decrypt P E m (fresh_session E suite r2 ck2 ck (drawn_x25519 E) (x25519_base P (drawn_x25519 E))
          (em_dh_public_key m) False sid contact me) of
         (Inl e, _) \<Rightarrow> Inl e | (Inr pt, s') \<Rightarrow> Inr (s', pt))"
proof -
  obtain r2 ck2 where k: "kdf_rk P r dh2 = Inr (r2, ck2)" "length ck2 = 32"
    by (rule kdf_rk_total [OF assms(1), of r dh2])
  then show thesis
    using assms by (intro that [of r2 ck2]) (simp_all add: new_responder_session_def generate_kem_keys_def)
qed

lemma fresh_in_step:
  assumes "hkdf_total P" "sender_at P ck (fresh_session E suite r ck [] eph pub remote ini sid bob alice) i ai"
  shows "in_step P ck ai (fresh_session E' suite r2 ck2 ck priv pub' pub ini' sid alice bob)"
  using assms
  by (simp add: in_step_def paired_def follows_def on_chain_def sender_at_def fresh_session_def hm_get_def
      AD_VERSION_LEGACY_def AD_VERSION_HEADER_def)

lemma first_flight:
  assumes "aead_correct P" "hkdf_total P" "dh_commutes P" "names_keys P ik_b spk_b otpk_b bundle"
    and "perform_as_initiator P E ik_a bundle pq = Inr (root, eph)"
    and "new_initiator_session P E1 root eph (pb_identity_public bundle) bob alice suite = Inr a"
    and "is_supported (as_u16 suite)" "sends P xs a = Inr ms" "i < length xs" "i < 1000"
    and "kem_decapsulate P (drawn_x25519 E2) (x25519_base P eph) \<noteq> Inl InvalidInputError"
  obtains b where
    "perform_as_responder P ik_b spk_b (x25519_base P ik_a) (em_dh_public_key (ms ! i)) otpk_b pq = Inr root"
    "new_responder_session P E2 root ik_b (ms ! i) alice bob = Inr (b, snd (xs ! i))"
proof -
  obtain sid r0 dh r ck where a: "derive_shared_session_id P root alice bob = Inr sid"
    "initial_root P root = Inr r0" "kem_decapsulate P eph (pb_identity_public bundle) = Inr dh"
    "kdf_rk P r0 dh = Inr (r, ck)"
    "a = fresh_session E1 suite r ck [] eph (x25519_base P eph) (pb_identity_public bundle) (is_pq_ratchet suite)
       sid bob alice"
    by (rule initiator_session_okE [OF assms(6)])
  have 0: "sending_chain_key a = chain_at P ck (unat (sending_chain_length a))"
    "sending_chain_length a = 0" "dh_ratchet_public a = x25519_base P eph" "dr_suite_id a = suite"
    "current_pq_epoch a = 0"
    by (simp_all add: a(5) fresh_session_def)
  obtain ai ai' where ai: "encrypt P (fst (xs ! i)) (snd (xs ! i)) ai = (Inr (ms ! i), ai')" "sender_at P ck a i ai"
    using sends_nth [OF assms(2,8) 0(1)] assms(9) by auto
  have h: "sealed_header (ms ! i) ai" by (rule encrypt_okE [OF ai(1)])
  then have m: "em_dh_public_key (ms ! i) = x25519_base P eph" "em_suite_id (ms ! i) = as_u16 suite"
    using ai(2) 0 by (simp_all add: sealed_header_def sender_at_def)
  have resp: "perform_as_responder P ik_b spk_b (x25519_base P ik_a) (em_dh_public_key (ms ! i)) otpk_b pq = Inr root"
    using x3dh_agreement [OF assms(3-5)] m by simp
  have ik: "kem_decapsulate P eph (x25519_base P ik_b) = Inr dh" "length ik_b = 32"
    using a(3) assms(4) by (simp_all add: names_keys_def)
  have d1: "kem_decapsulate P ik_b (em_dh_public_key (ms ! i)) = Inr dh"
    unfolding m(1) by (rule kem_decapsulate_flip [OF assms(3) ik])
  obtain dh2 where d2: "kem_decapsulate P (drawn_x25519 E2) (em_dh_public_key (ms ! i)) = Inr dh2"
    using assms(11) m(1) kem_decapsulate_InlD by (cases "kem_decapsulate P (drawn_x25519 E2) (x25519_base P eph)") auto
  have sid: "derive_shared_session_id P root bob alice = Inr sid" using a(1) session_id_symmetric [of P root alice bob] by simp
  have su: "suite_new (em_suite_id (ms ! i)) = Inr suite" using m(2) assms(7) supported_suite_new by simp
  obtain r2 ck2 where r2: "new_responder_session P E2 root ik_b (ms ! i) alice bob =
      (case decrypt P E2 (ms ! i) (fresh_session E2 suite r2 ck2 ck (drawn_x25519 E2)
          (x25519_base P (drawn_x25519 E2)) (em_dh_public_key (ms ! i)) False sid alice bob) of
         (Inl e, _) \<Rightarrow> Inl e | (Inr pt, s') \<Rightarrow> Inr (s', pt))"
    by (rule responder_session [OF assms(2) sid a(2) d1 a(4) d2 su])
  let ?b = "fresh_session E2 suite r2 ck2 ck (drawn_x25519 E2) (x25519_base P (drawn_x25519 E2))
    (em_dh_public_key (ms ! i)) False sid alice bob"
  have "in_step P ck ai ?b" using fresh_in_step [OF assms(2) ai(2) [unfolded a(5)]] m(1) by simp
  moreover have "in_reach (dh_ratchet_public ai) (sending_chain_length ai) (periodic_cleanup E2 ?b)"
    using ai(2) 0(2) assms(10)
    by (simp add: in_reach_def periodic_cleanup_def fresh_session_def sender_at_def hm_len_def)
  moreover have "pq_readable P ai (periodic_cleanup E2 ?b)"
    using ai(2) 0(5) by (simp add: pq_readable_def sender_at_def)
  ultimately obtain b' where "decrypt P E2 (ms ! i) ?b = (Inr (snd (xs ! i)), b')"
    using delivery_step [OF assms(1) _ ai(1)] by blast
  with r2 resp show thesis by (intro that [of b']) simp_all
qed

text \<open>
  C12.  A first flight opens the session.  After a handshake and any number of messages sent on the new
  session before an answer, whichever of the first thousand messages arrives first, the responder derives
  the initiator's root key from it, builds its session and reads that message's plaintext.
\<close>

theorem first_flight_opens_session:
  assumes "aead_correct P" "hkdf_total P" "dh_commutes P" "names_keys P ik_b spk_b otpk_b bundle"
    and "perform_as_initiator P E ik_a bundle pq = Inr (root, eph)"
    and "new_initiator_session P E1 root eph (pb_identity_public bundle) bob alice suite = Inr a"
    and "is_supported (as_u16 suite)" "sends P xs a = Inr ms" "i < length xs" "i < 1000"
    and "kem_decapsulate P (drawn_x25519 E2) (x25519_base P eph) \<noteq> Inl InvalidInputError"
  shows "\<exists>b. perform_as_responder P ik_b spk_b (x25519_base P ik_a) (em_dh_public_key (ms ! i)) otpk_b pq = Inr root \<and>
    new_responder_session P E2 root ik_b (ms ! i) alice bob = Inr (b, snd (xs ! i))"
  by (rule first_flight [OF assms]) blast

lemma initiator_can_send:
  assumes "new_initiator_session P E root eph remote contact me suite = Inr a"
    and "hkdf_total P" "dh_commutes P" "\<And>k n pt ad. chacha_seal P k n pt ad \<noteq> None"
  shows "can_send P a" "sending_chain_length a = 0"
proof -
  obtain sid r ck where s: "derive_shared_session_id P root me contact = Inr sid"
    "a = fresh_session E suite r ck [] eph (x25519_base P eph) remote (is_pq_ratchet suite) sid contact me"
    by (rule initiator_session_okE [OF assms(1)])
  obtain bs where "sid = hex_encode bs" using session_id_16 [OF assms(2) s(1)] by blast
  then show "can_send P a" "sending_chain_length a = 0"
    using assms(2-4) by (simp_all add: s(2) can_send_def fresh_session_def x25519_base_length)
qed

lemma two_sends:
  assumes "can_send P a" "sending_chain_length a = 0" "length p \<le> 65536" "length q \<le> 65536"
  shows "\<exists>ms. sends P [(E, p), (E', q)] a = Inr ms"
proof -
  obtain m a1 where 1: "encrypt P E p a = (Inr m, a1)" "can_send P a1" "unat (sending_chain_length a1) = 1"
    using encrypt_succeeds [OF assms(1,3), of E] assms(2) by auto
  obtain m2 a2 where "encrypt P E' q a1 = (Inr m2, a2)"
    using encrypt_succeeds [OF 1(2) assms(4), of E'] 1(3) by auto
  with 1(1) show ?thesis by simp
qed

theorem first_flight_opens_session_witness:
  "\<exists>root a ms b. new_initiator_session sample_primitives sample_draws root (replicate 32 9) (replicate 32 2)
      (ascii ''bob'') (ascii ''alice'') PQ_RATCHET = Inr a \<and>
    sends sample_primitives [(sample_draws, [1, 2]), (sample_draws, [3])] a = Inr ms \<and>
    new_responder_session sample_primitives (sample_draws\<lparr> drawn_x25519 := replicate 32 1 \<rparr>) root (replicate 32 2)
      (ms ! 1) (ascii ''alice'') (ascii ''bob'') = Inr (b, [3])"
proof -
  let ?P = sample_primitives and ?E2 = "sample_draws\<lparr> drawn_x25519 := replicate 32 1 \<rparr>"
  obtain root where r: "perform_as_initiator ?P sample_draws (replicate 32 5) sample_bundle None = Inr (root, replicate 32 9)"
  proof -
    have "\<forall>k \<in> set_option (Some (replicate 32 4)).
        x25519 ?P (drawn_x25519 sample_draws) (x25519_base ?P k) \<noteq> replicate 32 0"
      unfolding sample_drawn using sample_nonzero [of 9 4] by simp
    then show thesis
      using that x3dh_shared_root [OF sample_dh_commutes sample_hkdf_total sample_ed25519_correct sample_names_keys
        sample_signed, of "replicate 32 5" sample_draws None]
        sample_nonzero [of 5 3] sample_nonzero [of 9 2] sample_nonzero [of 9 3]
      unfolding sample_drawn by auto
  qed
  have kd: "kem_decapsulate ?P (replicate 32 a) (x25519_base ?P (replicate 32 b)) = Inr (replicate 32 (a + b))"
    if "a + b \<noteq> 0" for a b
    using sample_nonzero [OF that] by (simp add: kem_decapsulate_ok x25519_base_length [OF sample_dh_commutes] sample_dh)
  have ip: "pb_identity_public sample_bundle = x25519_base ?P (replicate 32 2)" "pb_identity_public sample_bundle = replicate 32 2"
    by (simp_all add: sample_bundle_def sample_primitives_def)
  have "x25519 ?P (replicate 32 9) (pb_identity_public sample_bundle) \<noteq> replicate 32 0"
    unfolding ip(1) using sample_nonzero [of 9 2] by simp
  then obtain a where a: "new_initiator_session ?P sample_draws root (replicate 32 9) (pb_identity_public sample_bundle)
      (ascii ''bob'') (ascii ''alice'') PQ_RATCHET = Inr a"
    using new_initiator_total [OF sample_hkdf_total, of "replicate 32 9" "pb_identity_public sample_bundle"] ip(2) by fastforce
  have "chacha_seal ?P k n pt ad \<noteq> None" for k n pt ad by (simp add: sample_primitives_def)
  note c = initiator_can_send [OF a sample_hkdf_total sample_dh_commutes this]
  obtain ms where ms: "sends ?P [(sample_draws, [1, 2]), (sample_draws, [3])] a = Inr ms"
    using two_sends [OF c, of "[1, 2]" "[3]"] by auto
  have "kem_decapsulate ?P (drawn_x25519 ?E2) (x25519_base ?P (replicate 32 9)) \<noteq> Inl InvalidInputError"
    using kd [of 1 9] by simp
  from first_flight_opens_session [OF sample_aead_correct sample_hkdf_total sample_dh_commutes sample_names_keys r a _ ms, of 1, OF _ _ _ this]
  show ?thesis using a ms ip(2) by (auto simp: is_supported_def PQ_RATCHET_def)
qed

end
