(* ===== verification/Key_Manager.thy ===== *)
theory Key_Manager
  imports Kyber_Prekeys Session_Start
begin

text \<open>
  The keys of a device (\<open>src/crypto/keys.rs\<close>, and the signed message of a Kyber prekey in
  \<open>src/crypto/kyber_prekey_auth.rs\<close>): identity and signing keys, the signed prekey with its history, the
  one-time pool, the hybrid signature key and the Kyber prekeys, at the classic suite.  The clock and the random
  draws of a call are the argument \<open>E\<close>.  A bundle stays answerable through rotations, its signature always
  verifies, and what the identity key signs is never ambiguous.
\<close>

subsection \<open>State\<close>

record prekey_store =
  ps_private :: bytes
  ps_public :: bytes
  ps_signature :: bytes
  ps_created_at :: int
  ps_key_id :: u32
  ps_retired_at :: "int option"

record key_manager =
  km_identity_key :: "(bytes \<times> bytes) option"
  km_signing_key :: "(bytes \<times> bytes) option"
  km_current_signed_prekey :: "prekey_store option"
  km_old_prekeys :: "(u32, prekey_store) hmap"
  km_one_time_prekeys :: "(u32, bytes \<times> bytes) hmap"
  km_next_prekey_id :: u32
  km_next_otpk_id :: u32
  km_hybrid_sig_priv :: "bytes option"
  km_kyber_prekeys :: kyber_prekey_store

datatype km_error =
    KmCrypto crypto_error
  | IdentityKeyNotInitialized
  | SigningKeyNotInitialized
  | NoSignedPrekey
  | HybridKeyNotInitialized
  | HybridKeySize nat
  | NoHybridForKemIdentity
  | HybridTooShort
  | KmMlkem mlkem_error
  | KmKyber kyber_error
  | KyberPrekeyNotHeld u32
  | HybridIdentityKeyMissing

type_synonym 'a km = "(key_manager, km_error, 'a) eff"

definition current_timestamp :: "draws \<Rightarrow> int" where
  "current_timestamp E = sint (now E)"

definition km_new :: key_manager where
  "km_new = \<lparr> km_identity_key = None, km_signing_key = None, km_current_signed_prekey = None,
     km_old_prekeys = [], km_one_time_prekeys = [], km_next_prekey_id = 1, km_next_otpk_id = 1000000,
     km_hybrid_sig_priv = None, km_kyber_prekeys = kyber_default \<rparr>"

subsection \<open>The signed prekey\<close>

definition cleanup_old_prekeys :: "draws \<Rightarrow> int \<Rightarrow> key_manager \<Rightarrow> key_manager" where
  "cleanup_old_prekeys E max_age_seconds km = km\<lparr> km_old_prekeys := hm_retain (\<lambda>_ prekey.
     current_timestamp E - (case ps_retired_at prekey of None \<Rightarrow> ps_created_at prekey | Some t \<Rightarrow> t)
       < max_age_seconds) (km_old_prekeys km) \<rparr>"

definition rotate_signed_prekey :: "primitives \<Rightarrow> draws \<Rightarrow> unit km" where
  "rotate_signed_prekey P E =
    st_bind st_get (\<lambda>km.
    st_bind (st_lift (ok_or SigningKeyNotInitialized (km_signing_key km))) (\<lambda>(signing_key, _).
    st_bind (st_lift (map_err KmCrypto (generate_kem_keys P E))) (\<lambda>(private_key, public_key).
    st_bind (st_lift (map_err KmCrypto (sign P signing_key (build_prologue CLASSIC @ public_key)))) (\<lambda>signature.
    st_modify (\<lambda>km.
      let key_id = km_next_prekey_id km;
          prekey_store = \<lparr> ps_private = private_key, ps_public = public_key, ps_signature = signature,
            ps_created_at = current_timestamp E, ps_key_id = key_id, ps_retired_at = None \<rparr>;
          km = km\<lparr> km_next_prekey_id := sat_add (km_next_prekey_id km) 1 \<rparr>;
          km = (case km_current_signed_prekey km of
             None \<Rightarrow> km
           | Some old \<Rightarrow> km\<lparr> km_old_prekeys := hm_insert (ps_key_id old)
               (old\<lparr> ps_retired_at := Some (current_timestamp E) \<rparr>) (km_old_prekeys km) \<rparr>)
      in cleanup_old_prekeys E (prekey_cleanup_period_secs global_config)
           (km\<lparr> km_current_signed_prekey := Some prekey_store \<rparr>))))))"

text \<open>\<open>E\<close> draws the identity and signing keys, \<open>E'\<close> the first signed prekey.\<close>

definition initialize :: "primitives \<Rightarrow> draws \<Rightarrow> draws \<Rightarrow> unit km" where
  "initialize P E E' =
    st_bind (st_lift (map_err KmCrypto (generate_kem_keys P E))) (\<lambda>identity.
    st_bind (st_modify (\<lambda>km. km\<lparr> km_identity_key := Some identity \<rparr>)) (\<lambda>_.
    st_bind (st_lift (map_err KmCrypto (generate_signature_keys P E))) (\<lambda>signing.
    st_bind (st_modify (\<lambda>km. km\<lparr> km_signing_key := Some signing \<rparr>)) (\<lambda>_.
    rotate_signed_prekey P E'))))"

definition initialize_from_keys ::
    "primitives \<Rightarrow> bytes \<Rightarrow> bytes \<Rightarrow> bytes \<Rightarrow> bytes \<Rightarrow> unit km" where
  "initialize_from_keys P identity_secret signing_secret prekey_secret prekey_signature =
    st_bind (st_lift (map_err KmCrypto (from_private_key_to_public_key P identity_secret))) (\<lambda>identity_public.
    st_bind (st_lift (map_err KmCrypto (from_signature_private_to_public P signing_secret))) (\<lambda>signing_public.
    st_bind (st_lift (map_err KmCrypto (from_private_key_to_public_key P prekey_secret))) (\<lambda>prekey_public.
    st_modify (\<lambda>km. km\<lparr> km_identity_key := Some (identity_secret, identity_public),
      km_signing_key := Some (signing_secret, signing_public),
      km_current_signed_prekey := Some \<lparr> ps_private = prekey_secret, ps_public = prekey_public,
        ps_signature = prekey_signature, ps_created_at = 0, ps_key_id = 1, ps_retired_at = None \<rparr> \<rparr>))))"

definition initialize_from_keys_with_id ::
    "primitives \<Rightarrow> bytes \<Rightarrow> bytes \<Rightarrow> bytes \<Rightarrow> bytes \<Rightarrow> u32 \<Rightarrow> unit km" where
  "initialize_from_keys_with_id P identity_secret signing_secret prekey_secret prekey_signature spk_id =
    st_bind (initialize_from_keys P identity_secret signing_secret prekey_secret prekey_signature) (\<lambda>_.
    st_modify (\<lambda>km. km\<lparr>
      km_current_signed_prekey := map_option (\<lambda>store. store\<lparr> ps_key_id := spk_id \<rparr>) (km_current_signed_prekey km),
      km_next_prekey_id := (if km_next_prekey_id km \<le> spk_id then sat_add spk_id 1 else km_next_prekey_id km) \<rparr>))"

definition set_hybrid_signature_private :: "bytes \<Rightarrow> unit km" where
  "set_hybrid_signature_private priv_bytes =
    (if length priv_bytes \<noteq> HYBRID_SIG_SECRET_KEY_SIZE then st_throw (HybridKeySize (length priv_bytes))
     else st_modify (\<lambda>km. km\<lparr> km_hybrid_sig_priv := Some priv_bytes \<rparr>))"

definition initialize_from_keys_with_id_and_hybrid ::
    "primitives \<Rightarrow> bytes \<Rightarrow> bytes \<Rightarrow> bytes \<Rightarrow> bytes \<Rightarrow> u32 \<Rightarrow> bytes option \<Rightarrow> unit km" where
  "initialize_from_keys_with_id_and_hybrid P identity_secret signing_secret prekey_secret prekey_signature spk_id hybrid =
    st_bind (initialize_from_keys_with_id P identity_secret signing_secret prekey_secret prekey_signature spk_id) (\<lambda>_.
    case hybrid of None \<Rightarrow> st_return () | Some h \<Rightarrow> set_hybrid_signature_private h)"

definition identity_public_key :: "key_manager \<Rightarrow> km_error + bytes" where
  "identity_public_key km = ok_or IdentityKeyNotInitialized (map_option snd (km_identity_key km))"

definition identity_secret_key :: "key_manager \<Rightarrow> km_error + bytes" where
  "identity_secret_key km = ok_or IdentityKeyNotInitialized (map_option fst (km_identity_key km))"

definition verifying_key :: "key_manager \<Rightarrow> km_error + bytes" where
  "verifying_key km = ok_or SigningKeyNotInitialized (map_option snd (km_signing_key km))"

definition signing_secret_key :: "key_manager \<Rightarrow> km_error + bytes" where
  "signing_secret_key km = ok_or SigningKeyNotInitialized (map_option fst (km_signing_key km))"

definition current_signed_prekey :: "key_manager \<Rightarrow> km_error + prekey_store" where
  "current_signed_prekey km = ok_or NoSignedPrekey (km_current_signed_prekey km)"

definition current_signed_prekey_id :: "key_manager \<Rightarrow> u32 option" where
  "current_signed_prekey_id km = map_option ps_key_id (km_current_signed_prekey km)"

definition get_prekey :: "u32 \<Rightarrow> key_manager \<Rightarrow> prekey_store option" where
  "get_prekey key_id km = (case km_current_signed_prekey km of
     Some current \<Rightarrow> if ps_key_id current = key_id then Some current else hm_get key_id (km_old_prekeys km)
   | None \<Rightarrow> hm_get key_id (km_old_prekeys km))"

definition export_registration_bundle :: "key_manager \<Rightarrow> km_error + x3dh_public_key_bundle" where
  "export_registration_bundle km =
    res_bind (identity_public_key km) (\<lambda>identity_public.
    res_bind (verifying_key km) (\<lambda>vk.
    res_bind (current_signed_prekey km) (\<lambda>prekey.
    Inr \<lparr> pb_identity_public = identity_public, pb_signed_prekey_public = ps_public prekey,
      pb_signature = ps_signature prekey, pb_verifying_key = vk, pb_suite_id = CLASSIC,
      pb_one_time_prekey_public = None, pb_one_time_prekey_id = None, pb_spk_uploaded_at = 0,
      pb_spk_rotation_epoch = 0, pb_kyber_spk_uploaded_at = 0, pb_kyber_spk_rotation_epoch = 0 \<rparr>)))"

definition export_device_registration_bundle :: "key_manager \<Rightarrow> km_error + x3dh_registration_bundle" where
  "export_device_registration_bundle km =
    res_bind (identity_public_key km) (\<lambda>identity_public.
    res_bind (verifying_key km) (\<lambda>vk.
    res_bind (current_signed_prekey km) (\<lambda>prekey.
    Inr \<lparr> rb_identity_public = identity_public, rb_signed_prekey_public = ps_public prekey,
      rb_signature = ps_signature prekey, rb_verifying_key = vk, rb_suite_id = CLASSIC \<rparr>)))"

definition km_sign :: "primitives \<Rightarrow> bytes \<Rightarrow> key_manager \<Rightarrow> km_error + bytes" where
  "km_sign P data km =
    res_bind (ok_or SigningKeyNotInitialized (km_signing_key km)) (\<lambda>(signing_key, _).
      map_err KmCrypto (sign P signing_key data))"

definition old_prekeys_count :: "key_manager \<Rightarrow> nat" where
  "old_prekeys_count km = hm_len (km_old_prekeys km)"

definition add_old_prekey ::
    "primitives \<Rightarrow> draws \<Rightarrow> bytes \<Rightarrow> bytes \<Rightarrow> u32 \<Rightarrow> int \<Rightarrow> int option \<Rightarrow> unit km" where
  "add_old_prekey P E spk_priv spk_sig key_id created_at retired =
    (let max_age = prekey_cleanup_period_secs global_config;
         now_s = current_timestamp E;
         retired_at = (case retired of None \<Rightarrow> now_s | Some t \<Rightarrow> t)
     in if max_age \<le> now_s - retired_at then st_return ()
        else
          st_bind (st_lift (map_err KmCrypto (from_private_key_to_public_key P spk_priv))) (\<lambda>public.
          st_modify (\<lambda>km. km\<lparr>
            km_old_prekeys := hm_insert key_id \<lparr> ps_private = spk_priv, ps_public = public, ps_signature = spk_sig,
              ps_created_at = created_at, ps_key_id = key_id, ps_retired_at = Some retired_at \<rparr> (km_old_prekeys km),
            km_next_prekey_id := (if km_next_prekey_id km \<le> key_id then sat_add key_id 1 else km_next_prekey_id km) \<rparr>)))"

definition all_prekey_private_keys :: "key_manager \<Rightarrow> bytes list" where
  "all_prekey_private_keys km =
    (case km_current_signed_prekey km of None \<Rightarrow> [] | Some current \<Rightarrow> [ps_private current]) @
    map ps_private (sort_key (\<lambda>p. - uint (ps_key_id p)) (map snd (km_old_prekeys km)))"

subsection \<open>One-time prekeys\<close>

fun generate_one_time_prekeys :: "primitives \<Rightarrow> draws list \<Rightarrow> (u32 \<times> bytes) list km" where
  "generate_one_time_prekeys P [] km = (Inr [], km)"
| "generate_one_time_prekeys P (E # Es) km =
    (case generate_kem_keys P E of
       Inl e \<Rightarrow> (Inl (KmCrypto e), km)
     | Inr (private_key, public_key) \<Rightarrow>
         (let key_id = km_next_otpk_id km;
              km' = km\<lparr> km_next_otpk_id := key_id + 1,
                km_one_time_prekeys := hm_insert key_id (private_key, public_key) (km_one_time_prekeys km) \<rparr>
          in case generate_one_time_prekeys P Es km' of
               (Inl e, km'') \<Rightarrow> (Inl e, km'')
             | (Inr rest, km'') \<Rightarrow> (Inr ((key_id, public_key) # rest), km'')))"

definition consume_one_time_prekey :: "u32 \<Rightarrow> key_manager \<Rightarrow> bytes option \<times> key_manager" where
  "consume_one_time_prekey key_id km = (map_option fst (hm_get key_id (km_one_time_prekeys km)),
     km\<lparr> km_one_time_prekeys := hm_remove key_id (km_one_time_prekeys km) \<rparr>)"

definition peek_one_time_prekey :: "u32 \<Rightarrow> key_manager \<Rightarrow> bytes option" where
  "peek_one_time_prekey key_id km = map_option fst (hm_get key_id (km_one_time_prekeys km))"

definition one_time_prekey_count :: "key_manager \<Rightarrow> nat" where
  "one_time_prekey_count km = hm_len (km_one_time_prekeys km)"

definition set_next_otpk_id :: "u32 \<Rightarrow> key_manager \<Rightarrow> key_manager" where
  "set_next_otpk_id next_id km =
    (if km_next_otpk_id km < next_id then km\<lparr> km_next_otpk_id := next_id \<rparr> else km)"

definition export_one_time_prekeys :: "key_manager \<Rightarrow> (u32 \<times> bytes \<times> bytes) list" where
  "export_one_time_prekeys km = map (\<lambda>(i, priv, pub). (i, priv, pub)) (km_one_time_prekeys km)"

definition import_one :: "primitives \<Rightarrow> u32 \<times> bytes \<times> bytes \<Rightarrow> key_manager \<Rightarrow> key_manager" where
  "import_one P entry km = (case entry of (key_id, priv_bytes, pub_bytes) \<Rightarrow>
     if from_private_key_to_public_key P priv_bytes = Inr pub_bytes
     then km\<lparr> km_one_time_prekeys := hm_insert key_id (priv_bytes, pub_bytes) (km_one_time_prekeys km),
       km_next_otpk_id := (if km_next_otpk_id km \<le> key_id then key_id + 1 else km_next_otpk_id km) \<rparr>
     else km)"

definition import_one_time_prekeys :: "primitives \<Rightarrow> (u32 \<times> bytes \<times> bytes) list \<Rightarrow> key_manager \<Rightarrow> key_manager" where
  "import_one_time_prekeys P keys km = fold (import_one P) keys km"

definition prune_one_time_prekeys_below :: "u32 \<Rightarrow> key_manager \<Rightarrow> nat \<times> key_manager" where
  "prune_one_time_prekeys_below min_keep_id km =
    (let kept = hm_retain (\<lambda>i _. min_keep_id \<le> i) (km_one_time_prekeys km)
     in (hm_len (km_one_time_prekeys km) - hm_len kept, km\<lparr> km_one_time_prekeys := kept \<rparr>))"

subsection \<open>The hybrid signature key and the KEM identity\<close>

definition X3DH_SIGN_PROLOGUE :: bytes where "X3DH_SIGN_PROLOGUE = ascii ''KonstruktX3DH-v1''"
definition HYBRID_ID_BIND_PROLOGUE :: bytes where "HYBRID_ID_BIND_PROLOGUE = ascii ''KonstruktHybridId-v1''"
definition KEM_IDENTITY_SEED_INFO :: bytes where "KEM_IDENTITY_SEED_INFO = ascii ''Construct-KEM-identity-v1''"

definition build_x3dh_sign_message :: "u8 \<Rightarrow> bytes \<Rightarrow> bytes" where
  "build_x3dh_sign_message suite_id public_key = X3DH_SIGN_PROLOGUE @ [0x00, suite_id] @ public_key"

definition build_hybrid_identity_bind_message :: "bytes \<Rightarrow> bytes" where
  "build_hybrid_identity_bind_message hybrid_public = HYBRID_ID_BIND_PROLOGUE @ hybrid_public"

definition ensure_hybrid_signature_key :: "primitives \<Rightarrow> draws \<Rightarrow> bytes km" where
  "ensure_hybrid_signature_key P E km =
    (case km_hybrid_sig_priv km of
       None \<Rightarrow> (case hybrid_generate_signature_keys P E of
           Inl e \<Rightarrow> (Inl (KmCrypto e), km)
         | Inr (priv_key, pub_key) \<Rightarrow> (Inr pub_key, km\<lparr> km_hybrid_sig_priv := Some priv_key \<rparr>))
     | Some priv_key \<Rightarrow> (map_err KmCrypto (hybrid_private_to_public P priv_key), km))"

definition hybrid_signature_public_key :: "primitives \<Rightarrow> key_manager \<Rightarrow> bytes option" where
  "hybrid_signature_public_key P km = (case km_hybrid_sig_priv km of
     None \<Rightarrow> None
   | Some p \<Rightarrow> (case hybrid_private_to_public P p of Inl _ \<Rightarrow> None | Inr pk \<Rightarrow> Some pk))"

definition sign_hybrid :: "primitives \<Rightarrow> bytes \<Rightarrow> key_manager \<Rightarrow> km_error + bytes" where
  "sign_hybrid P message km =
    res_bind (ok_or HybridKeyNotInitialized (km_hybrid_sig_priv km)) (\<lambda>priv_key.
      map_err KmCrypto (hybrid_sign P priv_key message))"

definition sign_hybrid_prekey :: "primitives \<Rightarrow> draws \<Rightarrow> u8 \<Rightarrow> bytes \<Rightarrow> bytes km" where
  "sign_hybrid_prekey P E suite_id public_key =
    st_bind (ensure_hybrid_signature_key P E) (\<lambda>_.
    st_bind st_get (\<lambda>km.
      st_lift (sign_hybrid P (build_x3dh_sign_message suite_id public_key) km)))"

definition kem_identity_seed :: "primitives \<Rightarrow> key_manager \<Rightarrow> km_error + bytes" where
  "kem_identity_seed P km =
    res_bind (ok_or NoHybridForKemIdentity (km_hybrid_sig_priv km)) (\<lambda>hybrid.
      if length hybrid < ED25519_SECRET_KEY_SIZE + ML_DSA_65_SECRET_KEY_SIZE then Inl HybridTooShort
      else map_err KmCrypto (hkdf_derive_key P []
        (take ML_DSA_65_SECRET_KEY_SIZE (drop ED25519_SECRET_KEY_SIZE hybrid)) KEM_IDENTITY_SEED_INFO MLKEM_SEED_SIZE))"

definition kem_identity_public :: "primitives \<Rightarrow> key_manager \<Rightarrow> km_error + bytes" where
  "kem_identity_public P km =
    res_bind (kem_identity_seed P km) (\<lambda>seed. map_err KmMlkem (mlkem1024_public_from_seed P seed))"

definition kem_identity_decapsulate :: "primitives \<Rightarrow> bytes \<Rightarrow> key_manager \<Rightarrow> km_error + bytes" where
  "kem_identity_decapsulate P ciphertext km =
    res_bind (kem_identity_seed P km) (\<lambda>seed. map_err KmMlkem (mlkem1024_decapsulate P seed ciphertext))"

subsection \<open>Kyber prekeys: the signed message and the upload\<close>

datatype kyber_prekey_signature = Valid | Missing | Invalid

definition KYBER_PREKEY_SIGN_SUITE_V2 :: u8 where "KYBER_PREKEY_SIGN_SUITE_V2 = 0x11"

definition kyber_prekey_sign_message_v2 :: "u64 \<Rightarrow> bytes \<Rightarrow> bytes" where
  "kyber_prekey_sign_message_v2 created_at kyber_public =
    build_x3dh_sign_message KYBER_PREKEY_SIGN_SUITE_V2 (u64_to_be created_at @ kyber_public)"

text \<open>A field that is absent or empty counts as absent.\<close>

definition non_empty :: "bytes option \<Rightarrow> bytes option" where
  "non_empty b = Option.bind b (\<lambda>x. if x = [] then None else Some x)"

definition check_kyber_prekey_signature_v2 ::
    "primitives \<Rightarrow> bytes \<Rightarrow> bytes \<Rightarrow> u64 \<Rightarrow> bytes option \<Rightarrow> kyber_prekey_signature" where
  "check_kyber_prekey_signature_v2 P vk kyber_public created_at signature =
    (case non_empty signature of
       None \<Rightarrow> Missing
     | Some sig \<Rightarrow> (case verify P vk (kyber_prekey_sign_message_v2 created_at kyber_public) sig of
         Inr _ \<Rightarrow> Valid
       | Inl _ \<Rightarrow> Invalid))"

definition check_kyber_prekey_hybrid_signature ::
    "primitives \<Rightarrow> bytes \<Rightarrow> bytes \<Rightarrow> u64 \<Rightarrow> bytes option \<Rightarrow> kyber_prekey_signature" where
  "check_kyber_prekey_hybrid_signature P hybrid_identity_key kyber_public created_at signature =
    (case non_empty signature of
       None \<Rightarrow> Missing
     | Some sig \<Rightarrow>
         if length hybrid_identity_key \<noteq> HYBRID_SIG_PUBLIC_KEY_SIZE then Invalid
         else (case hybrid_verify P hybrid_identity_key (kyber_prekey_sign_message_v2 created_at kyber_public) sig of
           Inr _ \<Rightarrow> Valid
         | Inl _ \<Rightarrow> Invalid))"

definition kyber_upload :: "primitives \<Rightarrow> kyber_prekey \<Rightarrow> key_manager \<Rightarrow> km_error + kyber_prekey_upload" where
  "kyber_upload P prekey km =
    res_bind (map_err KmMlkem (kyber_public_key P prekey)) (\<lambda>public_key.
    let message = kyber_prekey_sign_message_v2 (kk_created_at prekey) public_key in
    res_bind (ok_or SigningKeyNotInitialized (km_signing_key km)) (\<lambda>(signing_key, _).
    res_bind (map_err KmCrypto (sign P signing_key message)) (\<lambda>signature.
    res_bind (sign_hybrid P message km) (\<lambda>hybrid_signature.
    Inr \<lparr> ku_key_id = kk_key_id prekey, ku_public_key = public_key, ku_created_at = kk_created_at prekey,
      ku_signature = signature, ku_hybrid_signature = hybrid_signature \<rparr>))))"

fun kyber_uploads :: "primitives \<Rightarrow> kyber_prekey list \<Rightarrow> key_manager \<Rightarrow> km_error + kyber_prekey_upload list" where
  "kyber_uploads P [] km = Inr []"
| "kyber_uploads P (k # ks) km =
    res_bind (kyber_upload P k km) (\<lambda>u. res_bind (kyber_uploads P ks km) (\<lambda>us. Inr (u # us)))"

definition require_hybrid_key :: "primitives \<Rightarrow> key_manager \<Rightarrow> km_error + unit" where
  "require_hybrid_key P km =
    (if hybrid_signature_public_key P km = None then Inl HybridIdentityKeyMissing else Inr ())"

text \<open>An operation on the Kyber store, inside the key manager.\<close>

definition on_kyber :: "(kyber_prekey_store, kyber_error, 'a) eff \<Rightarrow> 'a km" where
  "on_kyber m km = (case m (km_kyber_prekeys km) of
     (r, s) \<Rightarrow> (map_err KmKyber r, km\<lparr> km_kyber_prekeys := s \<rparr>))"

definition generate_kyber_one_time_prekeys ::
    "primitives \<Rightarrow> draws list \<Rightarrow> u64 \<Rightarrow> kyber_prekey_upload list km" where
  "generate_kyber_one_time_prekeys P Es now_s =
    st_bind st_get (\<lambda>km.
    st_bind (st_lift (require_hybrid_key P km)) (\<lambda>_.
    st_bind (on_kyber (generate_otpks P Es now_s)) (\<lambda>keys.
    st_bind st_get (\<lambda>km. st_lift (kyber_uploads P keys km)))))"

definition begin_kyber_spk_rotation :: "primitives \<Rightarrow> draws \<Rightarrow> kyber_prekey_upload km" where
  "begin_kyber_spk_rotation P E =
    st_bind st_get (\<lambda>km.
    st_bind (st_lift (require_hybrid_key P km)) (\<lambda>_.
    st_bind (on_kyber (begin_spk_rotation P E (now E))) (\<lambda>prekey.
    st_bind st_get (\<lambda>km. st_lift (kyber_upload P prekey km)))))"

definition commit_kyber_spk_rotation :: "draws \<Rightarrow> key_manager \<Rightarrow> bool \<times> key_manager" where
  "commit_kyber_spk_rotation E km = (case commit_spk_rotation (now E) (km_kyber_prekeys km) of
     (b, s) \<Rightarrow> (b, km\<lparr> km_kyber_prekeys := s \<rparr>))"

definition rollback_kyber_spk_rotation :: "key_manager \<Rightarrow> key_manager" where
  "rollback_kyber_spk_rotation km = km\<lparr> km_kyber_prekeys := rollback_spk_rotation (km_kyber_prekeys km) \<rparr>"

definition current_kyber_spk_upload :: "primitives \<Rightarrow> key_manager \<Rightarrow> km_error + kyber_prekey_upload option" where
  "current_kyber_spk_upload P km = (case ks_spk (km_kyber_prekeys km) of
     Some prekey \<Rightarrow> res_bind (kyber_upload P prekey km) (\<lambda>u. Inr (Some u))
   | None \<Rightarrow> Inr None)"

definition decapsulate_with_kyber_prekey :: "primitives \<Rightarrow> u32 \<Rightarrow> bytes \<Rightarrow> key_manager \<Rightarrow> km_error + bytes" where
  "decapsulate_with_kyber_prekey P key_id ciphertext km =
    res_bind (ok_or (KyberPrekeyNotHeld key_id)
      (if key_id = 0 then ks_spk (km_kyber_prekeys km) else kyber_find key_id (km_kyber_prekeys km))) (\<lambda>prekey.
      map_err KmMlkem (mlkem1024_decapsulate P (kk_seed prekey) ciphertext))"

definition import_kyber_prekeys :: "draws \<Rightarrow> cfe_kyber_prekeys \<Rightarrow> key_manager \<Rightarrow> key_manager" where
  "import_kyber_prekeys E record km = km\<lparr> km_kyber_prekeys := kyber_from_cfe record (now E) \<rparr>"

subsection \<open>Sequences of operations\<close>

datatype km_op =
    RotateSpk draws | AddOtpks "draws list" | UseOtpk u32 | DropOtpks u32
  | RestoreOtpks "(u32 \<times> bytes \<times> bytes) list" | RaiseOtpkId u32 | EnsureHybrid draws | SetHybrid bytes
  | AddKyberOtpks "draws list" u64 | BeginKyber draws | CommitKyber draws | RollbackKyber
  | RestoreKyber draws cfe_kyber_prekeys

fun km_step :: "primitives \<Rightarrow> km_op \<Rightarrow> key_manager \<Rightarrow> key_manager" where
  "km_step P (RotateSpk E) km = snd (rotate_signed_prekey P E km)"
| "km_step P (AddOtpks Es) km = snd (generate_one_time_prekeys P Es km)"
| "km_step P (UseOtpk i) km = snd (consume_one_time_prekey i km)"
| "km_step P (DropOtpks i) km = snd (prune_one_time_prekeys_below i km)"
| "km_step P (RestoreOtpks keys) km = import_one_time_prekeys P keys km"
| "km_step P (RaiseOtpkId i) km = set_next_otpk_id i km"
| "km_step P (EnsureHybrid E) km = snd (ensure_hybrid_signature_key P E km)"
| "km_step P (SetHybrid b) km = snd (set_hybrid_signature_private b km)"
| "km_step P (AddKyberOtpks Es t) km = snd (generate_kyber_one_time_prekeys P Es t km)"
| "km_step P (BeginKyber E) km = snd (begin_kyber_spk_rotation P E km)"
| "km_step P (CommitKyber E) km = snd (commit_kyber_spk_rotation E km)"
| "km_step P RollbackKyber km = rollback_kyber_spk_rotation km"
| "km_step P (RestoreKyber E record) km = import_kyber_prekeys E record km"

fun rotation_ok :: "int \<Rightarrow> km_op \<Rightarrow> bool" where
  "rotation_ok t (RotateSpk E) = (length (drawn_x25519 E) = 32 \<and> t \<le> current_timestamp E \<and>
     current_timestamp E < t + prekey_cleanup_period_secs global_config)"
| "rotation_ok t _ = True"

fun draws_ok :: "km_op \<Rightarrow> bool" where
  "draws_ok (RotateSpk E) = (length (drawn_x25519 E) = 32)"
| "draws_ok _ = True"

definition spk_part :: "key_manager \<Rightarrow> (bytes \<times> bytes) option \<times> (bytes \<times> bytes) option \<times>
    prekey_store option \<times> (u32, prekey_store) hmap \<times> u32" where
  "spk_part km = (km_identity_key km, km_signing_key km, km_current_signed_prekey km, km_old_prekeys km,
     km_next_prekey_id km)"

lemma spk_part_eq: "spk_part km' = spk_part km \<longleftrightarrow> km_identity_key km' = km_identity_key km \<and>
    km_signing_key km' = km_signing_key km \<and> km_current_signed_prekey km' = km_current_signed_prekey km \<and>
    km_old_prekeys km' = km_old_prekeys km \<and> km_next_prekey_id km' = km_next_prekey_id km"
  by (auto simp: spk_part_def)

lemma generate_otpk_spk_part: "spk_part (snd (generate_one_time_prekeys P Es km)) = spk_part km"
proof (induction Es arbitrary: km)
  case (Cons E Es)
  let ?km = "km\<lparr> km_next_otpk_id := km_next_otpk_id km + 1, km_one_time_prekeys :=
    hm_insert (km_next_otpk_id km) (drawn_x25519 E, x25519_base P (drawn_x25519 E)) (km_one_time_prekeys km) \<rparr>"
  obtain r km' where g: "generate_one_time_prekeys P Es ?km = (r, km')" by (cases "generate_one_time_prekeys P Es ?km")
  have "spk_part km' = spk_part km" using Cons [of ?km] g by (simp add: spk_part_def)
  then show ?case using g by (cases r) (simp_all add: generate_kem_keys_def Let_def)
qed simp

lemma import_one_spk_part: "spk_part (import_one P e km) = spk_part km"
  by (auto simp: import_one_def spk_part_def split: prod.split)

lemma import_otpk_spk_part: "spk_part (import_one_time_prekeys P keys km) = spk_part km"
  unfolding import_one_time_prekeys_def by (induction keys arbitrary: km) (simp_all add: import_one_spk_part)

lemma on_kyber_spk_part: "on_kyber m km = (r, km') \<Longrightarrow> spk_part km' = spk_part km"
  by (auto simp: on_kyber_def spk_part_def split: prod.splits)

lemma kyber_op_spk_part:
  "spk_part (snd (generate_kyber_one_time_prekeys P Es t km)) = spk_part km"
  "spk_part (snd (begin_kyber_spk_rotation P E km)) = spk_part km"
  unfolding generate_kyber_one_time_prekeys_def begin_kyber_spk_rotation_def
  by (auto simp: st_defs on_kyber_spk_part split: prod.split sum.split)

lemma km_step_spk_part: "\<forall>E. op \<noteq> RotateSpk E \<Longrightarrow> spk_part (km_step P op km) = spk_part km"
proof (cases op)
  case (EnsureHybrid E)
  then show ?thesis
    by (simp add: ensure_hybrid_signature_key_def spk_part_def split: option.split sum.split prod.split)
next
  case (SetHybrid b)
  then show ?thesis by (simp add: set_hybrid_signature_private_def spk_part_def)
qed (simp_all add: generate_otpk_spk_part import_otpk_spk_part kyber_op_spk_part,
  simp_all add: spk_part_def consume_one_time_prekey_def prune_one_time_prekeys_below_def Let_def set_next_otpk_id_def
    commit_kyber_spk_rotation_def rollback_kyber_spk_rotation_def import_kyber_prekeys_def split: prod.split)

subsection \<open>Rotation\<close>

definition rotated_out :: "draws \<Rightarrow> key_manager \<Rightarrow> (u32, prekey_store) hmap" where
  "rotated_out E km = (case km_current_signed_prekey km of
     None \<Rightarrow> km_old_prekeys km
   | Some old \<Rightarrow> hm_insert (ps_key_id old) (old\<lparr> ps_retired_at := Some (current_timestamp E) \<rparr>) (km_old_prekeys km))"

lemma rotateE:
  obtains (failed) "km_step P (RotateSpk E) km = km"
  | (rotated) sk pk sig where "km_signing_key km = Some (sk, pk)"
      "sign P sk (build_prologue CLASSIC @ x25519_base P (drawn_x25519 E)) = Inr sig"
      "spk_part (km_step P (RotateSpk E) km) = (km_identity_key km, km_signing_key km,
        Some \<lparr> ps_private = drawn_x25519 E, ps_public = x25519_base P (drawn_x25519 E), ps_signature = sig,
          ps_created_at = current_timestamp E, ps_key_id = km_next_prekey_id km, ps_retired_at = None \<rparr>,
        hm_retain (\<lambda>_ prekey. current_timestamp E -
            (case ps_retired_at prekey of None \<Rightarrow> ps_created_at prekey | Some t \<Rightarrow> t)
          < prekey_cleanup_period_secs global_config) (rotated_out E km), sat_add (km_next_prekey_id km) 1)"
proof (cases "km_signing_key km")
  case None
  then show thesis by (intro failed) (simp add: rotate_signed_prekey_def)
next
  case (Some kp)
  obtain sk pk where kp: "kp = (sk, pk)" by (cases kp)
  show thesis
  proof (cases "sign P sk (build_prologue CLASSIC @ x25519_base P (drawn_x25519 E))")
    case (Inl e)
    then show thesis using Some kp by (intro failed) (simp add: rotate_signed_prekey_def generate_kem_keys_def)
  next
    case (Inr sig)
    then show thesis using Some kp
      by (intro rotated [of sk pk sig])
        (simp_all add: rotate_signed_prekey_def generate_kem_keys_def Let_def cleanup_old_prekeys_def spk_part_def
          rotated_out_def split: option.split)
  qed
qed

text \<open>The invariant of the keys.\<close>

definition km_keys_ok :: "primitives \<Rightarrow> key_manager \<Rightarrow> bool" where
  "km_keys_ok P km \<longleftrightarrow>
    (\<forall>sk pk. km_identity_key km = Some (sk, pk) \<longrightarrow> length sk = 32 \<and> pk = x25519_base P sk) \<and>
    (\<forall>sk pk. km_signing_key km = Some (sk, pk) \<longrightarrow> length sk = 32 \<and> pk = ed25519_vk P sk) \<and>
    (\<forall>c. km_current_signed_prekey km = Some c \<longrightarrow> length (ps_private c) = 32 \<and>
      ps_public c = x25519_base P (ps_private c))"

definition spk_ids_ok :: "key_manager \<Rightarrow> bool" where
  "spk_ids_ok km \<longleftrightarrow> hm_wf (km_old_prekeys km) \<and>
    (\<forall>i. hm_get i (km_old_prekeys km) \<noteq> None \<longrightarrow> i < km_next_prekey_id km) \<and>
    (\<forall>c. km_current_signed_prekey km = Some c \<longrightarrow>
      ps_key_id c < km_next_prekey_id km \<and> hm_get (ps_key_id c) (km_old_prekeys km) = None)"

definition spk_signed :: "primitives \<Rightarrow> key_manager \<Rightarrow> bool" where
  "spk_signed P km \<longleftrightarrow> (\<forall>c sk pk. km_current_signed_prekey km = Some c \<longrightarrow> km_signing_key km = Some (sk, pk) \<longrightarrow>
    sign P sk (build_prologue CLASSIC @ ps_public c) = Inr (ps_signature c))"

definition spk_held :: "int \<Rightarrow> bytes \<Rightarrow> key_manager \<Rightarrow> bool" where
  "spk_held t k km \<longleftrightarrow> (\<exists>c. km_current_signed_prekey km = Some c \<and> ps_private c = k) \<or>
    (\<exists>i p r. hm_get i (km_old_prekeys km) = Some p \<and> ps_private p = k \<and> ps_retired_at p = Some r \<and> t \<le> r)"

lemma spk_part_cong:
  assumes "spk_part km' = spk_part km"
  shows "km_keys_ok P km' = km_keys_ok P km" "spk_ids_ok km' = spk_ids_ok km" "spk_signed P km' = spk_signed P km"
    "spk_held t k km' = spk_held t k km"
  using assms by (simp_all add: spk_part_eq km_keys_ok_def spk_ids_ok_def spk_signed_def spk_held_def)

lemma rotated_keys_ok:
  assumes "km_keys_ok P km" "length k = 32" "km_signing_key km = Some (sk, pk)"
    and "sign P sk (build_prologue CLASSIC @ x25519_base P k) = Inr sig"
    and "spk_part km' = (km_identity_key km, km_signing_key km, Some \<lparr> ps_private = k, ps_public = x25519_base P k,
      ps_signature = sig, ps_created_at = t, ps_key_id = i, ps_retired_at = None \<rparr>, old, n)"
  shows "km_keys_ok P km'" "spk_signed P km'"
proof -
  have f: "km_identity_key km' = km_identity_key km" "km_signing_key km' = km_signing_key km"
    "km_current_signed_prekey km' = Some \<lparr> ps_private = k, ps_public = x25519_base P k,
      ps_signature = sig, ps_created_at = t, ps_key_id = i, ps_retired_at = None \<rparr>"
    using assms(5) by (simp_all add: spk_part_def)
  show "km_keys_ok P km'" using assms(1,2) unfolding km_keys_ok_def f by simp
  show "spk_signed P km'" using assms(3,4) unfolding spk_signed_def f by simp
qed

lemma km_step_keys_ok:
  assumes "km_keys_ok P km" "draws_ok op"
  shows "km_keys_ok P (km_step P op km)" and "spk_signed P km \<Longrightarrow> spk_signed P (km_step P op km)"
proof -
  have "km_keys_ok P (km_step P op km) \<and> (spk_signed P km \<longrightarrow> spk_signed P (km_step P op km))"
  proof (cases "\<exists>E. op = RotateSpk E")
    case False
    then show ?thesis using assms(1) spk_part_cong [OF km_step_spk_part] by simp
  next
    case True
    then obtain E where op: "op = RotateSpk E" ..
    then have E: "length (drawn_x25519 E) = 32" using assms(2) by simp
    show ?thesis
    proof (cases rule: rotateE [of P E km])
      case failed
      then show ?thesis unfolding op using assms(1) by (simp del: km_step.simps)
    next
      case (rotated sk pk sig)
      then show ?thesis unfolding op using rotated_keys_ok [OF assms(1) E rotated] by (simp del: km_step.simps)
    qed
  qed
  then show "km_keys_ok P (km_step P op km)" and "spk_signed P km \<Longrightarrow> spk_signed P (km_step P op km)" by simp_all
qed

lemma hm_retain_some: "hm_wf m \<Longrightarrow> hm_get k (hm_retain p m) = Some v \<longleftrightarrow> hm_get k m = Some v \<and> p k v"
  by (auto simp: hm_retain_get split: option.split)

lemma next_id_grows: "unat (n :: u32) + 1 < 2 ^ 32 \<Longrightarrow> n < sat_add n 1"
  by (simp add: word_less_nat_alt unat_sat_add)

lemma rotated_out_get:
  "hm_get i (rotated_out E km) = (case km_current_signed_prekey km of
     None \<Rightarrow> hm_get i (km_old_prekeys km)
   | Some c \<Rightarrow> if i = ps_key_id c then Some (c\<lparr> ps_retired_at := Some (current_timestamp E) \<rparr>)
       else hm_get i (km_old_prekeys km))"
  by (simp add: rotated_out_def hm.get_insert split: option.split)

lemma rotated_out_wf: "hm_wf (km_old_prekeys km) \<Longrightarrow> hm_wf (rotated_out E km)"
  by (simp add: rotated_out_def hm.wf_insert split: option.split)

lemma rotated_out_bound:
  assumes "spk_ids_ok km" "hm_get i (rotated_out E km) \<noteq> None"
  shows "i < km_next_prekey_id km"
  using assms by (auto simp: rotated_out_get spk_ids_ok_def split: option.splits if_splits)

lemma rotated_ids_ok:
  assumes ok: "spk_ids_ok km" and b: "unat (km_next_prekey_id km) + 1 < 2 ^ 32"
    and "spk_part km' = (ik, sk, Some c, hm_retain p (rotated_out E km), sat_add (km_next_prekey_id km) 1)"
    and "ps_key_id c = km_next_prekey_id km"
  shows "spk_ids_ok km'"
proof -
  have wf: "hm_wf (rotated_out E km)" using ok rotated_out_wf by (auto simp: spk_ids_ok_def)
  have f: "km_current_signed_prekey km' = Some c" "km_old_prekeys km' = hm_retain p (rotated_out E km)"
    "km_next_prekey_id km' = sat_add (km_next_prekey_id km) 1"
    using assms(3) by (simp_all add: spk_part_def)
  have lt: "i < km_next_prekey_id km" if "hm_get i (hm_retain p (rotated_out E km)) \<noteq> None" for i
    using that rotated_out_bound [OF ok] wf by (auto simp: hm_retain_some)
  have "hm_get (ps_key_id c) (hm_retain p (rotated_out E km)) = None" using lt [of "ps_key_id c"] assms(4) by (metis order.irrefl)
  then show ?thesis
    unfolding spk_ids_ok_def f using lt next_id_grows [OF b] wf assms(4)
    by (auto simp: hm.wf_retain intro: order.strict_trans)
qed

lemma rotated_held:
  assumes ok: "spk_ids_ok km" and h: "spk_held t k km" and E: "rotation_ok t (RotateSpk E)"
    and "spk_part km' = (ik, sk, Some c, hm_retain (\<lambda>_ prekey. current_timestamp E -
        (case ps_retired_at prekey of None \<Rightarrow> ps_created_at prekey | Some r \<Rightarrow> r)
      < prekey_cleanup_period_secs global_config) (rotated_out E km), n)"
  shows "spk_held t k km'"
proof -
  have wf: "hm_wf (rotated_out E km)" using ok rotated_out_wf by (auto simp: spk_ids_ok_def)
  have "\<exists>i p r. hm_get i (rotated_out E km) = Some p \<and> ps_private p = k \<and> ps_retired_at p = Some r \<and> t \<le> r"
    using h unfolding spk_held_def
  proof
    assume "\<exists>c. km_current_signed_prekey km = Some c \<and> ps_private c = k"
    then show ?thesis using E by (auto simp: rotated_out_get)
  next
    assume "\<exists>i p r. hm_get i (km_old_prekeys km) = Some p \<and> ps_private p = k \<and> ps_retired_at p = Some r \<and> t \<le> r"
    then obtain i p r where i: "hm_get i (km_old_prekeys km) = Some p" "ps_private p = k" "ps_retired_at p = Some r" "t \<le> r"
      by blast
    then have "hm_get i (rotated_out E km) = Some p"
      using ok by (auto simp: rotated_out_get spk_ids_ok_def split: option.split)
    then show ?thesis using i by blast
  qed
  then obtain i p r where i: "hm_get i (rotated_out E km) = Some p" "ps_private p = k" "ps_retired_at p = Some r" "t \<le> r"
    by blast
  have o: "km_old_prekeys km' = hm_retain (\<lambda>_ prekey. current_timestamp E -
        (case ps_retired_at prekey of None \<Rightarrow> ps_created_at prekey | Some r \<Rightarrow> r)
      < prekey_cleanup_period_secs global_config) (rotated_out E km)"
    using assms(4) by (simp add: spk_part_def)
  have "hm_get i (km_old_prekeys km') = Some p" unfolding o using i E wf by (simp add: hm_retain_some)
  then show ?thesis using i unfolding spk_held_def by blast
qed

lemma km_step_ids:
  assumes "spk_ids_ok km" "unat (km_next_prekey_id km) + 1 < 2 ^ 32"
  shows "spk_ids_ok (km_step P op km)" "unat (km_next_prekey_id (km_step P op km)) \<le> unat (km_next_prekey_id km) + 1"
    "spk_held t k km \<Longrightarrow> rotation_ok t op \<Longrightarrow> spk_held t k (km_step P op km)"
proof -
  have "spk_ids_ok (km_step P op km) \<and> unat (km_next_prekey_id (km_step P op km)) \<le> unat (km_next_prekey_id km) + 1 \<and>
    (spk_held t k km \<longrightarrow> rotation_ok t op \<longrightarrow> spk_held t k (km_step P op km))" (is "?Q op")
  proof (cases "\<exists>E. op = RotateSpk E")
    case False
    then have s: "spk_part (km_step P op km) = spk_part km" using km_step_spk_part by simp
    then show ?thesis using assms(1) spk_part_cong [OF s] by (simp add: spk_part_eq)
  next
    case True
    then obtain E where op: "op = RotateSpk E" ..
    have "?Q (RotateSpk E)"
    proof (cases rule: rotateE [of P E km])
      case failed
      then show ?thesis using assms(1) by (simp del: km_step.simps rotation_ok.simps)
    next
      case (rotated sk pk sig)
      have "km_next_prekey_id (km_step P (RotateSpk E) km) = sat_add (km_next_prekey_id km) 1"
        using rotated(3) by (simp add: spk_part_def del: km_step.simps)
      then have "unat (km_next_prekey_id (km_step P (RotateSpk E) km)) \<le> unat (km_next_prekey_id km) + 1"
        by (simp add: unat_sat_add del: km_step.simps)
      moreover have "spk_ids_ok (km_step P (RotateSpk E) km)" by (rule rotated_ids_ok [OF assms rotated(3)]) simp
      ultimately show ?thesis using rotated_held [OF assms(1) _ _ rotated(3)] by blast
    qed
    then show ?thesis unfolding op .
  qed
  then show "spk_ids_ok (km_step P op km)" "unat (km_next_prekey_id (km_step P op km)) \<le> unat (km_next_prekey_id km) + 1"
    "spk_held t k km \<Longrightarrow> rotation_ok t op \<Longrightarrow> spk_held t k (km_step P op km)" by blast+
qed

lemma km_run_keys_ok:
  "km_keys_ok P km \<Longrightarrow> list_all draws_ok ops \<Longrightarrow> km_keys_ok P (fold (km_step P) ops km)"
  "km_keys_ok P km \<Longrightarrow> spk_signed P km \<Longrightarrow> list_all draws_ok ops \<Longrightarrow> spk_signed P (fold (km_step P) ops km)"
  by (induction ops arbitrary: km) (simp_all add: km_step_keys_ok del: km_step.simps)

lemma km_run_ids:
  assumes "spk_ids_ok km" "unat (km_next_prekey_id km) + length ops < 2 ^ 32"
  shows "spk_ids_ok (fold (km_step P) ops km)"
    "unat (km_next_prekey_id (fold (km_step P) ops km)) \<le> unat (km_next_prekey_id km) + length ops"
    "spk_held t k km \<Longrightarrow> list_all (rotation_ok t) ops \<Longrightarrow> spk_held t k (fold (km_step P) ops km)"
proof -
  have "spk_ids_ok (fold (km_step P) ops km) \<and>
    unat (km_next_prekey_id (fold (km_step P) ops km)) \<le> unat (km_next_prekey_id km) + length ops \<and>
    (spk_held t k km \<longrightarrow> list_all (rotation_ok t) ops \<longrightarrow> spk_held t k (fold (km_step P) ops km))"
    using assms
  proof (induction ops arbitrary: km)
    case (Cons op ops)
    have b: "unat (km_next_prekey_id km) + 1 < 2 ^ 32" using Cons.prems(2) by simp
    note s = km_step_ids [OF Cons.prems(1) b, where P = P and op = op]
    have "unat (km_next_prekey_id (km_step P op km)) + length ops < 2 ^ 32" using s(2) Cons.prems(2) by simp
    note ih = Cons.IH [OF s(1) this]
    show ?case using ih s(2,3) by (auto simp del: km_step.simps)
  qed simp
  then show "spk_ids_ok (fold (km_step P) ops km)"
    "unat (km_next_prekey_id (fold (km_step P) ops km)) \<le> unat (km_next_prekey_id km) + length ops"
    "spk_held t k km \<Longrightarrow> list_all (rotation_ok t) ops \<Longrightarrow> spk_held t k (fold (km_step P) ops km)" by blast+
qed

text \<open>A key manager set up for a new device, or restored from the private keys of an old one.\<close>

definition km_created :: "primitives \<Rightarrow> key_manager \<Rightarrow> bool" where
  "km_created P km \<longleftrightarrow> (\<exists>E E'. length (drawn_x25519 E) = 32 \<and> length (drawn_ed25519 E) = 32 \<and>
    length (drawn_x25519 E') = 32 \<and> initialize P E E' km_new = (Inr (), km))"

definition km_restored :: "primitives \<Rightarrow> key_manager \<Rightarrow> bool" where
  "km_restored P km \<longleftrightarrow> (\<exists>ik sk spk sig spk_id.
    initialize_from_keys_with_id P ik sk spk sig spk_id km_new = (Inr (), km))"

definition km_ready :: "key_manager \<Rightarrow> bool" where
  "km_ready km \<longleftrightarrow> km_identity_key km \<noteq> None \<and> km_signing_key km \<noteq> None \<and> km_current_signed_prekey km \<noteq> None"

lemma km_created_ok:
  assumes "km_created P km"
  shows "km_ready km" "km_keys_ok P km" "spk_signed P km" "spk_ids_ok km"
proof -
  obtain E E' where E: "length (drawn_x25519 E) = 32" "length (drawn_ed25519 E) = 32" "length (drawn_x25519 E') = 32"
    "initialize P E E' km_new = (Inr (), km)" using assms by (auto simp: km_created_def)
  define k where "k = km_new\<lparr> km_identity_key := Some (drawn_x25519 E, x25519_base P (drawn_x25519 E)),
    km_signing_key := Some (drawn_ed25519 E, ed25519_vk P (drawn_ed25519 E)) \<rparr>"
  have r: "rotate_signed_prekey P E' k = (Inr (), km)"
    using E(4) by (simp add: initialize_def generate_kem_keys_def generate_signature_keys_def k_def)
  have kf: "km_signing_key k = Some (drawn_ed25519 E, ed25519_vk P (drawn_ed25519 E))"
    "km_identity_key k = Some (drawn_x25519 E, x25519_base P (drawn_x25519 E))"
    "km_current_signed_prekey k = None" "km_old_prekeys k = []" "km_next_prekey_id k = 1"
    by (simp_all add: k_def km_new_def)
  have ko: "km_keys_ok P k" using E(1,2) by (simp add: km_keys_ok_def kf)
  have km: "km_step P (RotateSpk E') k = km" by (simp add: r)
  have cur: "km_current_signed_prekey km \<noteq> None"
    using r E(2) by (auto simp: rotate_signed_prekey_def generate_kem_keys_def sign_def kf Let_def cleanup_old_prekeys_def)
  have signed: "spk_signed P k" by (simp add: spk_signed_def kf)
  have ids: "spk_ids_ok k" by (simp add: spk_ids_ok_def kf)
  show "km_keys_ok P km" "spk_signed P km"
    using km_step_keys_ok [OF ko, of "RotateSpk E'"] signed E(3) unfolding km by simp_all
  show "spk_ids_ok km" using km_step_ids(1) [OF ids, of P "RotateSpk E'"] unfolding km by (simp add: kf)
  have "km_identity_key km = km_identity_key k \<and> km_signing_key km = km_signing_key k"
    using km kf cur by (cases rule: rotateE [of P E' k]) (auto simp: spk_part_def)
  then show "km_ready km" using cur by (simp add: km_ready_def kf)
qed

lemma km_restored_ok:
  assumes "km_restored P km" "unat (km_next_prekey_id km) + 1 < 2 ^ 32"
  shows "km_ready km" "km_keys_ok P km" "spk_ids_ok km"
proof -
  obtain ik sk spk sig i where r: "initialize_from_keys_with_id P ik sk spk sig i km_new = (Inr (), km)"
    using assms(1) by (auto simp: km_restored_def)
  have l: "length ik = 32" "length sk = 32" "length spk = 32"
    using r by (auto simp: initialize_from_keys_with_id_def initialize_from_keys_def from_private_key_to_public_key_def
        from_signature_private_to_public_def split: if_splits)
  have km: "km = km_new\<lparr> km_identity_key := Some (ik, x25519_base P ik), km_signing_key := Some (sk, ed25519_vk P sk),
      km_current_signed_prekey := Some \<lparr> ps_private = spk, ps_public = x25519_base P spk, ps_signature = sig,
        ps_created_at = 0, ps_key_id = i, ps_retired_at = None \<rparr>,
      km_next_prekey_id := (if 1 \<le> i then sat_add i 1 else 1) \<rparr>"
    using r l by (cases "1 \<le> i") (auto simp: initialize_from_keys_with_id_def initialize_from_keys_def
        from_private_key_to_public_key_def from_signature_private_to_public_def km_new_def)
  show "km_ready km" "km_keys_ok P km" using l by (simp_all add: km km_ready_def km_keys_ok_def)
  have "i < (if 1 \<le> i then sat_add i 1 else 1)"
    using assms(2) by (auto simp: km word_less_nat_alt word_le_nat_alt unat_sat_add min_def split: if_splits)
  then show "spk_ids_ok km" by (simp add: km spk_ids_ok_def km_new_def)
qed

lemma km_step_fixed:
  "km_identity_key (km_step P op km) = km_identity_key km \<and> km_signing_key (km_step P op km) = km_signing_key km \<and>
    (km_ready km \<longrightarrow> km_ready (km_step P op km))"
proof (cases "\<exists>E. op = RotateSpk E")
  case False
  then show ?thesis using km_step_spk_part [of op P km] by (simp add: spk_part_eq km_ready_def)
next
  case True
  then obtain E where op: "op = RotateSpk E" ..
  show ?thesis
    unfolding op by (cases rule: rotateE [of P E km]) (simp_all add: spk_part_def km_ready_def del: km_step.simps)
qed

lemma km_run_fixed:
  "km_identity_key (fold (km_step P) ops km) = km_identity_key km"
  "km_signing_key (fold (km_step P) ops km) = km_signing_key km"
  "km_ready km \<Longrightarrow> km_ready (fold (km_step P) ops km)"
  by (induction ops arbitrary: km) (simp_all add: km_step_fixed del: km_step.simps)

lemma export_okE:
  assumes "export_registration_bundle km = Inr b" "km_keys_ok P km"
  obtains ik sk c where "km_identity_key km = Some (ik, x25519_base P ik)" "km_signing_key km = Some (sk, ed25519_vk P sk)"
    "km_current_signed_prekey km = Some c" "names_keys P ik (ps_private c) None b"
    "pb_signed_prekey_public b = ps_public c" "pb_signature b = ps_signature c" "pb_verifying_key b = ed25519_vk P sk"
    "pb_suite_id b = CLASSIC"
proof -
  obtain ik ip sk sp c where k: "km_identity_key km = Some (ik, ip)" "km_signing_key km = Some (sk, sp)"
    "km_current_signed_prekey km = Some c"
    using assms(1)
    by (auto simp: export_registration_bundle_def identity_public_key_def verifying_key_def current_signed_prekey_def
        res_bind_eq_Inr ok_or_def split: option.splits)
  have "ip = x25519_base P ik" "sp = ed25519_vk P sk" "length ik = 32" "length (ps_private c) = 32"
    "ps_public c = x25519_base P (ps_private c)"
    using assms(2) k by (auto simp: km_keys_ok_def)
  then show thesis
    using assms(1) k
    by (intro that [of ik sk c])
      (auto simp: export_registration_bundle_def identity_public_key_def verifying_key_def current_signed_prekey_def
        ok_or_def names_keys_def)
qed

lemma spk_held_in: "spk_held t k km \<Longrightarrow> k \<in> set (all_prekey_private_keys km)"
  by (force simp: spk_held_def all_prekey_private_keys_def hm_get_def dest: map_of_SomeD)

text \<open>
  C16.  A bundle a device has exported stays answerable through rotations.  Take the bundle a key manager, created
  or restored, exports after any operations, and any further operations, among them rotations of the signed
  prekey in the fourteen days from \<open>t\<close>.  Whatever root key an initiator derives from that bundle, one of the
  prekey private keys the device still tries gives the responder the same root key.
\<close>

theorem rotated_bundle_answerable:
  assumes "dh_commutes P" "km_created P km\<^sub>0 \<or> km_restored P km\<^sub>0"
    and "list_all draws_ok before" "list_all (rotation_ok t) after"
    and "unat (km_next_prekey_id km\<^sub>0) + length (before @ after) + 1 < 2 ^ 32"
    and "km = fold (km_step P) before km\<^sub>0" "km' = fold (km_step P) after km"
    and "export_registration_bundle km = Inr b"
    and "perform_as_initiator P E ik_a b pq = Inr (root, eph)"
  shows "\<exists>ik_b. identity_secret_key km' = Inr ik_b \<and> (\<exists>spk \<in> set (all_prekey_private_keys km').
    perform_as_responder P ik_b spk (x25519_base P ik_a) (x25519_base P eph) None pq = Inr root)"
proof -
  have "km_keys_ok P km\<^sub>0 \<and> spk_ids_ok km\<^sub>0"
    using assms(2,5) km_created_ok [of P km\<^sub>0] km_restored_ok [of P km\<^sub>0] by fastforce
  then have ok: "km_keys_ok P km" and ids: "spk_ids_ok km"
    and n: "unat (km_next_prekey_id km) + length after < 2 ^ 32"
    using km_run_keys_ok(1) [of P km\<^sub>0 before] km_run_ids(1,2) [of km\<^sub>0 before P] assms(3,5) unfolding assms(6) by auto
  obtain ik sk c where b: "km_identity_key km = Some (ik, x25519_base P ik)" "km_current_signed_prekey km = Some c"
    "names_keys P ik (ps_private c) None b" by (rule export_okE [OF assms(8) ok])
  have "spk_held t (ps_private c) km" using b(2) by (auto simp: spk_held_def)
  then have "spk_held t (ps_private c) km'" using km_run_ids(3) [OF ids n] assms(4) unfolding assms(7) by blast
  moreover have "identity_secret_key km' = Inr ik"
    unfolding assms(7) using b(1) by (simp add: identity_secret_key_def km_run_fixed ok_or_def)
  ultimately show ?thesis using x3dh_agreement [OF assms(1) b(3) assms(9)] spk_held_in by blast
qed

text \<open>
  C17.  The bundle of a created device is always there and always verifies: after any sequence of operations,
  rotations included, the export succeeds, and the signature it carries over its signed prekey verifies under the
  verifying key it carries.
\<close>

theorem exported_bundle_verifies:
  assumes "ed25519_correct P" "km_created P km\<^sub>0" "list_all draws_ok ops"
  shows "\<exists>b. export_registration_bundle (fold (km_step P) ops km\<^sub>0) = Inr b \<and>
    verify P (pb_verifying_key b) (build_prologue (pb_suite_id b) @ pb_signed_prekey_public b) (pb_signature b) = Inr ()"
proof -
  let ?km = "fold (km_step P) ops km\<^sub>0"
  note c = km_created_ok [OF assms(2)]
  have ok: "km_keys_ok P ?km" "spk_signed P ?km" "km_ready ?km"
    using km_run_keys_ok c assms(3) km_run_fixed(3) by blast+
  then obtain b where b: "export_registration_bundle ?km = Inr b"
    by (fastforce simp: km_ready_def export_registration_bundle_def identity_public_key_def verifying_key_def
        current_signed_prekey_def ok_or_def)
  obtain ik sk p where e: "km_signing_key ?km = Some (sk, ed25519_vk P sk)" "km_current_signed_prekey ?km = Some p"
    "pb_signed_prekey_public b = ps_public p" "pb_signature b = ps_signature p" "pb_verifying_key b = ed25519_vk P sk"
    "pb_suite_id b = CLASSIC" by (rule export_okE [OF b ok(1)])
  have "sign P sk (build_prologue CLASSIC @ ps_public p) = Inr (ps_signature p)"
    using ok(2) e(1,2) by (simp add: spk_signed_def)
  then show ?thesis using b e(3-) verify_sign(1) [OF assms(1)] by auto
qed

definition sample_draws_at :: "u64 \<Rightarrow> u8 \<Rightarrow> draws" where
  "sample_draws_at t b = sample_draws\<lparr> now := t, drawn_x25519 := replicate 32 b \<rparr>"

definition sample_km :: key_manager where
  "sample_km = snd (initialize sample_primitives (sample_draws_at 1000 2) (sample_draws_at 1000 3) km_new)"

lemma sample_km_created: "km_created sample_primitives sample_km"
proof -
  have "fst (initialize sample_primitives (sample_draws_at 1000 2) (sample_draws_at 1000 3) km_new) = Inr ()"
    by (simp add: initialize_def rotate_signed_prekey_def generate_kem_keys_def generate_signature_keys_def sign_def
        sample_draws_at_def sample_draws_def km_new_def)
  then show ?thesis
    unfolding km_created_def sample_km_def
    by (intro exI [of _ "sample_draws_at 1000 2"] exI [of _ "sample_draws_at 1000 3"])
      (simp add: prod_eq_iff, simp add: sample_draws_at_def sample_draws_def)
qed

theorem exported_bundle_verifies_witness:
  "\<exists>b. export_registration_bundle (fold (km_step sample_primitives) [RotateSpk (sample_draws_at 2000 4)] sample_km) = Inr b \<and>
    verify sample_primitives (pb_verifying_key b) (build_prologue (pb_suite_id b) @ pb_signed_prekey_public b)
      (pb_signature b) = Inr ()"
  by (rule exported_bundle_verifies [OF sample_ed25519_correct sample_km_created])
    (simp add: sample_draws_at_def)

lemma sample_export:
  "\<exists>b. export_registration_bundle sample_km = Inr b \<and> pb_identity_public b = replicate 32 2 \<and>
    pb_signed_prekey_public b = replicate 32 3 \<and> pb_verifying_key b = replicate 32 10 \<and>
    pb_one_time_prekey_public b = None \<and>
    verify sample_primitives (replicate 32 10) (build_prologue (pb_suite_id b) @ replicate 32 3) (pb_signature b) = Inr ()"
  by (simp add: sample_km_def initialize_def rotate_signed_prekey_def generate_kem_keys_def generate_signature_keys_def
      sign_def sample_draws_at_def sample_draws_def km_new_def Let_def cleanup_old_prekeys_def
      export_registration_bundle_def identity_public_key_def verifying_key_def current_signed_prekey_def ok_or_def
      verify_def sample_primitives_def)

lemma sample_initiates:
  "\<exists>b root. export_registration_bundle sample_km = Inr b \<and>
    perform_as_initiator sample_primitives sample_draws (replicate 32 5) b None = Inr (root, replicate 32 9)"
proof -
  have base: "x25519_base sample_primitives (replicate 32 a) = replicate 32 a" for a
    by (simp add: sample_primitives_def)
  have dh: "kem_decapsulate sample_primitives (replicate 32 a) (replicate 32 b) = Inr (replicate 32 (a + b))"
    if "a + b \<noteq> 0" for a b
    using kem_decapsulate_ok [OF _ _ sample_nonzero [OF that]] sample_dh [of a b] by (simp add: base)
  obtain b where b: "export_registration_bundle sample_km = Inr b" "pb_identity_public b = replicate 32 2"
    "pb_signed_prekey_public b = replicate 32 3" "pb_verifying_key b = replicate 32 10"
    "pb_one_time_prekey_public b = None"
    "verify sample_primitives (replicate 32 10) (build_prologue (pb_suite_id b) @ replicate 32 3) (pb_signature b) = Inr ()"
    using sample_export by blast
  have l: "length (pb_signature b) = 64" using b(6) by (simp add: verify_def split: if_splits)
  obtain root where "derive_root_key sample_primitives
      (replicate 32 (5 + 3) @ replicate 32 (9 + 2) @ replicate 32 (9 + 3) @ []) None = Inr root"
    by (rule derive_root_key_total [OF sample_hkdf_total])
  then have "perform_as_initiator sample_primitives sample_draws (replicate 32 5) b None = Inr (root, replicate 32 9)"
    using b(2-) l dh [of 5 3] dh [of 9 2] dh [of 9 3]
    by (simp add: perform_as_initiator_def generate_kem_keys_def sample_drawn base)
  then show ?thesis using b(1) by blast
qed

theorem rotated_bundle_answerable_witness:
  "\<exists>b root ik. export_registration_bundle sample_km = Inr b \<and>
    perform_as_initiator sample_primitives sample_draws (replicate 32 5) b None = Inr (root, replicate 32 9) \<and>
    (\<exists>spk. spk \<in> set (all_prekey_private_keys (km_step sample_primitives (RotateSpk (sample_draws_at 2000 4)) sample_km)) \<and>
      perform_as_responder sample_primitives ik spk (replicate 32 5) (replicate 32 9) None None = Inr root)"
proof -
  let ?P = sample_primitives and ?op = "RotateSpk (sample_draws_at 2000 4)"
  obtain b root where b: "export_registration_bundle sample_km = Inr b"
    "perform_as_initiator ?P sample_draws (replicate 32 5) b None = Inr (root, replicate 32 9)"
    using sample_initiates by blast
  have ops: "list_all draws_ok []" "list_all (rotation_ok 1500) [?op]"
    by (simp_all add: sample_draws_at_def current_timestamp_def global_config_def config_default_def
        SPK_RETENTION_AFTER_ROTATION_SECS_def)
  have n: "unat (km_next_prekey_id sample_km) + length ([] @ [?op]) + 1 < 2 ^ 32"
    by (simp add: sample_km_def initialize_def rotate_signed_prekey_def generate_kem_keys_def generate_signature_keys_def
      sign_def sample_draws_at_def sample_draws_def km_new_def Let_def cleanup_old_prekeys_def sat_add_def)
  have base: "x25519_base ?P (replicate 32 a) = replicate 32 a" for a
    by (simp add: sample_primitives_def)
  from rotated_bundle_answerable [OF sample_dh_commutes disjI1 [OF sample_km_created] ops n _ refl, of sample_km,
      OF _ b] b
  show ?thesis unfolding base by (auto simp del: km_step.simps)
qed

subsection \<open>What the identity key signs\<close>

datatype signed_statement =
    SignedPrekey suite_id bytes
  | KyberPrekeyAt u64 bytes
  | HybridIdentity bytes

fun statement_message :: "signed_statement \<Rightarrow> bytes" where
  "statement_message (SignedPrekey suite key) = build_prologue suite @ key"
| "statement_message (KyberPrekeyAt created_at key) = kyber_prekey_sign_message_v2 created_at key"
| "statement_message (HybridIdentity key) = build_hybrid_identity_bind_message key"

fun statement_ok :: "signed_statement \<Rightarrow> bool" where
  "statement_ok (SignedPrekey suite key) = is_supported (as_u16 suite)"
| "statement_ok _ = True"

lemma supported_bytes:
  "is_supported n \<Longrightarrow> u16_to_be n = [0, 1] \<or> u16_to_be n = [0, 2] \<or> u16_to_be n = [0, 4]"
proof -
  have "u16_to_be 1 = [0, 1]" "u16_to_be 2 = [0, 2]" "u16_to_be 4 = [0, 4]"
    unfolding u16_to_be_def numeral_2_eq_2 by simp_all
  then show "is_supported n \<Longrightarrow> u16_to_be n = [0, 1] \<or> u16_to_be n = [0, 2] \<or> u16_to_be n = [0, 4]"
    unfolding is_supported_def by blast
qed

lemma same_length_parts:
  "length a = length c \<Longrightarrow> p @ a @ b = p @ c @ d \<Longrightarrow> a = c \<and> b = d"
  by simp

lemma signed_prekey_distinct:
  "build_prologue s @ k = build_prologue s' @ k' \<longleftrightarrow> s = s' \<and> k = k'"
  using same_length_parts [of "u16_to_be (as_u16 s)" "u16_to_be (as_u16 s')" "ascii ''KonstruktX3DH-v1''" k k']
  by (auto simp: build_prologue_def suite_id.expand)

lemma kyber_message_distinct:
  "kyber_prekey_sign_message_v2 t k = kyber_prekey_sign_message_v2 t' k' \<longleftrightarrow> t = t' \<and> k = k'"
  using same_length_parts [of "u64_to_be t" "u64_to_be t'" "[]" k k']
  by (auto simp: kyber_prekey_sign_message_v2_def build_x3dh_sign_message_def)

lemma signed_prekey_not_kyber:
  assumes "is_supported (as_u16 s)"
  shows "build_prologue s @ k \<noteq> kyber_prekey_sign_message_v2 t k'"
proof
  assume "build_prologue s @ k = kyber_prekey_sign_message_v2 t k'"
  then have "u16_to_be (as_u16 s) @ k = [0, 0x11] @ u64_to_be t @ k'"
    by (simp add: build_prologue_def kyber_prekey_sign_message_v2_def build_x3dh_sign_message_def X3DH_SIGN_PROLOGUE_def
        KYBER_PREKEY_SIGN_SUITE_V2_def)
  then show False using supported_bytes [OF assms] by auto
qed

lemma bind_message_distinct:
  "build_hybrid_identity_bind_message h \<noteq> build_prologue s @ k"
  "build_hybrid_identity_bind_message h \<noteq> kyber_prekey_sign_message_v2 t k"
  "build_hybrid_identity_bind_message h = build_hybrid_identity_bind_message h' \<longleftrightarrow> h = h'"
  by (simp_all add: build_hybrid_identity_bind_message_def HYBRID_ID_BIND_PROLOGUE_def build_prologue_def
      kyber_prekey_sign_message_v2_def build_x3dh_sign_message_def X3DH_SIGN_PROLOGUE_def ascii_def)

text \<open>
  C18.  No signature of the identity key can be taken for another.  A device's Ed25519 key signs three kinds of
  statement: a signed prekey of a suite, a Kyber prekey with its time, and its hybrid identity key.  Statements
  that differ in kind, suite, time or key have different signed bytes.
\<close>

theorem signed_statements_distinct:
  assumes "statement_ok a" "statement_ok b" "a \<noteq> b"
  shows "statement_message a \<noteq> statement_message b"
proof
  assume eq: "statement_message a = statement_message b"
  have "a = b"
    using eq assms(1,2)
    by (cases a; cases b)
      (simp_all add: signed_prekey_not_kyber signed_prekey_not_kyber [THEN not_sym] bind_message_distinct(1,2)
        bind_message_distinct(1,2) [THEN not_sym] signed_prekey_distinct kyber_message_distinct bind_message_distinct(3))
  with assms(3) show False ..
qed

theorem signed_statements_distinct_witness:
  "statement_message (SignedPrekey CLASSIC (replicate 32 7)) \<noteq> statement_message (KyberPrekeyAt 0 [])"
  by (rule signed_statements_distinct) (simp_all add: is_supported_def CLASSIC_def)

end
