(* ===== verification/Pq_Prekey_Plan.thy ===== *)
theory Pq_Prekey_Plan
  imports Key_Manager
begin

text \<open>
  Which Kyber prekey an initiator encapsulates to (\<open>src/orchestration/pq_prekey_plan.rs\<close>): the checks of the
  hybrid identity, of the one-time and of the signed prekey, and the refusals.  The plan accepts exactly what may
  be trusted, and what a device uploads is accepted by its peers and answered by the device.
\<close>

record kyber_prekey_offer =
  ko_key_id :: u32
  ko_public :: bytes
  ko_created_at :: "u64 option"
  ko_signature :: "bytes option"
  ko_hybrid_signature :: "bytes option"

record pqxdh_offer =
  po_verifying_key :: bytes
  po_hybrid_identity_key :: "bytes option"
  po_hybrid_identity_signature :: "bytes option"
  po_signed_prekey :: "kyber_prekey_offer option"
  po_one_time_prekey :: "kyber_prekey_offer option"

record pqxdh_context =
  pc_now :: u64
  pc_pinned_hybrid_identity :: "bytes option"

datatype pqxdh_refusal =
    NoKyberPrekey | KyberPrekeyMalformed | KyberSignatureMissing | KyberSignatureInvalid | KyberPrekeyStale
  | HybridIdentityMissing | HybridIdentityBindingInvalid | HybridIdentityChanged
  | HybridSignatureMissing | HybridSignatureInvalid

record pqxdh_choice =
  ch_kyber_prekey_id :: u32
  ch_kyber_public :: bytes
  ch_hybrid_identity_fingerprint :: bytes
  ch_one_time_prekey_rejected :: "pqxdh_refusal option"

datatype prekey_range = SignedRange | OneTimeRange

definition SPK_MAX_AGE_SECS :: u64 where "SPK_MAX_AGE_SECS = 30 * 24 * 3600"
definition KYBER_SPK_MAX_AGE_SECS :: u64 where "KYBER_SPK_MAX_AGE_SECS = SPK_MAX_AGE_SECS"

definition hybrid_identity_fingerprint :: "primitives \<Rightarrow> bytes \<Rightarrow> bytes" where
  "hybrid_identity_fingerprint P hybrid_identity_key = sha256 P hybrid_identity_key"

definition kem_identity_fingerprint :: "primitives \<Rightarrow> bytes \<Rightarrow> bytes" where
  "kem_identity_fingerprint P kem_identity_key = sha256 P kem_identity_key"

definition check_hybrid_identity :: "primitives \<Rightarrow> pqxdh_offer \<Rightarrow> pqxdh_refusal + bytes" where
  "check_hybrid_identity P offer =
    res_bind (ok_or HybridIdentityMissing (non_empty (po_hybrid_identity_key offer))) (\<lambda>key.
    res_bind (ok_or HybridIdentityMissing (non_empty (po_hybrid_identity_signature offer))) (\<lambda>binding.
    res_bind (map_err (\<lambda>_. HybridIdentityBindingInvalid)
        (verify P (po_verifying_key offer) (build_hybrid_identity_bind_message key) binding)) (\<lambda>_.
    Inr key)))"

definition check_prekey ::
    "primitives \<Rightarrow> bytes \<Rightarrow> bytes \<Rightarrow> kyber_prekey_offer \<Rightarrow> prekey_range \<Rightarrow> u64 \<Rightarrow> pqxdh_refusal + unit" where
  "check_prekey P vk hybrid_key prekey rng now_s =
    (let id_ok = (case rng of
           SignedRange \<Rightarrow> 1 \<le> ko_key_id prekey \<and> ko_key_id prekey < KYBER_OTPK_ID_START
         | OneTimeRange \<Rightarrow> KYBER_OTPK_ID_START \<le> ko_key_id prekey)
     in if length (ko_public prekey) \<noteq> MLKEM1024_PK_SIZE \<or> \<not> id_ok then Inl KyberPrekeyMalformed
        else res_bind (ok_or KyberSignatureMissing (ko_created_at prekey)) (\<lambda>created_at.
          case check_kyber_prekey_signature_v2 P vk (ko_public prekey) created_at (ko_signature prekey) of
            Missing \<Rightarrow> Inl KyberSignatureMissing
          | Invalid \<Rightarrow> Inl KyberSignatureInvalid
          | Valid \<Rightarrow>
              (case check_kyber_prekey_hybrid_signature P hybrid_key (ko_public prekey) created_at
                  (ko_hybrid_signature prekey) of
                 Missing \<Rightarrow> Inl HybridSignatureMissing
               | Invalid \<Rightarrow> Inl HybridSignatureInvalid
               | Valid \<Rightarrow>
                   if rng = SignedRange \<and> KYBER_SPK_MAX_AGE_SECS < sat_sub now_s created_at
                   then Inl KyberPrekeyStale else Inr ())))"

definition pqxdh_choice_of :: "kyber_prekey_offer \<Rightarrow> bytes \<Rightarrow> pqxdh_refusal option \<Rightarrow> pqxdh_choice" where
  "pqxdh_choice_of k fingerprint rejected =
    \<lparr> ch_kyber_prekey_id = ko_key_id k, ch_kyber_public = ko_public k,
      ch_hybrid_identity_fingerprint = fingerprint, ch_one_time_prekey_rejected = rejected \<rparr>"

definition plan_signed_prekey ::
    "primitives \<Rightarrow> pqxdh_offer \<Rightarrow> pqxdh_context \<Rightarrow> bytes \<Rightarrow> pqxdh_refusal option \<Rightarrow> pqxdh_refusal + pqxdh_choice" where
  "plan_signed_prekey P offer ctx hybrid_key rejected =
    res_bind (ok_or NoKyberPrekey (po_signed_prekey offer)) (\<lambda>spk.
    res_bind (check_prekey P (po_verifying_key offer) hybrid_key spk SignedRange (pc_now ctx)) (\<lambda>_.
    Inr (pqxdh_choice_of spk (hybrid_identity_fingerprint P hybrid_key) rejected)))"

definition plan_pqxdh :: "primitives \<Rightarrow> pqxdh_offer \<Rightarrow> pqxdh_context \<Rightarrow> pqxdh_refusal + pqxdh_choice" where
  "plan_pqxdh P offer ctx =
    res_bind (check_hybrid_identity P offer) (\<lambda>hybrid_key.
      let fingerprint = hybrid_identity_fingerprint P hybrid_key
      in if (case pc_pinned_hybrid_identity ctx of None \<Rightarrow> False | Some pinned \<Rightarrow> pinned \<noteq> fingerprint)
         then Inl HybridIdentityChanged
         else (case po_one_time_prekey offer of
             None \<Rightarrow> plan_signed_prekey P offer ctx hybrid_key None
           | Some otpk \<Rightarrow>
               (case check_prekey P (po_verifying_key offer) hybrid_key otpk OneTimeRange (pc_now ctx) of
                  Inr _ \<Rightarrow> Inr (pqxdh_choice_of otpk fingerprint None)
                | Inl reason \<Rightarrow> plan_signed_prekey P offer ctx hybrid_key (Some reason))))"

subsection \<open>Both signature schemes verify what they sign\<close>

locale prekey_signatures =
  fixes pair :: "primitives \<Rightarrow> bytes \<Rightarrow> bytes \<Rightarrow> bool"
    and sgnr :: "primitives \<Rightarrow> bytes \<Rightarrow> bytes \<Rightarrow> crypto_error + bytes"
    and vrf :: "primitives \<Rightarrow> bytes \<Rightarrow> bytes \<Rightarrow> bytes \<Rightarrow> crypto_error + unit"
    and chk :: "primitives \<Rightarrow> bytes \<Rightarrow> bytes \<Rightarrow> u64 \<Rightarrow> bytes option \<Rightarrow> kyber_prekey_signature"
  assumes sound: "pair P sk pk \<Longrightarrow> sgnr P sk m = Inr s \<Longrightarrow> vrf P pk m s = Inr ()"
    and proper: "vrf P pk m s = Inr () \<Longrightarrow> s \<noteq> []"
    and check_valid: "chk P pk k t os = Valid \<longleftrightarrow>
      (\<exists>sig. os = Some sig \<and> sig \<noteq> [] \<and> vrf P pk (kyber_prekey_sign_message_v2 t k) sig = Inr ())"
begin

lemma check_iff: "chk P pk k t s = Valid \<longleftrightarrow>
    (\<exists>sig. s = Some sig \<and> vrf P pk (kyber_prekey_sign_message_v2 t k) sig = Inr ())"
  using proper by (auto simp: check_valid)

lemma signed_checks: "pair P sk pk \<Longrightarrow> sgnr P sk (kyber_prekey_sign_message_v2 t k) = Inr sig \<Longrightarrow>
    chk P pk k t (Some sig) = Valid"
  by (simp add: check_iff sound)

end

definition ed25519_pair :: "primitives \<Rightarrow> bytes \<Rightarrow> bytes \<Rightarrow> bool" where
  "ed25519_pair P sk pk \<longleftrightarrow> ed25519_correct P \<and> pk = ed25519_vk P sk"

definition full_hybrid_pair :: "primitives \<Rightarrow> bytes \<Rightarrow> bytes \<Rightarrow> bool" where
  "full_hybrid_pair P sk pk \<longleftrightarrow> ed25519_correct P \<and> mldsa65_correct P \<and> hybrid_pair P sk pk"

lemma hybrid_verify_lengths:
  "hybrid_verify P pk m s = Inr () \<Longrightarrow> s \<noteq> [] \<and> length pk = HYBRID_SIG_PUBLIC_KEY_SIZE"
  by (auto simp: hybrid_verify_def split_hybrid_public_key_def split_hybrid_signature_def HYBRID_SIGNATURE_SIZE_def
      ED25519_SIGNATURE_SIZE_def split: if_splits)

interpretation ed: prekey_signatures ed25519_pair sign verify check_kyber_prekey_signature_v2
proof unfold_locales
  show "ed25519_pair P sk pk \<Longrightarrow> sign P sk m = Inr s \<Longrightarrow> verify P pk m s = Inr ()" for P sk pk m s
    by (simp add: ed25519_pair_def verify_sign(1))
  show "verify P pk m s = Inr () \<Longrightarrow> s \<noteq> []" for P pk m s
    by (auto simp: verify_def split: if_splits)
  show "check_kyber_prekey_signature_v2 P pk k t s = Valid \<longleftrightarrow>
    (\<exists>sig. s = Some sig \<and> sig \<noteq> [] \<and> verify P pk (kyber_prekey_sign_message_v2 t k) sig = Inr ())" for P pk k t s
    by (auto simp: check_kyber_prekey_signature_v2_def non_empty_def split: sum.split bind_splits)
qed

interpretation hy: prekey_signatures full_hybrid_pair hybrid_sign hybrid_verify check_kyber_prekey_hybrid_signature
proof unfold_locales
  show "full_hybrid_pair P sk pk \<Longrightarrow> hybrid_sign P sk m = Inr s \<Longrightarrow> hybrid_verify P pk m s = Inr ()" for P sk pk m s
    unfolding full_hybrid_pair_def using hybrid_sign_verify(1) by blast
  show "hybrid_verify P pk m s = Inr () \<Longrightarrow> s \<noteq> []" for P pk m s
    using hybrid_verify_lengths by blast
  show "check_kyber_prekey_hybrid_signature P pk k t s = Valid \<longleftrightarrow>
    (\<exists>sig. s = Some sig \<and> sig \<noteq> [] \<and> hybrid_verify P pk (kyber_prekey_sign_message_v2 t k) sig = Inr ())" for P pk k t s
    using hybrid_verify_lengths [of P pk "kyber_prekey_sign_message_v2 t k"]
    by (auto simp: check_kyber_prekey_hybrid_signature_def non_empty_def split: sum.split bind_splits)
qed

subsection \<open>What the plan accepts\<close>

definition id_in_range :: "prekey_range \<Rightarrow> u32 \<Rightarrow> bool" where
  "id_in_range rng i \<longleftrightarrow> (case rng of
     SignedRange \<Rightarrow> 1 \<le> i \<and> i < KYBER_OTPK_ID_START | OneTimeRange \<Rightarrow> KYBER_OTPK_ID_START \<le> i)"

text \<open>A prekey the device may encapsulate to: of its size and rng, with both signatures over its time and
  bytes, and fresh when it is a signed prekey.\<close>

definition prekey_trusted ::
    "primitives \<Rightarrow> bytes \<Rightarrow> bytes \<Rightarrow> prekey_range \<Rightarrow> u64 \<Rightarrow> kyber_prekey_offer \<Rightarrow> bool" where
  "prekey_trusted P vk hk rng now_s k \<longleftrightarrow> length (ko_public k) = 1568 \<and> id_in_range rng (ko_key_id k) \<and>
    (\<exists>t sig hsig. ko_created_at k = Some t \<and> ko_signature k = Some sig \<and> ko_hybrid_signature k = Some hsig \<and>
      verify P vk (kyber_prekey_sign_message_v2 t (ko_public k)) sig = Inr () \<and>
      hybrid_verify P hk (kyber_prekey_sign_message_v2 t (ko_public k)) hsig = Inr () \<and>
      (rng = SignedRange \<longrightarrow> sat_sub now_s t \<le> 30 * 24 * 3600))"

lemma check_prekey_iff: "check_prekey P vk hk k rng now_s = Inr () \<longleftrightarrow> prekey_trusted P vk hk rng now_s k"
proof (cases "ko_created_at k")
  case None
  then show ?thesis by (simp add: check_prekey_def prekey_trusted_def Let_def)
next
  case (Some t)
  have "check_prekey P vk hk k rng now_s = Inr () \<longleftrightarrow> length (ko_public k) = 1568 \<and> id_in_range rng (ko_key_id k) \<and>
      check_kyber_prekey_signature_v2 P vk (ko_public k) t (ko_signature k) = Valid \<and>
      check_kyber_prekey_hybrid_signature P hk (ko_public k) t (ko_hybrid_signature k) = Valid \<and>
      (rng = SignedRange \<longrightarrow> sat_sub now_s t \<le> 30 * 24 * 3600)"
    using Some
    by (cases "check_kyber_prekey_signature_v2 P vk (ko_public k) t (ko_signature k)";
        cases "check_kyber_prekey_hybrid_signature P hk (ko_public k) t (ko_hybrid_signature k)"; cases rng)
      (auto simp: check_prekey_def id_in_range_def MLKEM1024_PK_SIZE_def KYBER_SPK_MAX_AGE_SECS_def
        SPK_MAX_AGE_SECS_def)
  then show ?thesis using Some unfolding ed.check_iff hy.check_iff prekey_trusted_def by auto
qed

lemma non_empty_iff [simp]: "non_empty b = Some x \<longleftrightarrow> b = Some x \<and> x \<noteq> []"
  by (cases b) (auto simp: non_empty_def)

lemma check_hybrid_identity_iff:
  "check_hybrid_identity P offer = Inr hk \<longleftrightarrow> hk \<noteq> [] \<and> po_hybrid_identity_key offer = Some hk \<and>
    (\<exists>bind. po_hybrid_identity_signature offer = Some bind \<and>
      verify P (po_verifying_key offer) (build_hybrid_identity_bind_message hk) bind = Inr ())"
  using ed.proper by (fastforce simp: check_hybrid_identity_def result_iffs)

lemma plan_signed_prekey_iff:
  "plan_signed_prekey P offer ctx hk rejected = Inr c \<longleftrightarrow>
    (\<exists>k. po_signed_prekey offer = Some k \<and> prekey_trusted P (po_verifying_key offer) hk SignedRange (pc_now ctx) k \<and>
      c = pqxdh_choice_of k (sha256 P hk) rejected)"
  by (auto simp: plan_signed_prekey_def result_iffs check_prekey_iff hybrid_identity_fingerprint_def)

lemma check_prekey_refuses:
  "\<not> prekey_trusted P vk hk rng now_s k \<Longrightarrow> \<exists>r. check_prekey P vk hk k rng now_s = Inl r"
  using check_prekey_iff [of P vk hk k rng now_s] by (cases "check_prekey P vk hk k rng now_s") auto

text \<open>The hybrid identity key of a bundle: bound to the identity key, and the pinned one where one is pinned.\<close>

definition hybrid_bound :: "primitives \<Rightarrow> pqxdh_offer \<Rightarrow> pqxdh_context \<Rightarrow> bytes \<Rightarrow> bool" where
  "hybrid_bound P offer ctx hk \<longleftrightarrow> po_hybrid_identity_key offer = Some hk \<and> hk \<noteq> [] \<and>
    (\<exists>bind. po_hybrid_identity_signature offer = Some bind \<and>
      verify P (po_verifying_key offer) (HYBRID_ID_BIND_PROLOGUE @ hk) bind = Inr ()) \<and>
    pc_pinned_hybrid_identity ctx \<in> {None, Some (sha256 P hk)}"

text \<open>The one-time prekey when it is trusted, and the trusted signed prekey otherwise, with the reason why a
  one-time prekey that was there was passed over.\<close>

definition trusted_choice :: "primitives \<Rightarrow> pqxdh_offer \<Rightarrow> pqxdh_context \<Rightarrow> bytes \<Rightarrow> pqxdh_choice \<Rightarrow> bool" where
  "trusted_choice P offer ctx hk c \<longleftrightarrow>
    (\<exists>k. po_one_time_prekey offer = Some k \<and> prekey_trusted P (po_verifying_key offer) hk OneTimeRange (pc_now ctx) k \<and>
      c = pqxdh_choice_of k (sha256 P hk) None) \<or>
    (\<exists>k r. po_signed_prekey offer = Some k \<and> prekey_trusted P (po_verifying_key offer) hk SignedRange (pc_now ctx) k \<and>
      c = pqxdh_choice_of k (sha256 P hk) r \<and>
      (po_one_time_prekey offer = None \<and> r = None \<or>
       (\<exists>ko e. po_one_time_prekey offer = Some ko \<and> r = Some e \<and>
         \<not> prekey_trusted P (po_verifying_key offer) hk OneTimeRange (pc_now ctx) ko \<and>
         check_prekey P (po_verifying_key offer) hk ko OneTimeRange (pc_now ctx) = Inl e)))"

lemma trusted_choice_iff:
  "(case po_one_time_prekey offer of
      None \<Rightarrow> plan_signed_prekey P offer ctx hk None
    | Some otpk \<Rightarrow> (case check_prekey P (po_verifying_key offer) hk otpk OneTimeRange (pc_now ctx) of
          Inr _ \<Rightarrow> Inr (pqxdh_choice_of otpk (sha256 P hk) None)
        | Inl reason \<Rightarrow> plan_signed_prekey P offer ctx hk (Some reason))) = Inr c \<longleftrightarrow> trusted_choice P offer ctx hk c"
proof (cases "po_one_time_prekey offer")
  case None
  then show ?thesis by (auto simp: trusted_choice_def plan_signed_prekey_iff)
next
  case (Some k)
  show ?thesis
  proof (cases "check_prekey P (po_verifying_key offer) hk k OneTimeRange (pc_now ctx)")
    case (Inl e)
    then have "\<not> prekey_trusted P (po_verifying_key offer) hk OneTimeRange (pc_now ctx) k"
      using check_prekey_iff [of P "po_verifying_key offer" hk k OneTimeRange "pc_now ctx"] by simp
    then show ?thesis using Some Inl by (auto simp: trusted_choice_def plan_signed_prekey_iff)
  next
    case (Inr u)
    then have "prekey_trusted P (po_verifying_key offer) hk OneTimeRange (pc_now ctx) k"
      using check_prekey_iff [of P "po_verifying_key offer" hk k OneTimeRange "pc_now ctx"] by simp
    then show ?thesis using Some Inr by (auto simp: trusted_choice_def)
  qed
qed

lemma plan_pqxdh_bound:
  "plan_pqxdh P offer ctx = (case check_hybrid_identity P offer of
     Inl e \<Rightarrow> Inl e
   | Inr hk \<Rightarrow> if pc_pinned_hybrid_identity ctx \<notin> {None, Some (sha256 P hk)} then Inl HybridIdentityChanged
       else (case po_one_time_prekey offer of
          None \<Rightarrow> plan_signed_prekey P offer ctx hk None
        | Some otpk \<Rightarrow> (case check_prekey P (po_verifying_key offer) hk otpk OneTimeRange (pc_now ctx) of
              Inr _ \<Rightarrow> Inr (pqxdh_choice_of otpk (sha256 P hk) None)
            | Inl reason \<Rightarrow> plan_signed_prekey P offer ctx hk (Some reason))))"
proof -
  have pin: "(case pc_pinned_hybrid_identity ctx of None \<Rightarrow> False | Some p \<Rightarrow> p \<noteq> sha256 P hk) \<longleftrightarrow>
      pc_pinned_hybrid_identity ctx \<notin> {None, Some (sha256 P hk)}" for hk
    by (auto split: option.split)
  show ?thesis
    unfolding plan_pqxdh_def Let_def hybrid_identity_fingerprint_def pin
    by (cases "check_hybrid_identity P offer") simp_all
qed

lemma plan_accepts:
  assumes "hybrid_bound P offer ctx hk" "trusted_choice P offer ctx hk c"
  shows "plan_pqxdh P offer ctx = Inr c"
proof -
  have "check_hybrid_identity P offer = Inr hk"
    using assms(1) by (auto simp: check_hybrid_identity_iff hybrid_bound_def build_hybrid_identity_bind_message_def)
  then show ?thesis using assms unfolding plan_pqxdh_bound by (simp add: trusted_choice_iff hybrid_bound_def)
qed

text \<open>
  C19.  A session is opened exactly on a Kyber prekey the device may trust.  The plan accepts if and only if the
  bundle's hybrid identity key is bound to its identity key and is the pinned one where one is pinned, and a prekey
  of the right size and id range carries both signatures over its time and bytes; the one-time prekey is taken
  when it is trusted, and otherwise the signed prekey, which must be at most thirty days old by its signed time.
\<close>

theorem plan_pqxdh_trusts:
  "plan_pqxdh P offer ctx = Inr c \<longleftrightarrow> (\<exists>hk. hybrid_bound P offer ctx hk \<and> trusted_choice P offer ctx hk c)"
proof
  assume l: "plan_pqxdh P offer ctx = Inr c"
  then obtain hk where hk: "check_hybrid_identity P offer = Inr hk"
    by (cases "check_hybrid_identity P offer") (simp_all add: plan_pqxdh_bound)
  then have l': "pc_pinned_hybrid_identity ctx \<in> {None, Some (sha256 P hk)}" "trusted_choice P offer ctx hk c"
    using l by (simp_all add: plan_pqxdh_bound trusted_choice_iff split: if_splits)
  have "hybrid_bound P offer ctx hk"
    using hk l'(1) by (auto simp: check_hybrid_identity_iff hybrid_bound_def build_hybrid_identity_bind_message_def)
  then show "\<exists>hk. hybrid_bound P offer ctx hk \<and> trusted_choice P offer ctx hk c" using l'(2) by blast
qed (auto intro: plan_accepts)

subsection \<open>What a device uploads, a peer accepts and the device answers\<close>

definition offer_of :: "kyber_prekey_upload \<Rightarrow> kyber_prekey_offer" where
  "offer_of u = \<lparr> ko_key_id = ku_key_id u, ko_public = ku_public_key u, ko_created_at = Some (ku_created_at u),
     ko_signature = Some (ku_signature u), ko_hybrid_signature = Some (ku_hybrid_signature u) \<rparr>"

lemma kyber_upload_okE:
  assumes "kyber_upload P k km = Inr u" "km_signing_key km = Some (sk, vk)" "km_hybrid_sig_priv km = Some hsk"
  obtains "length (kk_seed k) = MLKEM_SEED_SIZE" "ku_key_id u = kk_key_id k" "ku_public_key u = mlkem1024_ek P (kk_seed k)"
    "sign P sk (kyber_prekey_sign_message_v2 (ku_created_at u) (ku_public_key u)) = Inr (ku_signature u)"
    "hybrid_sign P hsk (kyber_prekey_sign_message_v2 (ku_created_at u) (ku_public_key u)) = Inr (ku_hybrid_signature u)"
proof (rule that)
qed (use assms in \<open>auto simp: kyber_upload_def kyber_public_key_def mlkem1024_public_from_seed_def mlkem1024_key_from_seed_def
      sign_hybrid_def result_iffs Let_def split: if_splits\<close>)

lemma begin_kyber_okE:
  assumes "begin_kyber_spk_rotation P E km = (Inr u, km')"
  obtains k where "begin_spk_rotation P E (now E) (km_kyber_prekeys km) = (Inr k, km_kyber_prekeys km')"
    "kyber_upload P k km' = Inr u" "km_signing_key km' = km_signing_key km" "km_hybrid_sig_priv km' = km_hybrid_sig_priv km"
proof -
  have r: "require_hybrid_key P km = Inr ()"
    using assms by (cases "require_hybrid_key P km") (simp_all add: begin_kyber_spk_rotation_def)
  obtain x s where b: "begin_spk_rotation P E (now E) (km_kyber_prekeys km) = (x, s)"
    by (cases "begin_spk_rotation P E (now E) (km_kyber_prekeys km)")
  obtain k where k: "x = Inr k" using assms r b by (cases x) (simp_all add: begin_kyber_spk_rotation_def on_kyber_def)
  have "kyber_upload P k (km\<lparr> km_kyber_prekeys := s \<rparr>) = Inr u" "km' = km\<lparr> km_kyber_prekeys := s \<rparr>"
    using assms r b k by (auto simp: begin_kyber_spk_rotation_def on_kyber_def)
  with b k show thesis by (intro that [of k]) simp_all
qed

lemma begin_pending: "begin_spk_rotation P E t s = (Inr k, s') \<Longrightarrow> ks_pending_spk s' = Some k"
  by (auto simp: begin_spk_rotation_def split: option.splits if_splits sum.splits)

lemma upload_trusted:
  assumes "ed25519_correct P" "mldsa65_correct P" "mlkem1024_correct P E" "hybrid_pair P hsk hk"
    and "kyber_upload P k km = Inr u" "km_signing_key km = Some (sk, ed25519_vk P sk)" "km_hybrid_sig_priv km = Some hsk"
    and "1 \<le> kk_key_id k" "kk_key_id k < KYBER_OTPK_ID_START" "sat_sub now_s (ku_created_at u) \<le> 30 * 24 * 3600"
  shows "prekey_trusted P (ed25519_vk P sk) hk SignedRange now_s (offer_of u)"
proof -
  obtain l: "length (kk_seed k) = MLKEM_SEED_SIZE" "ku_key_id u = kk_key_id k" "ku_public_key u = mlkem1024_ek P (kk_seed k)"
    and s: "sign P sk (kyber_prekey_sign_message_v2 (ku_created_at u) (ku_public_key u)) = Inr (ku_signature u)"
    "hybrid_sign P hsk (kyber_prekey_sign_message_v2 (ku_created_at u) (ku_public_key u)) = Inr (ku_hybrid_signature u)"
    by (rule kyber_upload_okE [OF assms(5-7)])
  have "length (ku_public_key u) = 1568"
    using assms(3) l unfolding mlkem1024_correct_def MLKEM_SEED_SIZE_def by metis
  then show ?thesis
    using verify_sign(1) [OF assms(1) s(1)] hybrid_sign_verify(1) [OF assms(1,2,4) s(2)] assms(8-10) l(2)
    by (simp add: prekey_trusted_def offer_of_def id_in_range_def)
qed

text \<open>
  C20.  The signed Kyber prekey a device hands out is one every peer accepts and the device can answer.  After any
  history of the Kyber store, the record a rotation gives out, with the device's keys and the cross-signature of
  its hybrid key in the bundle, is what a peer that has pinned nothing or this hybrid key chooses while the record
  is at most thirty days old; and what the peer encapsulates to it, the device decapsulates by the id it names.
\<close>

theorem kyber_upload_accepted:
  assumes "ed25519_correct P" "mldsa65_correct P" "mlkem1024_correct P E'" "hybrid_pair P hsk hk"
    and "list_all kyber_op_ok before" "km_kyber_prekeys km = fold (kyber_step P) before kyber_default"
    and "length (drawn_mlkem1024_seed E) = MLKEM_SEED_SIZE"
    and "km_signing_key km = Some (sk, ed25519_vk P sk)" "km_hybrid_sig_priv km = Some hsk"
    and "begin_kyber_spk_rotation P E km = (Inr u, km')"
    and "sign P sk (build_hybrid_identity_bind_message hk) = Inr bind"
    and "offer = \<lparr> po_verifying_key = ed25519_vk P sk, po_hybrid_identity_key = Some hk,
      po_hybrid_identity_signature = Some bind, po_signed_prekey = Some (offer_of u), po_one_time_prekey = None \<rparr>"
    and "pc_pinned_hybrid_identity ctx \<in> {None, Some (sha256 P hk)}"
    and "sat_sub (pc_now ctx) (ku_created_at u) \<le> 30 * 24 * 3600"
    and "mlkem1024_encapsulate E' (ku_public_key u) = Inr (ct, ss)"
  shows "plan_pqxdh P offer ctx = Inr \<lparr> ch_kyber_prekey_id = ku_key_id u, ch_kyber_public = ku_public_key u,
      ch_hybrid_identity_fingerprint = sha256 P hk, ch_one_time_prekey_rejected = None \<rparr> \<and>
    decapsulate_with_kyber_prekey P (ku_key_id u) ct km' = Inr ss"
proof -
  obtain k where k: "begin_spk_rotation P E (now E) (km_kyber_prekeys km) = (Inr k, km_kyber_prekeys km')"
    "kyber_upload P k km' = Inr u" "km_signing_key km' = Some (sk, ed25519_vk P sk)" "km_hybrid_sig_priv km' = Some hsk"
    using begin_kyber_okE [OF assms(10)] assms(8,9) by metis
  have "km_kyber_prekeys km' = fold (kyber_step P) (before @ [BeginRotation E (now E)]) kyber_default"
    using k(1) by (simp add: assms(6))
  then have g: "kyber_grows kyber_default (km_kyber_prekeys km')"
    using kyber_run_grows [OF kyber_default_ok, of "before @ [BeginRotation E (now E)]" P] assms(5,7) by simp
  then have ok: "kyber_ok (km_kyber_prekeys km')" by (simp add: kyber_grows_def)
  have held: "k \<in> set (held_spks (km_kyber_prekeys km'))" using begin_pending [OF k(1)] by (simp add: held_spks_def)
  have lt: "kk_key_id k < KYBER_OTPK_ID_START" using ok held unfolding kyber_ok_def by (meson order.strict_trans2)
  have h: "k \<in> kyber_held (km_kyber_prekeys km')" using held by (simp add: kyber_held_def)
  have "kyber_unused kyber_default (kk_key_id k)"
    using g h unfolding kyber_grows_def by (auto simp: kyber_held_def held_spks_def kyber_default_def)
  then have ge: "1 \<le> kk_key_id k" using lt by (simp add: kyber_unused_def kyber_default_def split: if_splits)
  have id: "ku_key_id u = kk_key_id k" "ku_public_key u = mlkem1024_ek P (kk_seed k)" "length (kk_seed k) = MLKEM_SEED_SIZE"
    using kyber_upload_okE [OF k(2-4)] by metis+
  have t: "prekey_trusted P (ed25519_vk P sk) hk SignedRange (pc_now ctx) (offer_of u)"
    by (rule upload_trusted [OF assms(1-4) k(2-4) ge lt assms(14)])
  have "hk \<noteq> []" using hybrid_pair_public(3) [OF assms(2,1,4)] by (auto simp: HYBRID_SIG_PUBLIC_KEY_SIZE_def ED25519_PUBLIC_KEY_SIZE_def)
  then have "hybrid_bound P offer ctx hk"
    using verify_sign(1) [OF assms(1,11)] assms(13) by (simp add: hybrid_bound_def assms(12) build_hybrid_identity_bind_message_def)
  moreover have "trusted_choice P offer ctx hk (pqxdh_choice_of (offer_of u) (sha256 P hk) None)"
    using t by (simp add: trusted_choice_def assms(12))
  ultimately have "plan_pqxdh P offer ctx = Inr (pqxdh_choice_of (offer_of u) (sha256 P hk) None)" by (rule plan_accepts)
  moreover have "kyber_find (kk_key_id k) (km_kyber_prekeys km') = Some k" using kyber_find_iff [OF ok] h by blast
  moreover have "mlkem1024_decapsulate P (kk_seed k) ct = Inr ss"
    by (rule mlkem1024_agree(1) [OF assms(3) _ assms(15)])
      (simp add: mlkem1024_public_from_seed_def mlkem1024_key_from_seed_def id)
  moreover have "kk_key_id k \<noteq> 0" using ge by auto
  ultimately show ?thesis by (simp add: pqxdh_choice_of_def offer_of_def decapsulate_with_kyber_prekey_def id(1))
qed

definition sample_hybrid_keys :: "bytes \<times> bytes" where
  "sample_hybrid_keys = hybrid_signature_keypair_from_seeds sample_primitives (replicate 32 11) (replicate 32 11)"

definition sample_kyber_km :: key_manager where
  "sample_kyber_km = km_new\<lparr> km_signing_key := Some (replicate 32 10, replicate 32 10),
     km_hybrid_sig_priv := Some (fst sample_hybrid_keys) \<rparr>"

lemma sample_hybrid_pair: "hybrid_pair sample_primitives (fst sample_hybrid_keys) (snd sample_hybrid_keys)"
  unfolding hybrid_pair_def sample_hybrid_keys_def
  by (intro exI [of _ "replicate 32 11"]) simp

lemma sample_vk: "ed25519_vk sample_primitives (replicate 32 10) = replicate 32 10"
  by (simp add: sample_primitives_def)

lemma hybrid_sign_sample: "\<exists>s. hybrid_sign sample_primitives (fst sample_hybrid_keys) m = Inr s"
  using hybrid_pair_public(2) [OF sample_mldsa65_correct sample_ed25519_correct sample_hybrid_pair]
  by (simp add: hybrid_sign_def split_hybrid_private_key_def sample_primitives_def ok_or_def)

lemma sample_begin_kyber:
  "\<exists>u km'. begin_kyber_spk_rotation sample_primitives sample_draws sample_kyber_km = (Inr u, km') \<and>
    ku_created_at u = 1000 \<and> length (ku_public_key u) = 1568"
proof -
  let ?P = sample_primitives and ?km = sample_kyber_km
  let ?k = "\<lparr> kk_key_id = 1, kk_created_at = 1000, kk_seed = replicate 64 5 \<rparr>"
  let ?km' = "?km\<lparr> km_kyber_prekeys := kyber_default\<lparr> ks_next_spk_id := 2, ks_pending_spk := Some ?k \<rparr> \<rparr>"
  have h: "require_hybrid_key ?P ?km = Inr ()"
    using hybrid_pair_public(1) [OF sample_mldsa65_correct sample_ed25519_correct sample_hybrid_pair]
    by (simp add: require_hybrid_key_def hybrid_signature_public_key_def sample_kyber_km_def)
  have b: "on_kyber (begin_spk_rotation ?P sample_draws (now sample_draws)) ?km = (Inr ?k, ?km')"
    by (simp add: on_kyber_def begin_spk_rotation_def sample_kyber_km_def km_new_def kyber_default_def kyber_generate_def
        mlkem1024_generate_def sample_draws_def KYBER_OTPK_ID_START_def otpk_start_above_1)
  let ?pk = "mlkem1024_ek ?P (replicate 64 5)"
  let ?m = "kyber_prekey_sign_message_v2 1000 ?pk"
  obtain hs where hs: "hybrid_sign ?P (fst sample_hybrid_keys) ?m = Inr hs" using hybrid_sign_sample by blast
  have "kyber_upload ?P ?k ?km' = Inr \<lparr> ku_key_id = 1, ku_public_key = ?pk, ku_created_at = 1000,
      ku_signature = ed25519_sig ?P (replicate 32 10) ?m, ku_hybrid_signature = hs \<rparr>" (is "_ = Inr ?u")
    by (simp add: kyber_upload_def kyber_public_key_def mlkem1024_public_from_seed_def mlkem1024_key_from_seed_def
        MLKEM_SEED_SIZE_def sample_kyber_km_def sign_def sign_hybrid_def ok_or_def hs)
  moreover have "ku_created_at ?u = 1000" "length (ku_public_key ?u) = 1568" by (simp_all add: sample_primitives_def)
  ultimately obtain u where "kyber_upload ?P ?k ?km' = Inr u" "ku_created_at u = 1000" "length (ku_public_key u) = 1568"
    by blast
  then show ?thesis using h b by (simp add: begin_kyber_spk_rotation_def)
qed

theorem kyber_upload_accepted_witness:
  "\<exists>u km' bind. begin_kyber_spk_rotation sample_primitives sample_draws sample_kyber_km = (Inr u, km') \<and>
    plan_pqxdh sample_primitives \<lparr> po_verifying_key = replicate 32 10,
        po_hybrid_identity_key = Some (snd sample_hybrid_keys), po_hybrid_identity_signature = Some bind,
        po_signed_prekey = Some (offer_of u), po_one_time_prekey = None \<rparr>
      \<lparr> pc_now = 2000, pc_pinned_hybrid_identity = None \<rparr> =
      Inr \<lparr> ch_kyber_prekey_id = ku_key_id u, ch_kyber_public = ku_public_key u,
        ch_hybrid_identity_fingerprint = sha256 sample_primitives (snd sample_hybrid_keys),
        ch_one_time_prekey_rejected = None \<rparr> \<and>
    decapsulate_with_kyber_prekey sample_primitives (ku_key_id u) (replicate 1568 6) km' = Inr (replicate 32 6)"
proof -
  let ?P = sample_primitives
  obtain u km' where u: "begin_kyber_spk_rotation ?P sample_draws sample_kyber_km = (Inr u, km')"
    "ku_created_at u = 1000" "length (ku_public_key u) = 1568" using sample_begin_kyber by blast
  obtain bind where bind: "sign ?P (replicate 32 10) (build_hybrid_identity_bind_message (snd sample_hybrid_keys)) = Inr bind"
    by (simp add: sign_def)
  have e: "mlkem1024_encapsulate sample_draws (ku_public_key u) = Inr (replicate 1568 6, replicate 32 6)"
    using u(3) by (simp add: mlkem1024_encapsulate_def MLKEM1024_PK_SIZE_def sample_draws_def ok_or_def)
  have km: "km_signing_key sample_kyber_km = Some (replicate 32 10, ed25519_vk ?P (replicate 32 10))"
    "km_hybrid_sig_priv sample_kyber_km = Some (fst sample_hybrid_keys)"
    "km_kyber_prekeys sample_kyber_km = fold (kyber_step ?P) [] kyber_default"
    by (simp_all add: sample_kyber_km_def sample_vk km_new_def)
  have r: "length (drawn_mlkem1024_seed sample_draws) = MLKEM_SEED_SIZE" "list_all kyber_op_ok []"
    "sat_sub (pc_now \<lparr> pc_now = 2000, pc_pinned_hybrid_identity = None \<rparr>) (ku_created_at u) \<le> 30 * 24 * 3600"
    "pc_pinned_hybrid_identity \<lparr> pc_now = 2000, pc_pinned_hybrid_identity = None \<rparr> \<in> {None, Some (sha256 ?P (snd sample_hybrid_keys))}"
    by (simp_all add: sample_draws_def MLKEM_SEED_SIZE_def u sat_sub_def)
  show ?thesis
    using u(1) kyber_upload_accepted [OF sample_ed25519_correct sample_mldsa65_correct sample_mlkem1024_correct
      sample_hybrid_pair r(2) km(3) r(1) km(1,2) u(1) bind refl r(4,3) e, unfolded sample_vk] by blast
qed

end
