(* ===== verification/Session_Machine.thy ===== *)
theory Session_Machine
  imports Crypto_Provider
begin

text \<open>
  The lock on a session being opened (\<open>src/orchestration/session_machine.rs\<close>): one phase per device, the events
  that move it and the effect each asks for, with the clock as an argument.  One init is in flight per device, and
  the lock lets go of an init that is never reported over.
\<close>

definition OPENING_TTL_MS :: u64 where "OPENING_TTL_MS = 30000"

datatype phase = Absent | Opening (since_ms: u64)

datatype session_event = WantToOpen | OpenFinished | OpenFailed | Forget

datatype session_effect = OpenNow | WaitForOpen | NothingToDo

type_synonym session_machine = "(bytes, phase) hmap"

definition sm_phase :: "u64 \<Rightarrow> bytes \<Rightarrow> session_machine \<Rightarrow> phase" where
  "sm_phase now_ms device_id phases = (case hm_get device_id phases of
     Some (Opening since) \<Rightarrow> if sat_sub now_ms since < OPENING_TTL_MS then Opening since else Absent
   | _ \<Rightarrow> Absent)"

definition sm_handle :: "u64 \<Rightarrow> bytes \<Rightarrow> session_event \<Rightarrow> session_machine \<Rightarrow> session_effect \<times> session_machine" where
  "sm_handle now_ms device_id event phases = (case event of
     WantToOpen \<Rightarrow>
       (case sm_phase now_ms device_id phases of
          Opening _ \<Rightarrow> (WaitForOpen, phases)
        | Absent \<Rightarrow> (OpenNow, hm_insert device_id (Opening now_ms) phases))
   | _ \<Rightarrow> (NothingToDo, hm_remove device_id phases))"

definition opening_device_ids :: "u64 \<Rightarrow> session_machine \<Rightarrow> bytes list" where
  "opening_device_ids now_ms phases =
    filter (\<lambda>device_id. sm_phase now_ms device_id phases \<noteq> Absent) (map fst phases)"

definition restore_opening :: "u64 \<Rightarrow> bytes list \<Rightarrow> session_machine \<Rightarrow> session_machine" where
  "restore_opening now_ms device_ids phases = fold (\<lambda>d m. hm_insert d (Opening now_ms) m) device_ids []"

definition sm_prune_expired :: "u64 \<Rightarrow> session_machine \<Rightarrow> session_machine" where
  "sm_prune_expired now_ms phases = hm_retain (\<lambda>_ phase. case phase of
     Opening since \<Rightarrow> sat_sub now_ms since < OPENING_TTL_MS | Absent \<Rightarrow> False) phases"

subsection \<open>Runs of the machine\<close>

text \<open>A restart stores the live devices and restores them in the next process.\<close>

datatype sm_op = Handle bytes session_event | PruneOpenings | RestartMachine

fun sm_step :: "u64 \<times> sm_op \<Rightarrow> session_machine \<Rightarrow> session_machine" where
  "sm_step (t, Handle d ev) m = snd (sm_handle t d ev m)"
| "sm_step (t, PruneOpenings) m = sm_prune_expired t m"
| "sm_step (t, RestartMachine) m = restore_opening t (opening_device_ids t m) []"

definition releases :: "bytes \<Rightarrow> sm_op \<Rightarrow> bool" where
  "releases d op \<longleftrightarrow> (\<exists>ev. op = Handle d ev \<and> ev \<noteq> WantToOpen)"

definition opened_since :: "bytes \<Rightarrow> u64 \<Rightarrow> u64 \<Rightarrow> session_machine \<Rightarrow> bool" where
  "opened_since d lo hi m \<longleftrightarrow> hm_wf m \<and> (\<exists>s. hm_get d m = Some (Opening s) \<and> lo \<le> s \<and> s \<le> hi)"

lemma restore_get:
  "hm_get d (fold (\<lambda>d m. hm_insert d (Opening t) m) ds m) = (if d \<in> set ds then Some (Opening t) else hm_get d m)"
  by (induction ds arbitrary: m) (auto simp: hm.get_insert)

lemma restore_wf: "hm_wf m \<Longrightarrow> hm_wf (fold (\<lambda>d m. hm_insert d (Opening t) m) ds m)"
  by (induction ds arbitrary: m) (auto simp: hm.wf_insert)

lemma opening_ids_iff: "d \<in> set (opening_device_ids t m) \<longleftrightarrow> sm_phase t d m \<noteq> Absent"
proof -
  have "hm_get d m \<noteq> None" if "sm_phase t d m \<noteq> Absent"
    using that by (auto simp: sm_phase_def split: option.splits)
  then have "d \<in> fst ` set m" if "sm_phase t d m \<noteq> Absent"
    using that by (auto simp: hm_get_def dest: map_of_SomeD intro: rev_image_eqI)
  then show ?thesis by (auto simp: opening_device_ids_def)
qed

lemma sat_sub_mono: "a \<le> b \<Longrightarrow> b \<le> c \<Longrightarrow> sat_sub c b \<le> sat_sub c a \<and> sat_sub b a \<le> sat_sub c a" for a b c :: u64
  by (simp add: word_le_nat_alt unat_sat_sub) linarith

lemma live_phase:
  assumes "opened_since d lo hi m" "hi \<le> t" "sat_sub t lo < OPENING_TTL_MS"
  shows "\<exists>s. hm_get d m = Some (Opening s) \<and> sm_phase t d m = Opening s \<and> lo \<le> s \<and> s \<le> hi \<and>
    sat_sub t s < OPENING_TTL_MS"
proof -
  obtain s where s: "hm_get d m = Some (Opening s)" "lo \<le> s" "s \<le> hi" using assms(1) by (auto simp: opened_since_def)
  then have "sat_sub t s < OPENING_TTL_MS" using sat_sub_mono [of lo s t] assms(2,3) by (meson order.trans order.strict_trans1)
  then show ?thesis using s by (simp add: sm_phase_def)
qed

lemma opened_step:
  assumes o: "opened_since d lo hi m" and t: "hi \<le> t" "sat_sub t lo < OPENING_TTL_MS" and r: "\<not> releases d op"
  shows "opened_since d lo t (sm_step (t, op) m)"
proof -
  obtain s where s: "hm_get d m = Some (Opening s)" "sm_phase t d m = Opening s" "lo \<le> s" "s \<le> t"
    "sat_sub t s < OPENING_TTL_MS" using live_phase [OF o t] t(1) by (meson order.trans)
  have wf: "hm_wf m" using o by (simp add: opened_since_def)
  show ?thesis
  proof (cases op)
    case (Handle d' ev)
    show ?thesis
    proof (cases "d' = d")
      case True
      then have "ev = WantToOpen" using Handle r by (auto simp: releases_def)
      then show ?thesis using Handle True s wf by (auto simp: sm_handle_def opened_since_def)
    next
      case False
      then show ?thesis
        using Handle s wf
        by (cases ev)
          (auto simp: sm_handle_def opened_since_def hm.get_insert hm_remove_get hm.wf_insert hm.wf_remove split: phase.split)
    qed
  next
    case PruneOpenings
    then show ?thesis
      using s wf by (auto simp: sm_prune_expired_def opened_since_def hm_retain_get hm.wf_retain)
  next
    case RestartMachine
    have "d \<in> set (opening_device_ids t m)" using s(2) by (simp add: opening_ids_iff)
    then show ?thesis
      using RestartMachine s(3,4) by (auto simp: restore_opening_def opened_since_def restore_get restore_wf)
  qed
qed

lemma opened_run:
  assumes "opened_since d lo hi m" "sorted (hi # map fst ops)" "list_all (\<lambda>(t, op). \<not> releases d op) ops"
    and "\<forall>t \<in> set (map fst ops). sat_sub t lo < OPENING_TTL_MS"
  shows "opened_since d lo (last (hi # map fst ops)) (fold sm_step ops m)"
  using assms
proof (induction ops arbitrary: hi m)
  case (Cons x ops)
  obtain t op where x: "x = (t, op)" by (cases x)
  have "opened_since d lo t (sm_step x m)" unfolding x by (rule opened_step) (use Cons.prems x in auto)
  then have "opened_since d lo (last (t # map fst ops)) (fold sm_step ops (sm_step x m))"
    by (rule Cons.IH) (use Cons.prems x in auto)
  then show ?case by (simp add: x)
qed simp

text \<open>
  C21.  One init in flight.  Once the machine has said to open a session with a device, every later request for that
  device is told to wait, whatever happens to other devices and through prunings and restarts, until the init is
  reported over, the device is forgotten or thirty seconds have gone by.
\<close>

theorem one_init_in_flight:
  assumes "hm_wf m" "fst (sm_handle t\<^sub>0 d WantToOpen m) = OpenNow"
    and "sorted (t\<^sub>0 # map fst ops @ [t])" "list_all (\<lambda>(_, op). \<not> releases d op) ops"
    and "sat_sub t t\<^sub>0 < OPENING_TTL_MS"
  shows "fst (sm_handle t d WantToOpen (fold sm_step ops (snd (sm_handle t\<^sub>0 d WantToOpen m)))) = WaitForOpen"
proof -
  have "opened_since d t\<^sub>0 t\<^sub>0 (snd (sm_handle t\<^sub>0 d WantToOpen m))"
    using assms(1,2) by (auto simp: sm_handle_def opened_since_def hm.get_insert hm.wf_insert split: phase.splits)
  moreover have "\<forall>u \<in> set (map fst ops). sat_sub u t\<^sub>0 < OPENING_TTL_MS"
  proof
    fix u assume "u \<in> set (map fst ops)"
    then have "t\<^sub>0 \<le> u" "u \<le> t" using assms(3) by (auto simp: sorted_append)
    then show "sat_sub u t\<^sub>0 < OPENING_TTL_MS" using sat_sub_mono [of t\<^sub>0 u t] assms(5) by (meson order.strict_trans1)
  qed
  ultimately have o: "opened_since d t\<^sub>0 (last (t\<^sub>0 # map fst ops)) (fold sm_step ops (snd (sm_handle t\<^sub>0 d WantToOpen m)))"
    using opened_run assms(3,4) by (auto simp: sorted_append)
  have "last (t\<^sub>0 # map fst ops) \<le> t"
    using assms(3) last_in_set [of "t\<^sub>0 # map fst ops"] by (auto simp: sorted_append)
  from live_phase [OF o this assms(5)] show ?thesis by (auto simp: sm_handle_def)
qed

theorem one_init_in_flight_witness:
  "fst (sm_handle 30999 [1] WantToOpen (fold sm_step [(2000, Handle [2] WantToOpen), (3000, RestartMachine),
      (4000, PruneOpenings), (5000, Handle [2] OpenFinished)] (snd (sm_handle 1000 [1] WantToOpen [])))) = WaitForOpen"
  by (rule one_init_in_flight)
    (simp_all add: sm_handle_def sm_phase_def releases_def sat_sub_def OPENING_TTL_MS_def)

subsection \<open>The lock does not outlive its time\<close>

lemma opened_times:
  assumes "\<forall>d s. hm_get d m = Some (Opening s) \<longrightarrow> s \<in> T" "hm_wf m"
  shows "hm_wf (fold sm_step ops m) \<and>
    (\<forall>d s. hm_get d (fold sm_step ops m) = Some (Opening s) \<longrightarrow> s \<in> T \<union> fst ` set ops)"
  using assms
proof (induction ops arbitrary: m T)
  case (Cons x ops)
  obtain t op where x: "x = (t, op)" by (cases x)
  have "hm_wf (sm_step x m) \<and> (\<forall>d s. hm_get d (sm_step x m) = Some (Opening s) \<longrightarrow> s \<in> insert t T)"
  proof (cases op)
    case (Handle d ev)
    then show ?thesis
      using Cons.prems x
      by (cases ev)
        (auto simp: sm_handle_def hm.get_insert hm_remove_get hm.wf_insert hm.wf_remove split: phase.splits if_splits)
  next
    case PruneOpenings
    then show ?thesis
      using Cons.prems x
      by (auto simp: sm_prune_expired_def hm_retain_get hm.wf_retain split: option.splits if_splits)
  next
    case RestartMachine
    then show ?thesis using x by (auto simp: restore_opening_def restore_get restore_wf split: if_splits)
  qed
  then show ?case using Cons.IH [of "sm_step x m" "insert t T"] x by auto
qed simp

text \<open>
  C22.  The lock lets go.  Whatever the machine has been through, a request made thirty seconds after everything that
  happened to it is granted, even when the init it waited for was never reported over.
\<close>

theorem opening_lock_expires:
  assumes "\<forall>u \<in> set (map fst ops). OPENING_TTL_MS \<le> sat_sub t u"
  shows "fst (sm_handle t d WantToOpen (fold sm_step ops [])) = OpenNow"
proof -
  have "\<forall>s. hm_get d (fold sm_step ops []) = Some (Opening s) \<longrightarrow> s \<in> fst ` set ops"
    using opened_times [of "[]" "{}" ops] by simp
  then have "sm_phase t d (fold sm_step ops []) = Absent"
    using assms by (fastforce simp: sm_phase_def split: option.split phase.split)
  then show ?thesis by (simp add: sm_handle_def)
qed

theorem opening_lock_expires_witness:
  "fst (sm_handle 31000 [1] WantToOpen (fold sm_step [(1000, Handle [1] WantToOpen)] [])) = OpenNow"
  by (rule opening_lock_expires) (simp add: sat_sub_def OPENING_TTL_MS_def)

end
