(* ===== verification/Delivery_Plan.thy ===== *)
theory Delivery_Plan
  imports Crypto_Provider "HOL-Library.Sublist"
begin

text \<open>
  Plans of what to send and what to open (\<open>src/orchestration/send_plan.rs\<close>,
  \<open>src/orchestration/initiation_plan.rs\<close>, \<open>src/orchestration/receiving_init_plan.rs\<close>).
\<close>

datatype delivery_audience = Recipient | OwnReplica

record delivery_target =
  dt_device_id :: bytes
  dt_audience :: delivery_audience

definition push_target ::
    "bytes \<Rightarrow> delivery_audience \<Rightarrow> bytes list \<times> delivery_target list \<Rightarrow> bytes list \<times> delivery_target list" where
  "push_target i audience acc = (case acc of (seen, out) \<Rightarrow>
     if i = [] \<or> i \<in> set seen then (seen, out)
     else (seen @ [i], out @ [\<lparr> dt_device_id = i, dt_audience = audience \<rparr>]))"

definition plan_send :: "bytes list \<Rightarrow> bytes list \<Rightarrow> bytes \<Rightarrow> bool \<Rightarrow> delivery_target list" where
  "plan_send recipient_device_ids own_device_ids our_device_id recipient_is_self =
    (let acc = ([], []);
         acc = (if \<not> recipient_is_self then fold (\<lambda>i. push_target i Recipient) recipient_device_ids acc else acc);
         acc = (if our_device_id \<noteq> []
           then fold (\<lambda>i acc. if i = our_device_id then acc else push_target i OwnReplica acc) own_device_ids acc
           else acc)
     in snd acc)"

datatype initiation_decision = Initiate | JoinInFlight | YieldToPeer | Wait

record initiation_context =
  our_init_in_flight :: bool
  peer_init_in_flight :: bool
  have_outbound_work :: bool

definition plan_initiation :: "initiation_context \<Rightarrow> initiation_decision" where
  "plan_initiation ctx =
    (if our_init_in_flight ctx then JoinInFlight
     else if peer_init_in_flight ctx then YieldToPeer
     else if have_outbound_work ctx then Initiate
     else Wait)"

record receiving_init_carrier =
  ric_message_number :: u32
  ric_one_time_prekey_id :: u32
  ric_kem_ciphertext_bytes :: u32
  ric_pq_message_epoch :: u32

datatype receiving_init_kind = HandshakeKind | MidRatchet

definition receiving_init_kind_of :: "receiving_init_carrier \<Rightarrow> receiving_init_kind" where
  "receiving_init_kind_of carrier = (if 0 < ric_kem_ciphertext_bytes carrier then HandshakeKind else MidRatchet)"

subsection \<open>What is planned\<close>

text \<open>The copies asked for, in order: the recipient's devices, then our other devices.\<close>

definition wanted_copies :: "bytes list \<Rightarrow> bytes list \<Rightarrow> bytes \<Rightarrow> bool \<Rightarrow> (bytes \<times> delivery_audience) list" where
  "wanted_copies recipients own ours self =
    (if self then [] else map (\<lambda>i. (i, Recipient)) recipients) @
    (if ours = [] then [] else map (\<lambda>i. (i, OwnReplica)) (filter (\<lambda>i. i \<noteq> ours) own))"

text \<open>The first copy for each named device.\<close>

fun first_copies :: "bytes list \<Rightarrow> (bytes \<times> delivery_audience) list \<Rightarrow> (bytes \<times> delivery_audience) list" where
  "first_copies seen [] = []"
| "first_copies seen ((i, a) # cs) =
    (if i = [] \<or> i \<in> set seen then first_copies seen cs else (i, a) # first_copies (seen @ [i]) cs)"

definition target_of :: "bytes \<times> delivery_audience \<Rightarrow> delivery_target" where
  "target_of c = \<lparr> dt_device_id = fst c, dt_audience = snd c \<rparr>"

lemma push_all:
  "snd (fold (\<lambda>(i, a). push_target i a) cs (seen, out)) = out @ map target_of (first_copies seen cs)"
  by (induction seen cs arbitrary: out rule: first_copies.induct) (auto simp: push_target_def target_of_def)

lemma plan_send_first: "plan_send rs own ours self = map target_of (first_copies [] (wanted_copies rs own ours self))"
proof -
  have r: "fold (\<lambda>i. push_target i a) is acc = fold (\<lambda>(i, a). push_target i a) (map (\<lambda>i. (i, a)) is) acc" for "is" a acc
    by (induction "is" arbitrary: acc) auto
  have o: "fold (\<lambda>i acc. if i = ours then acc else push_target i a acc) is acc =
    fold (\<lambda>(i, a). push_target i a) (map (\<lambda>i. (i, a)) (filter (\<lambda>i. i \<noteq> ours) is)) acc" for "is" a acc
    by (induction "is" arbitrary: acc) auto
  have "plan_send rs own ours self = snd (fold (\<lambda>(i, a). push_target i a) (wanted_copies rs own ours self) ([], []))"
    by (simp add: plan_send_def wanted_copies_def r o Let_def)
  then show ?thesis by (simp add: push_all)
qed

lemma first_copies_ids: "set (map fst (first_copies seen cs)) = {i \<in> fst ` set cs. i \<noteq> [] \<and> i \<notin> set seen}"
  by (induction seen cs rule: first_copies.induct) auto

lemma first_copies_distinct: "distinct (map fst (first_copies seen cs))"
  by (induction seen cs rule: first_copies.induct) (use first_copies_ids in \<open>auto simp: image_iff\<close>)

lemma first_copies_subseq: "subseq (first_copies seen cs) cs"
  by (induction seen cs rule: first_copies.induct) auto

text \<open>
  C23.  Every device gets one copy.  The plan names each device at most once and no empty id; it names exactly the
  recipient's devices, unless the note is to oneself, and our own devices other than this one, when this one is
  known; and it keeps the order asked for, the recipient's devices first.
\<close>

theorem plan_send_exact:
  "distinct (map dt_device_id (plan_send rs own ours self)) \<and>
   set (map dt_device_id (plan_send rs own ours self)) =
     {i. i \<noteq> [] \<and> (\<not> self \<and> i \<in> set rs \<or> ours \<noteq> [] \<and> i \<noteq> ours \<and> i \<in> set own)} \<and>
   subseq (map (\<lambda>t. (dt_device_id t, dt_audience t)) (plan_send rs own ours self))
     ((if self then [] else map (\<lambda>i. (i, Recipient)) rs) @
      (if ours = [] then [] else map (\<lambda>i. (i, OwnReplica)) (filter (\<lambda>i. i \<noteq> ours) own)))"
proof -
  have ids: "map dt_device_id (map target_of cs) = map fst cs" for cs by (simp add: target_of_def)
  have whole: "map (\<lambda>t. (dt_device_id t, dt_audience t)) (map target_of cs) = cs" for cs
    by (induction cs) (simp_all add: target_of_def)
  have "set (map fst (first_copies [] (wanted_copies rs own ours self))) =
     {i. i \<noteq> [] \<and> (\<not> self \<and> i \<in> set rs \<or> ours \<noteq> [] \<and> i \<noteq> ours \<and> i \<in> set own)}"
    unfolding first_copies_ids by (auto simp: wanted_copies_def image_Un image_image)
  then show ?thesis
    unfolding plan_send_first ids whole
    using first_copies_distinct first_copies_subseq [of "[]" "wanted_copies rs own ours self"]
    by (simp add: wanted_copies_def)
qed

end
