(* ===== verification/Session_Envelope.thy ===== *)
theory Session_Envelope
  imports Pq_Prekey_Plan
begin

text \<open>
  The session envelope and the book of envelope keys: how a delivered message
  is wrapped under the pair's directional keys so that only the holder of the
  keys can tell which pair it belongs to (\<open>src/crypto/sealed_sender/envelope.rs\<close>),
  and the book that files the keys of every session, finds the one an incoming
  envelope is for and is stored with the device
  (\<open>src/crypto/sealed_sender/book.rs\<close>).
\<close>

definition ENVELOPE_NONCE_LEN :: nat where "ENVELOPE_NONCE_LEN = 12"
definition ENVELOPE_TAG_LEN :: nat where "ENVELOPE_TAG_LEN = 16"
definition ENVELOPE_OVERHEAD :: nat where "ENVELOPE_OVERHEAD = ENVELOPE_NONCE_LEN + ENVELOPE_TAG_LEN + 16"

lemmas envelope_sizes = ENVELOPE_NONCE_LEN_def ENVELOPE_TAG_LEN_def ENVELOPE_OVERHEAD_def

record direction_keys =
  dk_env :: bytes
  dk_tag :: bytes

definition direction_keys_of :: "bytes \<Rightarrow> direction_keys" where
  "direction_keys_of out = \<lparr> dk_env = take 32 out, dk_tag = drop 32 out \<rparr>"

text \<open>No value is the panic of the \<open>expect\<close>.  An absent HKDF salt is the empty one: HMAC pads both to the same key.\<close>

definition direction_keys_derive :: "primitives \<Rightarrow> bytes \<Rightarrow> bytes \<Rightarrow> bytes \<Rightarrow> direction_keys option" where
  "direction_keys_derive P sk sender recipient =
    map_option direction_keys_of
      (hkdf_sha256 P [] sk (ascii ''construct-envelope-v1'' @ [0x00] @ sender @ [0x00] @ recipient) 64)"

definition direction_keys_from_bytes :: "bytes \<Rightarrow> crypto_error + direction_keys" where
  "direction_keys_from_bytes b = (if length b \<noteq> 64 then Inl InvalidInputError else Inr (direction_keys_of b))"

definition direction_keys_to_bytes :: "direction_keys \<Rightarrow> bytes" where
  "direction_keys_to_bytes k = dk_env k @ dk_tag k"

definition envelope_tag :: "primitives \<Rightarrow> direction_keys \<Rightarrow> bytes \<Rightarrow> bytes" where
  "envelope_tag P k nonce = take ENVELOPE_TAG_LEN (hmac_sha256 P (dk_tag k) nonce)"

definition seal_with_nonce :: "primitives \<Rightarrow> direction_keys \<Rightarrow> bytes \<Rightarrow> bytes \<Rightarrow> crypto_error + bytes" where
  "seal_with_nonce P k body nonce =
    (let tag = envelope_tag P k nonce
     in res_bind (ok_or AeadEncryptionError (chacha_seal P (dk_env k) nonce body tag)) (\<lambda>ct.
        Inr (nonce @ tag @ ct)))"

definition envelope_seal :: "primitives \<Rightarrow> draws \<Rightarrow> direction_keys \<Rightarrow> bytes \<Rightarrow> crypto_error + bytes" where
  "envelope_seal P E k body = seal_with_nonce P k body (drawn_nonce E ENVELOPE_NONCE_LEN)"

definition envelope_matches :: "primitives \<Rightarrow> direction_keys \<Rightarrow> bytes \<Rightarrow> bool" where
  "envelope_matches P k envelope \<longleftrightarrow> ENVELOPE_OVERHEAD \<le> length envelope \<and>
    take ENVELOPE_TAG_LEN (drop ENVELOPE_NONCE_LEN envelope) = envelope_tag P k (take ENVELOPE_NONCE_LEN envelope)"

definition envelope_open :: "primitives \<Rightarrow> direction_keys \<Rightarrow> bytes \<Rightarrow> crypto_error + bytes" where
  "envelope_open P k envelope =
    (if \<not> envelope_matches P k envelope then Inl AeadDecryptionError
     else
       (let nonce = take ENVELOPE_NONCE_LEN envelope;
            tag = subslice ENVELOPE_NONCE_LEN (ENVELOPE_NONCE_LEN + ENVELOPE_TAG_LEN) envelope;
            ct = drop (ENVELOPE_NONCE_LEN + ENVELOPE_TAG_LEN) envelope
        in ok_or AeadDecryptionError (chacha_open P (dk_env k) nonce ct tag)))"

datatype envelope_kind = RatchetEnvelope | DecryptionErrorEnvelope

definition envelope_kind_byte :: "envelope_kind \<Rightarrow> u8" where
  "envelope_kind_byte kind = (case kind of RatchetEnvelope \<Rightarrow> 0x01 | DecryptionErrorEnvelope \<Rightarrow> 0x02)"

definition envelope_kind_from_byte :: "u8 \<Rightarrow> envelope_kind option" where
  "envelope_kind_from_byte b =
    (if b = 0x01 then Some RatchetEnvelope else if b = 0x02 then Some DecryptionErrorEnvelope else None)"

record envelope_pair =
  ep_send :: direction_keys
  ep_recv :: direction_keys

definition envelope_pair_derive :: "primitives \<Rightarrow> bytes \<Rightarrow> bytes \<Rightarrow> bytes \<Rightarrow> envelope_pair option" where
  "envelope_pair_derive P sk local peer =
    Option.bind (direction_keys_derive P sk local peer) (\<lambda>s.
    map_option (\<lambda>r. \<lparr> ep_send = s, ep_recv = r \<rparr>) (direction_keys_derive P sk peer local))"

subsection \<open>The book\<close>

definition QUEUE_TTL_SECS :: u64 where "QUEUE_TTL_SECS = 7 * 24 * 3600"
definition RETIRED_RETENTION_SECS :: u64 where "RETIRED_RETENTION_SECS = QUEUE_TTL_SECS"

record filed_first_flight_key =
  ff_ciphertext_hash :: bytes
  ff_key :: bytes
  ff_handshake_at :: u64

record book_entry =
  be_device :: bytes
  be_session_id :: bytes
  be_keys :: envelope_pair
  be_retired_at :: "u64 option"
  be_first_flight :: "filed_first_flight_key option"

record opened_envelope =
  oe_device :: bytes
  oe_session_id :: bytes
  oe_kind :: envelope_kind
  oe_body :: bytes
  oe_retired :: bool

type_synonym envelope_book = "book_entry list"

definition book_register :: "bytes \<Rightarrow> bytes \<Rightarrow> envelope_pair \<Rightarrow> envelope_book \<Rightarrow> envelope_book" where
  "book_register device sid keys entries =
    (if list_ex (\<lambda>e. be_session_id e = sid) entries then entries
     else \<lparr> be_device = device, be_session_id = sid, be_keys = keys, be_retired_at = None,
       be_first_flight = None \<rparr> # entries)"

text \<open>The first entry of a session, changed in place.\<close>

fun update_session :: "bytes \<Rightarrow> (book_entry \<Rightarrow> book_entry) \<Rightarrow> envelope_book \<Rightarrow> envelope_book" where
  "update_session sid f [] = []"
| "update_session sid f (e # es) =
    (if be_session_id e = sid then f e # es else e # update_session sid f es)"

definition set_first_flight :: "bytes \<Rightarrow> bytes \<Rightarrow> bytes \<Rightarrow> u64 \<Rightarrow> envelope_book \<Rightarrow> envelope_book" where
  "set_first_flight sid ciphertext_hash key handshake_at entries =
    update_session sid (\<lambda>e. e\<lparr> be_first_flight := Some \<lparr> ff_ciphertext_hash = ciphertext_hash,
      ff_key = key, ff_handshake_at = handshake_at \<rparr> \<rparr>) entries"

definition clear_first_flight :: "bytes \<Rightarrow> envelope_book \<Rightarrow> envelope_book" where
  "clear_first_flight sid entries = update_session sid (\<lambda>e. e\<lparr> be_first_flight := None \<rparr>) entries"

definition first_flight_of_session :: "bytes \<Rightarrow> envelope_book \<Rightarrow> filed_first_flight_key option" where
  "first_flight_of_session sid entries =
    Option.bind (List.find (\<lambda>e. be_session_id e = sid) entries) be_first_flight"

fun first_flight_by_handshake :: "bytes \<Rightarrow> envelope_book \<Rightarrow> bytes option" where
  "first_flight_by_handshake ciphertext_hash [] = None"
| "first_flight_by_handshake ciphertext_hash (e # es) = (case be_first_flight e of
     Some f \<Rightarrow> if ff_ciphertext_hash f = ciphertext_hash then Some (ff_key f) else first_flight_by_handshake ciphertext_hash es
   | None \<Rightarrow> first_flight_by_handshake ciphertext_hash es)"

definition book_has_session :: "bytes \<Rightarrow> envelope_book \<Rightarrow> bool" where
  "book_has_session sid entries = list_ex (\<lambda>e. be_session_id e = sid) entries"

definition retire_entry :: "u64 \<Rightarrow> book_entry \<Rightarrow> book_entry" where
  "retire_entry now_s e = e\<lparr> be_retired_at := (case be_retired_at e of None \<Rightarrow> Some now_s | Some t \<Rightarrow> Some t) \<rparr>"

definition retire_session :: "bytes \<Rightarrow> u64 \<Rightarrow> envelope_book \<Rightarrow> envelope_book" where
  "retire_session sid now_s entries =
    map (\<lambda>e. if be_session_id e = sid then retire_entry now_s e else e) entries"

definition retire_device :: "bytes \<Rightarrow> u64 \<Rightarrow> envelope_book \<Rightarrow> envelope_book" where
  "retire_device device now_s entries = map (\<lambda>e. if be_device e = device then retire_entry now_s e else e) entries"

definition retire_device_except :: "bytes \<Rightarrow> bytes list \<Rightarrow> u64 \<Rightarrow> envelope_book \<Rightarrow> envelope_book" where
  "retire_device_except device held now_s entries =
    map (\<lambda>e. if be_device e = device \<and> be_session_id e \<notin> set held then retire_entry now_s e else e) entries"

definition book_prune :: "u64 \<Rightarrow> envelope_book \<Rightarrow> envelope_book" where
  "book_prune now_s entries = filter (\<lambda>e. case be_retired_at e of
     None \<Rightarrow> True | Some at \<Rightarrow> sat_sub now_s at < RETIRED_RETENTION_SECS) entries"

definition book_seal ::
    "primitives \<Rightarrow> draws \<Rightarrow> bytes \<Rightarrow> envelope_kind \<Rightarrow> bytes \<Rightarrow> envelope_book \<Rightarrow> crypto_error + bytes" where
  "book_seal P E sid kind payload entries =
    res_bind (ok_or InvalidInputError (List.find (\<lambda>e. be_session_id e = sid) entries)) (\<lambda>entry.
      envelope_seal P E (ep_send (be_keys entry)) (envelope_kind_byte kind # payload))"

definition book_seal_reply :: "primitives \<Rightarrow> draws \<Rightarrow> bytes \<Rightarrow> bytes \<Rightarrow> envelope_book \<Rightarrow> crypto_error + bytes" where
  "book_seal_reply P E sid payload entries = book_seal P E sid DecryptionErrorEnvelope payload entries"

definition book_open :: "primitives \<Rightarrow> bytes \<Rightarrow> envelope_book \<Rightarrow> opened_envelope option" where
  "book_open P envelope entries =
    Option.bind (List.find (\<lambda>e. envelope_matches P (ep_recv (be_keys e)) envelope) entries) (\<lambda>entry.
    case envelope_open P (ep_recv (be_keys entry)) envelope of
      Inl _ \<Rightarrow> None
    | Inr [] \<Rightarrow> None
    | Inr (kind # rest) \<Rightarrow> map_option (\<lambda>k. \<lparr> oe_device = be_device entry, oe_session_id = be_session_id entry,
        oe_kind = k, oe_body = rest, oe_retired = (be_retired_at entry \<noteq> None) \<rparr>) (envelope_kind_from_byte kind))"

record cfe_envelope_entry =
  cee_device_id :: bytes
  cee_session_id :: bytes
  cee_keys :: bytes
  cee_retired_at :: "u64 option"
  cee_first_flight :: "bytes option"

definition book_to_cfe :: "envelope_book \<Rightarrow> cfe_envelope_entry list" where
  "book_to_cfe entries = map (\<lambda>e.
    \<lparr> cee_device_id = be_device e, cee_session_id = be_session_id e,
      cee_keys = direction_keys_to_bytes (ep_send (be_keys e)) @ direction_keys_to_bytes (ep_recv (be_keys e)),
      cee_retired_at = be_retired_at e,
      cee_first_flight = map_option (\<lambda>f. ff_ciphertext_hash f @ ff_key f @ u64_to_be (ff_handshake_at f)) (be_first_flight e) \<rparr>)
    entries"

definition book_entry_from_cfe :: "cfe_envelope_entry \<Rightarrow> book_entry option" where
  "book_entry_from_cfe e =
    (let k = cee_keys e in
     if length k \<noteq> 128 then None
     else case (direction_keys_from_bytes (take 64 k), direction_keys_from_bytes (drop 64 k)) of
       (Inr send, Inr recv) \<Rightarrow>
         Some \<lparr> be_device = cee_device_id e, be_session_id = cee_session_id e,
           be_keys = \<lparr> ep_send = send, ep_recv = recv \<rparr>, be_retired_at = cee_retired_at e,
           be_first_flight = Option.bind (cee_first_flight e) (\<lambda>f.
             if length f \<noteq> 72 then None
             else Some \<lparr> ff_ciphertext_hash = take 32 f, ff_key = subslice 32 64 f,
               ff_handshake_at = u64_from_be (drop 64 f) \<rparr>) \<rparr>
     | _ \<Rightarrow> None)"

definition book_from_cfe :: "cfe_envelope_entry list \<Rightarrow> envelope_book" where
  "book_from_cfe entries = List.map_filter book_entry_from_cfe entries"

subsection \<open>An envelope opens with the keys it was sealed with\<close>

lemma direction_keys_derive_total:
  assumes "hkdf_total P"
  obtains k where "direction_keys_derive P sk s r = Some k" "length (dk_env k) = 32" "length (dk_tag k) = 32"
proof -
  obtain okm where "hkdf_sha256 P [] sk (ascii ''construct-envelope-v1'' @ [0x00] @ s @ [0x00] @ r) 64 = Some okm"
    "length okm = 64" by (rule hkdf_sha256_total [OF assms, where len = 64]) auto
  then show thesis by (intro that [of "direction_keys_of okm"]) (simp_all add: direction_keys_derive_def direction_keys_of_def)
qed

lemma envelope_opens:
  assumes "aead_correct P" "aead_tagged P" "hashes_sized P" "length (dk_env k) = 32" "length n = 12"
    and "seal_with_nonce P k body n = Inr env"
  shows "envelope_matches P k env" "envelope_open P k env = Inr body"
proof -
  obtain ct where ct: "chacha_seal P (dk_env k) n body (envelope_tag P k n) = Some ct" "env = n @ envelope_tag P k n @ ct"
    using assms(6) by (auto simp: seal_with_nonce_def Let_def result_iffs)
  have t: "length (envelope_tag P k n) = 16"
    using assms(3) by (simp add: envelope_tag_def hashes_sized_def envelope_sizes)
  have "length body + 16 \<le> length ct" using assms(2,4) ct(1) unfolding aead_tagged_def by blast
  then show m: "envelope_matches P k env" by (simp add: envelope_matches_def ct(2) t assms(5) envelope_sizes)
  have "chacha_open P (dk_env k) n ct (envelope_tag P k n) = Some body"
    using assms(1) ct(1) unfolding aead_correct_def by blast
  then show "envelope_open P k env = Inr body"
    using m by (simp add: envelope_open_def ct(2) t assms(5) envelope_sizes subslice_def)
qed

lemma kind_byte_roundtrip [simp]: "envelope_kind_from_byte (envelope_kind_byte k) = Some k"
  by (cases k) (simp_all add: envelope_kind_from_byte_def envelope_kind_byte_def)

lemma find_skip: "\<forall>x \<in> set xs. \<not> p x \<Longrightarrow> p e \<Longrightarrow> List.find p (xs @ e # ys) = Some e"
  by (induction xs) auto

lemma book_opens:
  assumes "aead_correct P" "aead_tagged P" "hashes_sized P" "length (dk_env (ep_recv (be_keys e))) = 32" "length n = 12"
    and "seal_with_nonce P (ep_recv (be_keys e)) (envelope_kind_byte kind # payload) n = Inr env"
    and "\<forall>x \<in> set xs. \<not> envelope_matches P (ep_recv (be_keys x)) env"
  shows "book_open P env (xs @ e # ys) = Some \<lparr> oe_device = be_device e, oe_session_id = be_session_id e, oe_kind = kind,
    oe_body = payload, oe_retired = (be_retired_at e \<noteq> None) \<rparr>"
  using envelope_opens [OF assms(1-6)] find_skip [OF assms(7)] by (simp add: book_open_def)

subsection \<open>A pair outlives its ratchet\<close>

definition keys_sized :: "direction_keys \<Rightarrow> bool" where
  "keys_sized k \<longleftrightarrow> length (dk_env k) = 32 \<and> length (dk_tag k) = 32"

definition pair_sized :: "envelope_pair \<Rightarrow> bool" where
  "pair_sized p \<longleftrightarrow> keys_sized (ep_send p) \<and> keys_sized (ep_recv p)"

definition flight_sized :: "filed_first_flight_key \<Rightarrow> bool" where
  "flight_sized f \<longleftrightarrow> length (ff_ciphertext_hash f) = 32 \<and> length (ff_key f) = 32"

definition entry_sized :: "book_entry \<Rightarrow> bool" where
  "entry_sized e \<longleftrightarrow> pair_sized (be_keys e) \<and> (\<forall>f. be_first_flight e = Some f \<longrightarrow> flight_sized f)"

definition book_ok :: "envelope_book \<Rightarrow> bool" where
  "book_ok b \<longleftrightarrow> distinct (map be_session_id b) \<and> (\<forall>e \<in> set b. entry_sized e)"

datatype book_op =
    RegisterPair bytes bytes envelope_pair | SetFirstFlight bytes bytes bytes u64 | ClearFirstFlight bytes
  | RetireSession bytes u64 | RetireDevice bytes u64 | RetireExcept bytes "bytes list" u64 | PruneBook u64 | ReloadBook

fun book_step :: "book_op \<Rightarrow> envelope_book \<Rightarrow> envelope_book" where
  "book_step (RegisterPair d s p) b = book_register d s p b"
| "book_step (SetFirstFlight s h k t) b = set_first_flight s h k t b"
| "book_step (ClearFirstFlight s) b = clear_first_flight s b"
| "book_step (RetireSession s t) b = retire_session s t b"
| "book_step (RetireDevice d t) b = retire_device d t b"
| "book_step (RetireExcept d held t) b = retire_device_except d held t b"
| "book_step (PruneBook t) b = book_prune t b"
| "book_step ReloadBook b = book_from_cfe (book_to_cfe b)"

text \<open>Keys have their sizes, and the clock is within the retention from \<open>t\<close>.\<close>

fun book_op_ok :: "u64 \<Rightarrow> book_op \<Rightarrow> bool" where
  "book_op_ok t (RegisterPair d s p) = pair_sized p"
| "book_op_ok t (SetFirstFlight s h k n) = (length h = 32 \<and> length k = 32)"
| "book_op_ok t (RetireSession s n) = (t \<le> n)"
| "book_op_ok t (RetireDevice d n) = (t \<le> n)"
| "book_op_ok t (RetireExcept d held n) = (t \<le> n)"
| "book_op_ok t (PruneBook n) = (sat_sub n t < RETIRED_RETENTION_SECS)"
| "book_op_ok t _ = True"

definition pair_kept :: "u64 \<Rightarrow> bytes \<Rightarrow> bytes \<Rightarrow> envelope_pair \<Rightarrow> envelope_book \<Rightarrow> bool" where
  "pair_kept t d s p b \<longleftrightarrow> (\<exists>e \<in> set b. be_device e = d \<and> be_session_id e = s \<and> be_keys e = p \<and>
    (\<forall>r. be_retired_at e = Some r \<longrightarrow> t \<le> r))"

lemma direction_keys_roundtrip:
  "keys_sized k \<Longrightarrow> direction_keys_from_bytes (direction_keys_to_bytes k) = Inr k"
  by (simp add: keys_sized_def direction_keys_from_bytes_def direction_keys_to_bytes_def direction_keys_of_def)

lemma flight_roundtrip:
  assumes "flight_sized f"
  shows "length (ff_ciphertext_hash f @ ff_key f @ u64_to_be (ff_handshake_at f)) = 72"
    "\<lparr> ff_ciphertext_hash = take 32 (ff_ciphertext_hash f @ ff_key f @ u64_to_be (ff_handshake_at f)),
       ff_key = subslice 32 64 (ff_ciphertext_hash f @ ff_key f @ u64_to_be (ff_handshake_at f)),
       ff_handshake_at = u64_from_be (drop 64 (ff_ciphertext_hash f @ ff_key f @ u64_to_be (ff_handshake_at f))) \<rparr> = f"
  using assms by (simp_all add: flight_sized_def subslice_def)

lemma entry_roundtrip:
  assumes "entry_sized e"
  shows "book_entry_from_cfe
    \<lparr> cee_device_id = be_device e, cee_session_id = be_session_id e,
      cee_keys = direction_keys_to_bytes (ep_send (be_keys e)) @ direction_keys_to_bytes (ep_recv (be_keys e)),
      cee_retired_at = be_retired_at e,
      cee_first_flight = map_option (\<lambda>f. ff_ciphertext_hash f @ ff_key f @ u64_to_be (ff_handshake_at f)) (be_first_flight e) \<rparr>
    = Some e"
proof -
  have s: "keys_sized (ep_send (be_keys e))" "keys_sized (ep_recv (be_keys e))"
    using assms by (simp_all add: entry_sized_def pair_sized_def)
  have l: "length (direction_keys_to_bytes (ep_send (be_keys e))) = 64"
    "length (direction_keys_to_bytes (ep_recv (be_keys e))) = 64"
    using s by (simp_all add: direction_keys_to_bytes_def keys_sized_def)
  show ?thesis
  proof (cases "be_first_flight e")
    case None
    then show ?thesis using s l by (simp add: book_entry_from_cfe_def Let_def direction_keys_roundtrip)
  next
    case (Some f)
    then have "flight_sized f" using assms by (simp add: entry_sized_def)
    note f = flight_roundtrip [OF this]
    show ?thesis
      using Some s l f(1)
      by (simp only: book_entry_from_cfe_def Let_def cfe_envelope_entry.simps option.map bind.bind_lunit f(2) simp_thms
          if_False if_True length_append)
        (simp add: direction_keys_roundtrip)
  qed
qed

lemma book_roundtrip:
  assumes "\<forall>e \<in> set b. entry_sized e"
  shows "book_from_cfe (book_to_cfe b) = b"
  using assms by (induction b) (simp_all add: book_from_cfe_def book_to_cfe_def map_filter_simps entry_roundtrip)

lemma update_session_ids: "(\<And>e. be_session_id (f e) = be_session_id e) \<Longrightarrow> map be_session_id (update_session s f b) = map be_session_id b"
  by (induction b) auto

lemma update_session_set: "x \<in> set (update_session s f b) \<Longrightarrow> x \<in> set b \<or> (\<exists>e \<in> set b. x = f e)"
  by (induction b) (auto split: if_splits)

lemma update_session_mem: "e \<in> set b \<Longrightarrow> e \<in> set (update_session s f b) \<or> f e \<in> set (update_session s f b)"
  by (induction b) auto

lemma retire_entry_simps [simp]:
  "be_session_id (retire_entry n e) = be_session_id e" "be_device (retire_entry n e) = be_device e"
  "be_keys (retire_entry n e) = be_keys e" "be_first_flight (retire_entry n e) = be_first_flight e"
  "entry_sized (retire_entry n e) = entry_sized e"
  by (simp_all add: retire_entry_def entry_sized_def)

lemma retire_entry_at: "be_retired_at (retire_entry n e) = Some (case be_retired_at e of None \<Rightarrow> n | Some t \<Rightarrow> t)"
  by (simp add: retire_entry_def split: option.split)

lemma book_step_ok:
  assumes "book_ok b" "book_op_ok t op"
  shows "book_ok (book_step op b)"
proof (cases op)
  case (RegisterPair d s p)
  then show ?thesis
    using assms by (auto simp: book_register_def book_ok_def list_ex_iff entry_sized_def)
next
  case (SetFirstFlight s h k n)
  have "entry_sized x" if "x \<in> set (book_step op b)" for x
    using update_session_set [of x s _ b] that assms SetFirstFlight
    by (fastforce simp: set_first_flight_def book_ok_def entry_sized_def flight_sized_def)
  then show ?thesis using assms SetFirstFlight by (simp add: book_ok_def set_first_flight_def update_session_ids)
next
  case (ClearFirstFlight s)
  have "entry_sized x" if "x \<in> set (book_step op b)" for x
    using update_session_set [of x s _ b] that assms ClearFirstFlight
    by (fastforce simp: clear_first_flight_def book_ok_def entry_sized_def)
  then show ?thesis using assms ClearFirstFlight by (simp add: book_ok_def clear_first_flight_def update_session_ids)
next
  case (PruneBook n)
  then show ?thesis using assms by (simp add: book_prune_def book_ok_def distinct_map_filter)
next
  case ReloadBook
  then show ?thesis using assms by (simp add: book_ok_def book_roundtrip)
qed (use assms in \<open>auto simp: book_ok_def retire_session_def retire_device_def retire_device_except_def o_def if_distrib
  cong: if_cong\<close>)

lemma pair_kept_map:
  assumes "pair_kept t d s p b" "\<And>e. be_session_id (f e) = be_session_id e" "\<And>e. be_device (f e) = be_device e"
    and "\<And>e. be_keys (f e) = be_keys e"
    and "\<And>e r. be_retired_at (f e) = Some r \<Longrightarrow> be_retired_at e = Some r \<or> t \<le> r"
  shows "pair_kept t d s p (map f b)"
  using assms unfolding pair_kept_def by (metis (no_types, lifting) image_eqI list.set_map)

lemma retention_mono:
  assumes "sat_sub n t < RETIRED_RETENTION_SECS" "t \<le> r"
  shows "sat_sub n r < RETIRED_RETENTION_SECS"
  using assms by (simp add: word_less_nat_alt word_le_nat_alt unat_sat_sub)

lemma pair_kept_step:
  assumes "pair_kept t d s p b" "book_ok b" "book_op_ok t op"
  shows "pair_kept t d s p (book_step op b)"
proof (cases op)
  case (SetFirstFlight s' h k n)
  obtain e where e: "e \<in> set b" "be_device e = d" "be_session_id e = s" "be_keys e = p"
    "\<forall>r. be_retired_at e = Some r \<longrightarrow> t \<le> r" using assms(1) by (auto simp: pair_kept_def)
  show ?thesis
    using update_session_mem [OF e(1), of s' "\<lambda>e. e\<lparr> be_first_flight := Some \<lparr> ff_ciphertext_hash = h, ff_key = k,
        ff_handshake_at = n \<rparr> \<rparr>"] e SetFirstFlight
    by (auto simp: pair_kept_def set_first_flight_def intro: bexI [rotated])
next
  case (ClearFirstFlight s')
  obtain e where e: "e \<in> set b" "be_device e = d" "be_session_id e = s" "be_keys e = p"
    "\<forall>r. be_retired_at e = Some r \<longrightarrow> t \<le> r" using assms(1) by (auto simp: pair_kept_def)
  show ?thesis
    using update_session_mem [OF e(1), of s' "\<lambda>e. e\<lparr> be_first_flight := None \<rparr>"] e ClearFirstFlight
    by (auto simp: pair_kept_def clear_first_flight_def intro: bexI [rotated])
next
  case (PruneBook n)
  then show ?thesis
    using assms(1,3) retention_mono by (fastforce simp: pair_kept_def book_prune_def split: option.splits)
next
  case ReloadBook
  then show ?thesis using assms by (simp add: book_ok_def book_roundtrip)
next
  case (RegisterPair d' s' p')
  then show ?thesis using assms(1) by (auto simp: pair_kept_def book_register_def)
next
  case (RetireSession s' n)
  then show ?thesis
    using assms unfolding RetireSession book_step.simps retire_session_def
    by (intro pair_kept_map) (auto simp: retire_entry_at split: if_splits option.splits)
next
  case (RetireDevice d' n)
  then show ?thesis
    using assms unfolding RetireDevice book_step.simps retire_device_def
    by (intro pair_kept_map) (auto simp: retire_entry_at split: if_splits option.splits)
next
  case (RetireExcept d' held n)
  then show ?thesis
    using assms unfolding RetireExcept book_step.simps retire_device_except_def
    by (intro pair_kept_map) (auto simp: retire_entry_at split: if_splits option.splits)
qed

lemma pair_kept_run:
  "pair_kept t d s p b \<Longrightarrow> book_ok b \<Longrightarrow> list_all (book_op_ok t) ops \<Longrightarrow>
    pair_kept t d s p (fold book_step ops b) \<and> book_ok (fold book_step ops b)"
proof (induction ops arbitrary: b)
  case (Cons op ops)
  have "pair_kept t d s p (book_step op b)" "book_ok (book_step op b)"
    using pair_kept_step book_step_ok Cons.prems by auto
  then show ?case using Cons by simp
qed simp

subsection \<open>Who wrote it\<close>

lemma envelope_pairs_meet:
  assumes "envelope_pair_derive P sk a b = Some pa" "envelope_pair_derive P sk b a = Some pb" "hkdf_total P"
  shows "ep_recv pb = ep_send pa" "pair_sized pb"
proof -
  obtain k1 where k1: "direction_keys_derive P sk a b = Some k1" "length (dk_env k1) = 32" "length (dk_tag k1) = 32"
    by (rule direction_keys_derive_total [OF assms(3)])
  obtain k2 where k2: "direction_keys_derive P sk b a = Some k2" "length (dk_env k2) = 32" "length (dk_tag k2) = 32"
    by (rule direction_keys_derive_total [OF assms(3)])
  show "ep_recv pb = ep_send pa" "pair_sized pb"
    using assms(1,2) k1 k2 by (auto simp: envelope_pair_derive_def pair_sized_def keys_sized_def)
qed

lemma book_ok_split:
  assumes "book_ok b" "e \<in> set b"
  obtains xs ys where "b = xs @ e # ys" "\<forall>x \<in> set xs. be_session_id x \<noteq> be_session_id e"
proof -
  obtain xs ys where "b = xs @ e # ys" using assms(2) by (meson split_list)
  then show thesis using assms(1) by (intro that [of xs ys]) (auto simp: book_ok_def rev_image_eqI)
qed

text \<open>
  C24.  The book names the writer, even of a state that is gone.  Both devices file the pair of one session root,
  each from its side.  Whatever the reader's book goes through afterwards, other sessions, first flights, restarts,
  and the retirement of this very pair, while its clock is within seven days of \<open>t\<close> and the pair was not retired
  before \<open>t\<close>: an envelope the writer seals on the session is opened by the reader's book to the same kind and
  payload, and names the writer's device and the session, unless its sixteen-byte tag also matches another pair.
\<close>

theorem envelope_names_writer:
  assumes "aead_correct P" "aead_tagged P" "hashes_sized P" "hkdf_total P"
    and "envelope_pair_derive P sk a b = Some pa" "envelope_pair_derive P sk b a = Some pb"
    and "List.find (\<lambda>e. be_session_id e = s) writer = Some ew" "be_keys ew = pa"
    and "book_seal P E s kind payload writer = Inr env" "length (drawn_nonce E 12) = 12"
    and "book_ok book" "\<not> book_has_session s book" "list_all (book_op_ok t) ops"
    and "reader = fold book_step ops (book_register a s pb book)"
    and "\<forall>e \<in> set reader. be_session_id e = s \<or> \<not> envelope_matches P (ep_recv (be_keys e)) env"
  shows "\<exists>r. book_open P env reader = Some \<lparr> oe_device = a, oe_session_id = s, oe_kind = kind, oe_body = payload,
    oe_retired = r \<rparr>"
proof -
  note m = envelope_pairs_meet [OF assms(5,6,4)]
  have "pair_kept t a s pb (book_register a s pb book)" "book_ok (book_register a s pb book)"
    using assms(11,12) m(2)
    by (auto simp: pair_kept_def book_register_def book_has_session_def book_ok_def entry_sized_def list_ex_iff)
  then have k: "pair_kept t a s pb reader" "book_ok reader" using pair_kept_run assms(13) unfolding assms(14) by blast+
  then obtain e where e: "e \<in> set reader" "be_device e = a" "be_session_id e = s" "be_keys e = pb"
    by (auto simp: pair_kept_def)
  obtain xs ys where b: "reader = xs @ e # ys" "\<forall>x \<in> set xs. be_session_id x \<noteq> be_session_id e"
    by (rule book_ok_split [OF k(2) e(1)])
  have seal: "seal_with_nonce P (ep_recv (be_keys e)) (envelope_kind_byte kind # payload) (drawn_nonce E 12) = Inr env"
    using assms(7-9) m(1) e(4) by (simp add: book_seal_def envelope_seal_def ENVELOPE_NONCE_LEN_def)
  have l: "length (dk_env (ep_recv (be_keys e))) = 32" using m(2) e(4) by (simp add: pair_sized_def keys_sized_def)
  have "\<forall>x \<in> set xs. \<not> envelope_matches P (ep_recv (be_keys x)) env" using assms(15) b e(3) by auto
  from book_opens [OF assms(1-3) l assms(10) seal this, of ys] show ?thesis using b(1) e by simp
qed

lemma sample_pair: "envelope_pair_derive sample_primitives [1] [2] [3] \<noteq> None" "envelope_pair_derive sample_primitives [1] [3] [2] \<noteq> None"
  by (simp_all add: envelope_pair_derive_def direction_keys_derive_def sample_primitives_def)

theorem envelope_names_writer_witness:
  "\<exists>pa pb env r. envelope_pair_derive sample_primitives [1] [2] [3] = Some pa \<and>
    envelope_pair_derive sample_primitives [1] [3] [2] = Some pb \<and>
    book_seal sample_primitives sample_draws [7] RatchetEnvelope [8, 9] (book_register [3] [7] pa []) = Inr env \<and>
    book_open sample_primitives env (fold book_step [RetireDevice [2] 1000, PruneBook 605799, ReloadBook]
      (book_register [2] [7] pb [])) = Some \<lparr> oe_device = [2], oe_session_id = [7], oe_kind = RatchetEnvelope,
        oe_body = [8, 9], oe_retired = r \<rparr>"
proof -
  let ?P = sample_primitives
  obtain pa pb where p: "envelope_pair_derive ?P [1] [2] [3] = Some pa" "envelope_pair_derive ?P [1] [3] [2] = Some pb"
    using sample_pair by auto
  let ?ops = "[RetireDevice [2] 1000, PruneBook 605799, ReloadBook]"
  let ?w = "book_register [3] [7] pa []"
  obtain ew where w: "List.find (\<lambda>e. be_session_id e = [7]) ?w = Some ew" "be_keys ew = pa"
    by (simp add: book_register_def)
  obtain env where env: "book_seal ?P sample_draws [7] RatchetEnvelope [8, 9] ?w = Inr env"
    using w by (simp add: book_seal_def envelope_seal_def seal_with_nonce_def ok_or_def sample_primitives_def Let_def)
  have ops: "list_all (book_op_ok 1000) ?ops" by (simp add: sat_sub_def RETIRED_RETENTION_SECS_def QUEUE_TTL_SECS_def)
  have ps: "pair_sized pb" by (rule envelope_pairs_meet(2) [OF p sample_hkdf_total])
  let ?r = "fold book_step ?ops (book_register [2] [7] pb [])"
  have "\<forall>e \<in> set ?r. be_session_id e = [7]"
    using ps by (simp add: book_register_def retire_device_def book_prune_def retire_entry_at book_roundtrip entry_sized_def)
  then have "\<forall>e \<in> set ?r. be_session_id e = [7] \<or> \<not> envelope_matches ?P (ep_recv (be_keys e)) env" by blast
  then have "\<exists>r. book_open ?P env ?r = Some \<lparr> oe_device = [2], oe_session_id = [7], oe_kind = RatchetEnvelope,
        oe_body = [8, 9], oe_retired = r \<rparr>"
    by (intro envelope_names_writer [OF sample_aead_correct sample_aead_tagged sample_hashes_sized sample_hkdf_total p w env
      _ _ _ ops refl]) (simp_all add: sample_draws_def book_ok_def book_has_session_def)
  then show ?thesis using p env by blast
qed

end
