(* ===== verification/Sealed_Box.thy ===== *)
theory Sealed_Box
  imports Pq_Prekey_Plan
begin

text \<open>
  The anonymous sealed box (\<open>seal_in_domain\<close> and \<open>open_in_domain\<close> of
  \<open>src/crypto/sealed_sender/mod.rs\<close>) and the DECRYPTION_ERROR that travels in one
  (\<open>src/orchestration/decryption_error.rs\<close>).
\<close>

subsection \<open>The sealed box\<close>

definition as_key32 :: "bytes \<Rightarrow> crypto_error + bytes" where
  "as_key32 b = (if length b = 32 then Inr b else Inl InvalidInputError)"

definition SEALED_SALT :: bytes where "SEALED_SALT = ascii ''ConstructSEALED-v1''"

text \<open>
  No value is the panic of an \<open>expect\<close> on the length of the HKDF output; it stands one level outside the
  error a box operation may return.
\<close>

definition box_derive_key :: "primitives \<Rightarrow> bytes \<Rightarrow> bytes \<Rightarrow> bytes option" where
  "box_derive_key P shared salt = hkdf_sha256 P salt shared [] 32"

definition seal_in_domain ::
    "primitives \<Rightarrow> draws \<Rightarrow> bytes \<Rightarrow> bytes \<Rightarrow> bytes \<Rightarrow> (crypto_error + bytes) option" where
  "seal_in_domain P E plaintext recipient_public salt =
    (case as_key32 recipient_public of
       Inl e \<Rightarrow> Some (Inl e)
     | Inr recipient_pub \<Rightarrow>
         (let ephemeral = drawn_x25519 E;
              shared = x25519 P ephemeral recipient_pub;
              nonce = drawn_nonce E 12
          in case box_derive_key P shared salt of
               None \<Rightarrow> None
             | Some key \<Rightarrow> Some (res_bind (ok_or AeadEncryptionError (chacha_seal P key nonce plaintext [])) (\<lambda>ct_and_tag.
                 Inr (x25519_base P ephemeral @ nonce @ ct_and_tag)))))"

definition open_in_domain ::
    "primitives \<Rightarrow> bytes \<Rightarrow> bytes \<Rightarrow> bytes \<Rightarrow> (crypto_error + bytes) option" where
  "open_in_domain P sealed_box our_secret salt =
    (if length sealed_box < 32 + 12 + 16 then Some (Inl InvalidInputError)
     else (case as_key32 (take 32 sealed_box) of
       Inl e \<Rightarrow> Some (Inl e)
     | Inr ephemeral_pub \<Rightarrow>
         (let nonce = subslice 32 (32 + 12) sealed_box;
              ct_and_tag = drop (32 + 12) sealed_box
          in case as_key32 our_secret of
               Inl e \<Rightarrow> Some (Inl e)
             | Inr our_priv \<Rightarrow>
                 (case box_derive_key P (x25519 P our_priv ephemeral_pub) salt of
                    None \<Rightarrow> None
                  | Some key \<Rightarrow> Some (ok_or AeadDecryptionError (chacha_open P key nonce ct_and_tag []))))))"

definition seal_to_x25519_public :: "primitives \<Rightarrow> draws \<Rightarrow> bytes \<Rightarrow> bytes \<Rightarrow> (crypto_error + bytes) option" where
  "seal_to_x25519_public P E plaintext recipient_public = seal_in_domain P E plaintext recipient_public SEALED_SALT"

definition open_with_x25519_secret :: "primitives \<Rightarrow> bytes \<Rightarrow> bytes \<Rightarrow> (crypto_error + bytes) option" where
  "open_with_x25519_secret P sealed_box our_secret = open_in_domain P sealed_box our_secret SEALED_SALT"

lemma hkdf32_length:
  assumes "hkdf_total P" "hkdf_sha256 P salt ikm info 32 = Some key"
  shows "length key = 32"
proof (rule hkdf_sha256_total [OF assms(1), where len = 32 and salt = salt and ikm = ikm and info = info])
  fix okm
  assume "hkdf_sha256 P salt ikm info 32 = Some okm" "length okm = 32"
  then show "length key = 32" using assms(2) by simp
qed simp

lemma seal_in_domain_okE:
  assumes "seal_in_domain P E m pub salt = Some (Inr b)"
  obtains key ct where "length pub = 32" "box_derive_key P (x25519 P (drawn_x25519 E) pub) salt = Some key"
    "chacha_seal P key (drawn_nonce E 12) m [] = Some ct" "b = x25519_base P (drawn_x25519 E) @ drawn_nonce E 12 @ ct"
  using assms by (auto simp: seal_in_domain_def as_key32_def Let_def result_iffs split: if_splits option.splits)

lemma open_seal_in_domain:
  assumes laws: "aead_correct P" "aead_tagged P" "hkdf_total P" "dh_commutes P"
    and sizes: "length sk = 32" "length (drawn_x25519 E) = 32" "length (drawn_nonce E 12) = 12"
    and seal: "seal_in_domain P E m (x25519_base P sk) salt = Some (Inr b)"
  shows "open_in_domain P b sk salt = Some (Inr m)"
proof -
  obtain key ct where key: "box_derive_key P (x25519 P (drawn_x25519 E) (x25519_base P sk)) salt = Some key"
    and ct: "chacha_seal P key (drawn_nonce E 12) m [] = Some ct"
    and b: "b = x25519_base P (drawn_x25519 E) @ drawn_nonce E 12 @ ct"
    by (rule seal_in_domain_okE [OF seal])
  have e: "length (x25519_base P a) = 32" for a using laws(4) unfolding dh_commutes_def by blast
  have "length key = 32" using hkdf32_length [OF laws(3)] key unfolding box_derive_key_def by blast
  then have tag: "16 \<le> length ct" using laws(2) ct unfolding aead_tagged_def by (meson le_trans le_add2)
  have sh: "x25519 P sk (x25519_base P (drawn_x25519 E)) = x25519 P (drawn_x25519 E) (x25519_base P sk)"
    using laws(4) sizes unfolding dh_commutes_def by blast
  have op: "chacha_open P key (drawn_nonce E 12) ct [] = Some m" using laws(1) ct unfolding aead_correct_def by blast
  show ?thesis
    using sizes e tag op key sh by (simp add: open_in_domain_def b as_key32_def subslice_def)
qed

subsection \<open>UTF-8\<close>

text \<open>What \<open>String::from_utf8\<close> accepts: no overlong form, no surrogate, nothing above U+10FFFF.\<close>

definition utf8_cont :: "u8 \<Rightarrow> bool" where "utf8_cont b \<longleftrightarrow> 0x80 \<le> b \<and> b \<le> 0xBF"

fun utf8_valid :: "bytes \<Rightarrow> bool" where
  "utf8_valid [] = True"
| "utf8_valid (b # bs) =
    (if b < 0x80 then utf8_valid bs
     else if 0xC2 \<le> b \<and> b \<le> 0xDF then (case bs of c # r \<Rightarrow> utf8_cont c \<and> utf8_valid r | _ \<Rightarrow> False)
     else if 0xE0 \<le> b \<and> b \<le> 0xEF then
       (case bs of c # d # r \<Rightarrow> utf8_cont c \<and> (b = 0xE0 \<longrightarrow> 0xA0 \<le> c) \<and> (b = 0xED \<longrightarrow> c \<le> 0x9F) \<and>
          utf8_cont d \<and> utf8_valid r | _ \<Rightarrow> False)
     else if 0xF0 \<le> b \<and> b \<le> 0xF4 then
       (case bs of c # d # e # r \<Rightarrow> utf8_cont c \<and> (b = 0xF0 \<longrightarrow> 0x90 \<le> c) \<and> (b = 0xF4 \<longrightarrow> c \<le> 0x8F) \<and>
          utf8_cont d \<and> utf8_cont e \<and> utf8_valid r | _ \<Rightarrow> False)
     else False)"

subsection \<open>The decryption error\<close>

definition DECRYPTION_ERROR_DOMAIN :: bytes where "DECRYPTION_ERROR_DOMAIN = ascii ''ConstructDECRYPTERR-v1''"
definition DECRYPTION_ERROR_VERSION :: u8 where "DECRYPTION_ERROR_VERSION = 1"
definition RATCHET_KEY_LEN :: nat where "RATCHET_KEY_LEN = 32"
definition MAX_MESSAGE_ID_LEN :: nat where "MAX_MESSAGE_ID_LEN = 96"
definition PLAINTEXT_LEN :: nat where "PLAINTEXT_LEN = 1 + 1 + RATCHET_KEY_LEN + 1 + MAX_MESSAGE_ID_LEN"

lemmas decryption_error_sizes = RATCHET_KEY_LEN_def MAX_MESSAGE_ID_LEN_def PLAINTEXT_LEN_def

datatype decryption_error_hint = NoHint | PrekeyUnavailable

definition hint_to_byte :: "decryption_error_hint \<Rightarrow> u8" where
  "hint_to_byte h = (case h of NoHint \<Rightarrow> 0 | PrekeyUnavailable \<Rightarrow> 1)"

definition hint_from_byte :: "u8 \<Rightarrow> decryption_error_hint" where
  "hint_from_byte b = (if b = 1 then PrekeyUnavailable else NoHint)"

record decryption_error =
  de_ratchet_key :: bytes
  de_message_id :: bytes
  de_hint :: decryption_error_hint

datatype decryption_error_failure =
    RatchetKeyLength nat | MessageIdTooLong nat | PlaintextLength nat | UnknownErrorVersion u8
  | MessageIdLengthRange nat | MessageIdNotUtf8 | ErrorBoxFailed crypto_error

definition decryption_error_encode :: "decryption_error \<Rightarrow> decryption_error_failure + bytes" where
  "decryption_error_encode e =
    (if length (de_ratchet_key e) \<noteq> RATCHET_KEY_LEN then Inl (RatchetKeyLength (length (de_ratchet_key e)))
     else if MAX_MESSAGE_ID_LEN < length (de_message_id e) then Inl (MessageIdTooLong (length (de_message_id e)))
     else
       (let out = [DECRYPTION_ERROR_VERSION, hint_to_byte (de_hint e)] @ de_ratchet_key e @
          [of_nat (length (de_message_id e))] @ de_message_id e
        in Inr (take PLAINTEXT_LEN (out @ replicate (PLAINTEXT_LEN - length out) 0))))"

definition decryption_error_decode :: "bytes \<Rightarrow> decryption_error_failure + decryption_error" where
  "decryption_error_decode b =
    (if length b \<noteq> PLAINTEXT_LEN then Inl (PlaintextLength (length b))
     else if b ! 0 \<noteq> DECRYPTION_ERROR_VERSION then Inl (UnknownErrorVersion (b ! 0))
     else
       (let hint = hint_from_byte (b ! 1);
            ratchet_key = subslice 2 (2 + RATCHET_KEY_LEN) b;
            id_len = unat (b ! (2 + RATCHET_KEY_LEN))
        in if MAX_MESSAGE_ID_LEN < id_len then Inl (MessageIdLengthRange id_len)
           else
             (let start = 3 + RATCHET_KEY_LEN;
                  message_id = subslice start (start + id_len) b
              in if \<not> utf8_valid message_id then Inl MessageIdNotUtf8
                 else Inr \<lparr> de_ratchet_key = ratchet_key, de_message_id = message_id, de_hint = hint \<rparr>)))"

definition decryption_error_seal ::
    "primitives \<Rightarrow> draws \<Rightarrow> bytes \<Rightarrow> decryption_error \<Rightarrow> (decryption_error_failure + bytes) option" where
  "decryption_error_seal P E recipient_identity e =
    (case decryption_error_encode e of
       Inl f \<Rightarrow> Some (Inl f)
     | Inr plaintext \<Rightarrow>
         map_option (map_err ErrorBoxFailed) (seal_in_domain P E plaintext recipient_identity DECRYPTION_ERROR_DOMAIN))"

definition decryption_error_open ::
    "primitives \<Rightarrow> bytes \<Rightarrow> bytes \<Rightarrow> (decryption_error_failure + decryption_error) option" where
  "decryption_error_open P sealed our_identity_secret =
    map_option (\<lambda>r. res_bind (map_err ErrorBoxFailed r) decryption_error_decode)
      (open_in_domain P sealed our_identity_secret DECRYPTION_ERROR_DOMAIN)"

lemma hint_roundtrip [simp]: "hint_from_byte (hint_to_byte h) = h"
  by (cases h) (simp_all add: hint_from_byte_def hint_to_byte_def)

lemma decode_encode_error:
  assumes "decryption_error_encode e = Inr b" "utf8_valid (de_message_id e)"
  shows "decryption_error_decode b = Inr e" "length b = 131"
proof -
  have l: "length (de_ratchet_key e) = 32" "length (de_message_id e) \<le> 96"
    using assms(1) by (simp_all add: decryption_error_encode_def decryption_error_sizes split: if_splits)
  let ?n = "length (de_message_id e)"
  have b: "b = DECRYPTION_ERROR_VERSION # hint_to_byte (de_hint e) # de_ratchet_key e @
      of_nat ?n # de_message_id e @ replicate (96 - ?n) 0"
    using assms(1) l by (simp add: decryption_error_encode_def decryption_error_sizes)
  have n: "unat (of_nat ?n :: u8) = ?n" using l(2) by (simp add: unat_of_nat)
  have parts: "length b = 131" "b ! 0 = DECRYPTION_ERROR_VERSION" "b ! 1 = hint_to_byte (de_hint e)"
    "subslice 2 34 b = de_ratchet_key e" "b ! 34 = of_nat ?n" "subslice 35 (35 + ?n) b = de_message_id e"
    using l by (simp_all add: b subslice_def nth_append)
  show "length b = 131" by (rule parts(1))
  show "decryption_error_decode b = Inr e"
    using parts n l assms(2) by (simp add: decryption_error_decode_def decryption_error_sizes)
qed

text \<open>
  C26.  An error opens as it was sealed.  The error a device seals to the identity key of the writer, whose
  message id is text, is opened with the secret of that identity to the same ratchet key, message id and hint; and
  what is sealed has 131 bytes whatever the error says, so the box does not tell how long the id was.
\<close>

theorem decryption_error_opens:
  assumes "aead_correct P" "aead_tagged P" "hkdf_total P" "dh_commutes P"
    and "length sk = 32" "length (drawn_x25519 E) = 32" "length (drawn_nonce E 12) = 12"
    and "utf8_valid (de_message_id e)"
    and "decryption_error_seal P E (x25519_base P sk) e = Some (Inr b)"
  shows "decryption_error_open P b sk = Some (Inr e) \<and>
    (\<exists>plaintext. length plaintext = 131 \<and>
      seal_in_domain P E plaintext (x25519_base P sk) DECRYPTION_ERROR_DOMAIN = Some (Inr b))"
proof -
  obtain m where m: "decryption_error_encode e = Inr m"
    and s: "seal_in_domain P E m (x25519_base P sk) DECRYPTION_ERROR_DOMAIN = Some (Inr b)"
    using assms(9) by (auto simp: decryption_error_seal_def result_iffs split: sum.splits)
  have "open_in_domain P b sk DECRYPTION_ERROR_DOMAIN = Some (Inr m)"
    by (rule open_seal_in_domain [OF assms(1-7) s])
  then show ?thesis using decode_encode_error [OF m assms(8)] s by (auto simp: decryption_error_open_def)
qed

theorem decryption_error_opens_witness:
  "\<exists>b. decryption_error_seal sample_primitives sample_draws (x25519_base sample_primitives (replicate 32 8))
      \<lparr> de_ratchet_key = replicate 32 9, de_message_id = ascii ''msg-1'', de_hint = PrekeyUnavailable \<rparr> = Some (Inr b) \<and>
    decryption_error_open sample_primitives b (replicate 32 8) =
      Some (Inr \<lparr> de_ratchet_key = replicate 32 9, de_message_id = ascii ''msg-1'', de_hint = PrekeyUnavailable \<rparr>)"
proof -
  let ?P = sample_primitives
  let ?e = "\<lparr> de_ratchet_key = replicate 32 9, de_message_id = ascii ''msg-1'', de_hint = PrekeyUnavailable \<rparr>"
  obtain m where m: "decryption_error_encode ?e = Inr m" by (simp add: decryption_error_encode_def decryption_error_sizes ascii_def)
  obtain key where k: "box_derive_key ?P (x25519 ?P (drawn_x25519 sample_draws) (x25519_base ?P (replicate 32 8)))
      DECRYPTION_ERROR_DOMAIN = Some key"
    unfolding box_derive_key_def by (rule hkdf_sha256_total [OF sample_hkdf_total, where len = 32]) auto
  have c: "chacha_seal ?P key n x ad = Some (key @ n @ ad @ x)" for n x ad by (simp add: sample_primitives_def)
  have b: "length (x25519_base ?P (replicate 32 8)) = 32" by (simp add: sample_primitives_def)
  obtain b where b: "decryption_error_seal ?P sample_draws (x25519_base ?P (replicate 32 8)) ?e = Some (Inr b)"
    by (simp add: decryption_error_seal_def m seal_in_domain_def as_key32_def b k c Let_def)
  have s: "length (replicate 32 (8::u8)) = 32" "length (drawn_x25519 sample_draws) = 32" "length (drawn_nonce sample_draws 12) = 12"
    "utf8_valid (de_message_id ?e)" by (simp_all add: sample_draws_def ascii_def)
  show ?thesis
    using b decryption_error_opens [OF sample_aead_correct sample_aead_tagged sample_hkdf_total sample_dh_commutes s b] by blast
qed

end
