(* ===== verification/First_Flight.thy ===== *)
theory First_Flight
  imports Sealed_Box
begin

text \<open>
  The box of a first flight (\<open>src/crypto/sealed_sender/first_flight.rs\<close>): a wire payload that carries
  an ML-KEM handshake, sealed whole with the sender certificate to the recipient, the handshake ciphertext in the
  clear once.
\<close>

definition KYBER_PREKEY_ID_OFFSET :: nat where "KYBER_PREKEY_ID_OFFSET = 4 + 32 + 4"
definition KEM_LEN_OFFSET :: nat where "KEM_LEN_OFFSET = KYBER_PREKEY_ID_OFFSET + 4"
definition KEM_CIPHERTEXT_LEN :: nat where "KEM_CIPHERTEXT_LEN = 1568"
definition FF_AD_LEN :: nat where "FF_AD_LEN = 4 + KEM_CIPHERTEXT_LEN + 32"

lemmas flight_sizes = KYBER_PREKEY_ID_OFFSET_def KEM_LEN_OFFSET_def KEM_CIPHERTEXT_LEN_def FF_AD_LEN_def HEADER_SIZE_def

text \<open>No value is the panic of an \<open>expect\<close> on the length of the HKDF output.\<close>

definition first_flight_key :: "primitives \<Rightarrow> bytes \<Rightarrow> bytes option" where
  "first_flight_key P shared_secret = hkdf_sha256 P [] shared_secret (ascii ''construct-first-flight-v1'') 32"

record handshake_ref =
  hr_kyber_prekey_id :: u32
  hr_kem_ciphertext :: bytes

definition ciphertext_hash :: "primitives \<Rightarrow> bytes \<Rightarrow> bytes" where
  "ciphertext_hash P kem_ciphertext = sha256 P kem_ciphertext"

definition handshake_of_wire :: "bytes \<Rightarrow> handshake_ref option" where
  "handshake_of_wire wire =
    (if length wire < HEADER_SIZE then None
     else
       (let kyber_prekey_id = u32_from_le (subslice KYBER_PREKEY_ID_OFFSET (KYBER_PREKEY_ID_OFFSET + 4) wire);
            kem_len = unat (u16_from_le (subslice KEM_LEN_OFFSET (KEM_LEN_OFFSET + 2) wire))
        in if kem_len \<noteq> KEM_CIPHERTEXT_LEN \<or> length wire \<le> HEADER_SIZE + kem_len then None
           else Some \<lparr> hr_kyber_prekey_id = kyber_prekey_id,
             hr_kem_ciphertext = subslice HEADER_SIZE (HEADER_SIZE + kem_len) wire \<rparr>))"

definition handshake_of_box :: "bytes \<Rightarrow> crypto_error + handshake_ref" where
  "handshake_of_box flight =
    (if length flight < FF_AD_LEN + 12 + 16 then Inl InvalidInputError
     else Inr \<lparr> hr_kyber_prekey_id = u32_from_be (take 4 flight),
       hr_kem_ciphertext = subslice 4 (4 + KEM_CIPHERTEXT_LEN) flight \<rparr>)"

definition box_key :: "primitives \<Rightarrow> bytes \<Rightarrow> bytes \<Rightarrow> bytes \<Rightarrow> bytes \<Rightarrow> bytes option" where
  "box_key P dh ff_key eph kem_ciphertext =
    hkdf_sha256 P (ascii ''ConstructSEALED-first-v1'') (dh @ ff_key) (eph @ ciphertext_hash P kem_ciphertext) 32"

definition first_flight_body :: "bytes \<Rightarrow> bytes \<Rightarrow> bytes" where
  "first_flight_body wire certificate =
    u16_to_be (of_nat (length certificate)) @ certificate @ take HEADER_SIZE wire @
    drop (HEADER_SIZE + KEM_CIPHERTEXT_LEN) wire"

definition first_flight_seal_with ::
    "primitives \<Rightarrow> bytes \<Rightarrow> bytes \<Rightarrow> bytes \<Rightarrow> bytes \<Rightarrow> bytes \<Rightarrow> bytes \<Rightarrow> (crypto_error + bytes) option" where
  "first_flight_seal_with P ff_key recipient_identity wire certificate eph_seed nonce =
    (case handshake_of_wire wire of
       None \<Rightarrow> Some (Inl InvalidInputError)
     | Some handshake \<Rightarrow>
         if 65536 \<le> length certificate then Some (Inl InvalidInputError)
         else (case as_key32 recipient_identity of
           Inl e \<Rightarrow> Some (Inl e)
         | Inr recipient \<Rightarrow>
             (let eph = x25519_base P eph_seed;
                  dh = x25519 P eph_seed recipient;
                  out = u32_to_be (hr_kyber_prekey_id handshake) @ hr_kem_ciphertext handshake @ eph
              in case box_key P dh ff_key eph (hr_kem_ciphertext handshake) of
                   None \<Rightarrow> None
                 | Some key \<Rightarrow> Some (
                     res_bind (ok_or AeadEncryptionError
                       (chacha_seal P key nonce (first_flight_body wire certificate) (take FF_AD_LEN out))) (\<lambda>sealed.
                       Inr (out @ nonce @ sealed))))))"

definition first_flight_seal ::
    "primitives \<Rightarrow> draws \<Rightarrow> bytes \<Rightarrow> bytes \<Rightarrow> bytes \<Rightarrow> bytes \<Rightarrow> (crypto_error + bytes) option" where
  "first_flight_seal P E ff_key recipient_identity wire certificate =
    first_flight_seal_with P ff_key recipient_identity wire certificate (drawn_x25519 E) (drawn_nonce E 12)"

record opened_first_flight =
  of_certificate :: bytes
  of_wire_payload :: bytes

definition first_flight_unpack :: "handshake_ref \<Rightarrow> bytes \<Rightarrow> crypto_error + opened_first_flight" where
  "first_flight_unpack handshake body =
    (if length body < 2 then Inl InvalidInputError
     else
       (let cert_len = unat (u16_from_be (take 2 body));
            wire_start = 2 + cert_len
        in if length body < wire_start + HEADER_SIZE then Inl InvalidInputError
           else
             (let header = subslice wire_start (wire_start + HEADER_SIZE) body;
                  inner_id = u32_from_le (subslice KYBER_PREKEY_ID_OFFSET (KYBER_PREKEY_ID_OFFSET + 4) header);
                  inner_len = unat (u16_from_le (subslice KEM_LEN_OFFSET (KEM_LEN_OFFSET + 2) header))
              in if inner_id \<noteq> hr_kyber_prekey_id handshake \<or> inner_len \<noteq> KEM_CIPHERTEXT_LEN
                 then Inl InvalidInputError
                 else Inr \<lparr> of_certificate = subslice 2 wire_start body,
                   of_wire_payload = header @ hr_kem_ciphertext handshake @ drop (wire_start + HEADER_SIZE) body \<rparr>)))"

definition first_flight_open ::
    "primitives \<Rightarrow> bytes \<Rightarrow> bytes \<Rightarrow> bytes \<Rightarrow> (crypto_error + opened_first_flight) option" where
  "first_flight_open P ff_key our_identity_secret flight =
    (case handshake_of_box flight of
       Inl e \<Rightarrow> Some (Inl e)
     | Inr handshake \<Rightarrow>
         (let eph = subslice (4 + KEM_CIPHERTEXT_LEN) FF_AD_LEN flight;
              nonce = subslice FF_AD_LEN (FF_AD_LEN + 12) flight
          in case as_key32 our_identity_secret of
               Inl e \<Rightarrow> Some (Inl e)
             | Inr ours \<Rightarrow>
                 (case as_key32 eph of
                    Inl e \<Rightarrow> Some (Inl e)
                  | Inr e \<Rightarrow>
                      (case box_key P (x25519 P ours e) ff_key eph (hr_kem_ciphertext handshake) of
                         None \<Rightarrow> None
                       | Some key \<Rightarrow> Some (
                           res_bind (ok_or AeadDecryptionError
                             (chacha_open P key nonce (drop (FF_AD_LEN + 12) flight) (take FF_AD_LEN flight)))
                             (first_flight_unpack handshake))))))"

subsection \<open>A first flight opens\<close>

lemma handshake_of_wireD:
  assumes "handshake_of_wire wire = Some h"
  shows "length (hr_kem_ciphertext h) = 1568" "1620 < length wire"
    "wire = take 52 wire @ hr_kem_ciphertext h @ drop 1620 wire"
    "u32_from_le (subslice 40 44 wire) = hr_kyber_prekey_id h" "unat (u16_from_le (subslice 44 46 wire)) = 1568"
proof -
  have l: "1620 < length wire" and h: "h = \<lparr> hr_kyber_prekey_id = u32_from_le (subslice 40 44 wire),
      hr_kem_ciphertext = subslice 52 1620 wire \<rparr>" and n: "unat (u16_from_le (subslice 44 46 wire)) = 1568"
    using assms by (auto simp: handshake_of_wire_def flight_sizes Let_def split: if_splits)
  show "length (hr_kem_ciphertext h) = 1568" "1620 < length wire" "u32_from_le (subslice 40 44 wire) = hr_kyber_prekey_id h"
    "unat (u16_from_le (subslice 44 46 wire)) = 1568" using l h n by (simp_all add: subslice_def)
  have "take 1568 (drop 52 wire) @ drop 1620 wire = drop 52 wire"
    using append_take_drop_id [of 1568 "drop 52 wire"] by simp
  then show "wire = take 52 wire @ hr_kem_ciphertext h @ drop 1620 wire"
    unfolding h handshake_ref.simps subslice_def by simp
qed

lemma subslice_take: "j \<le> n \<Longrightarrow> subslice i j (take n xs) = subslice i j xs"
  by (simp add: subslice_def drop_take min_def)

lemma first_flight_unpack_body:
  assumes "handshake_of_wire wire = Some h" "length certificate < 65536"
  shows "first_flight_unpack h (first_flight_body wire certificate) =
    Inr \<lparr> of_certificate = certificate, of_wire_payload = wire \<rparr>"
proof -
  note w = handshake_of_wireD [OF assms(1)]
  have c: "unat (of_nat (length certificate) :: u16) = length certificate"
    using assms(2) by (simp add: unat_of_nat)
  have hd: "length (take 52 wire) = 52" using w(2) by simp
  have slices: "subslice (2 + length certificate) (2 + length certificate + 52) (first_flight_body wire certificate) = take 52 wire"
    "subslice 2 (2 + length certificate) (first_flight_body wire certificate) = certificate"
    "drop (2 + length certificate + 52) (first_flight_body wire certificate) = drop 1620 wire"
    "take 2 (first_flight_body wire certificate) = u16_to_be (of_nat (length certificate))"
    "\<not> length (first_flight_body wire certificate) < 2 + length certificate + 52"
    using w(2) hd by (simp_all add: first_flight_body_def subslice_def flight_sizes)
  show ?thesis
    unfolding first_flight_unpack_def Let_def slices(4) int_codec_roundtrip c HEADER_SIZE_def [simplified]
    using w(3-5) slices(1-3,5) hd
    by (simp add: flight_sizes subslice_take)
qed

lemma handshake_of_packed:
  assumes "pack_message adv dh mn ot kid pc suite (Some ct) ki ip sb ep idx field = Inr wire"
    and "length ct = 1568" "sb \<noteq> []"
  shows "handshake_of_wire wire = Some \<lparr> hr_kyber_prekey_id = kid, hr_kem_ciphertext = ct \<rparr>"
proof -
  obtain pb where dh: "length dh = 32" and wire: "wire = u32_to_le mn @ dh @ u32_to_le ot @ u32_to_le kid @
      u16_to_le (of_nat (length ct)) @ u32_to_le pc @ u16_to_le (suite AND NOT WIRE_FLAGS OR wire_suite_flags adv (length ct) ki ip) @
      (ct @ pack_objects [ki] @ pack_objects [ip] @ pb @ sb)"
    by (rule pack_message_layout [OF assms(1)]) simp
  have len: "1620 < length wire" using assms(2,3) dh by (simp add: wire)
  have "subslice 40 44 wire = u32_to_le kid" "subslice 44 46 wire = u16_to_le 1568" "subslice 52 1620 wire = ct"
    using dh assms(2) by (simp_all add: wire subslice_def)
  then show ?thesis using len by (simp add: handshake_of_wire_def flight_sizes)
qed

lemma first_flight_sealed:
  assumes "first_flight_seal P E ff recipient wire cert = Some (Inr flight)" "handshake_of_wire wire = Some h"
  obtains key sealed where "length cert < 65536" "length recipient = 32"
    "box_key P (x25519 P (drawn_x25519 E) recipient) ff (x25519_base P (drawn_x25519 E)) (hr_kem_ciphertext h) = Some key"
    "chacha_seal P key (drawn_nonce E 12) (first_flight_body wire cert)
      (take FF_AD_LEN (u32_to_be (hr_kyber_prekey_id h) @ hr_kem_ciphertext h @ x25519_base P (drawn_x25519 E))) = Some sealed"
    "flight = u32_to_be (hr_kyber_prekey_id h) @ hr_kem_ciphertext h @ x25519_base P (drawn_x25519 E) @
      drawn_nonce E 12 @ sealed"
  using assms
  by (auto simp: first_flight_seal_def first_flight_seal_with_def as_key32_def Let_def result_iffs
      split: if_splits option.splits)

lemma box_key_length:
  assumes "hkdf_total P" "box_key P dh ff eph ct = Some key"
  shows "length key = 32"
proof (rule hkdf_sha256_total [OF assms(1), where len = 32 and salt = "ascii ''ConstructSEALED-first-v1''"
      and ikm = "dh @ ff" and info = "eph @ ciphertext_hash P ct"])
  fix okm
  assume "hkdf_sha256 P (ascii ''ConstructSEALED-first-v1'') (dh @ ff) (eph @ ciphertext_hash P ct) 32 = Some okm" "length okm = 32"
  then show "length key = 32" using assms(2) unfolding box_key_def by simp
qed simp

lemma first_flight_open_sealed:
  assumes laws: "aead_correct P" "aead_tagged P" "hkdf_total P" "dh_commutes P"
    and sizes: "length ik = 32" "length (drawn_x25519 E) = 32" "length (drawn_nonce E 12) = 12"
    and seal: "first_flight_seal P E ff (x25519_base P ik) wire cert = Some (Inr flight)"
    and h: "handshake_of_wire wire = Some h"
  shows "handshake_of_box flight = Inr h"
    "first_flight_open P ff ik flight = Some (Inr \<lparr> of_certificate = cert, of_wire_payload = wire \<rparr>)"
proof -
  obtain key sealed where c: "length cert < 65536"
    and key: "box_key P (x25519 P (drawn_x25519 E) (x25519_base P ik)) ff (x25519_base P (drawn_x25519 E)) (hr_kem_ciphertext h) = Some key"
    and s: "chacha_seal P key (drawn_nonce E 12) (first_flight_body wire cert)
      (take FF_AD_LEN (u32_to_be (hr_kyber_prekey_id h) @ hr_kem_ciphertext h @ x25519_base P (drawn_x25519 E))) = Some sealed"
    and fl: "flight = u32_to_be (hr_kyber_prekey_id h) @ hr_kem_ciphertext h @ x25519_base P (drawn_x25519 E) @
      drawn_nonce E 12 @ sealed"
    by (rule first_flight_sealed [OF seal h])
  have e: "length (x25519_base P a) = 32" for a using laws(4) unfolding dh_commutes_def by blast
  have ct: "length (hr_kem_ciphertext h) = 1568" by (rule handshake_of_wireD(1) [OF h])
  have ad: "take 1604 (u32_to_be (hr_kyber_prekey_id h) @ hr_kem_ciphertext h @ x25519_base P (drawn_x25519 E)) =
      u32_to_be (hr_kyber_prekey_id h) @ hr_kem_ciphertext h @ x25519_base P (drawn_x25519 E)"
    using ct e by simp
  have "length key = 32" by (rule box_key_length [OF laws(3) key])
  then have tag: "16 \<le> length sealed" using laws(2) s unfolding aead_tagged_def by (meson le_trans le_add2)
  have parts: "take 4 flight = u32_to_be (hr_kyber_prekey_id h)" "subslice 4 1572 flight = hr_kem_ciphertext h"
    "subslice 1572 1604 flight = x25519_base P (drawn_x25519 E)" "subslice 1604 1616 flight = drawn_nonce E 12"
    "drop 1616 flight = sealed" "take 1604 flight = u32_to_be (hr_kyber_prekey_id h) @ hr_kem_ciphertext h @ x25519_base P (drawn_x25519 E)"
    "\<not> length flight < 1632"
    using ct e sizes(3) tag by (simp_all add: fl subslice_def)
  show hb: "handshake_of_box flight = Inr h" using parts by (simp add: handshake_of_box_def flight_sizes)
  have op: "chacha_open P key (drawn_nonce E 12) sealed
      (u32_to_be (hr_kyber_prekey_id h) @ hr_kem_ciphertext h @ x25519_base P (drawn_x25519 E)) = Some (first_flight_body wire cert)"
    using laws(1) s [unfolded FF_AD_LEN_def KEM_CIPHERTEXT_LEN_def, simplified, folded append.assoc] ct e
    unfolding aead_correct_def by simp
  have "x25519 P ik (x25519_base P (drawn_x25519 E)) = x25519 P (drawn_x25519 E) (x25519_base P ik)"
    using laws(4) sizes unfolding dh_commutes_def by blast
  then show "first_flight_open P ff ik flight = Some (Inr \<lparr> of_certificate = cert, of_wire_payload = wire \<rparr>)"
    using parts key op sizes e unfolding first_flight_open_def hb
    by (simp add: flight_sizes as_key32_def first_flight_unpack_body [OF h c])
qed

text \<open>
  C25.  A first flight reaches its device whole.  The sender encapsulates to one of the Kyber prekeys the recipient
  holds, packs the wire payload that carries the ciphertext, and boxes it with its certificate.  The recipient reads
  from the box which prekey and ciphertext it was made with, decapsulates to the same secret, hence to the same
  first-flight key, and opens the box to the certificate and the very wire payload that was packed: the ciphertext,
  which travels only once, is put back where it was.
\<close>

theorem first_flight_box_opens:
  assumes "aead_correct P" "aead_tagged P" "hkdf_total P" "dh_commutes P" "mlkem1024_correct P E'"
    and "length ik = 32" "length (drawn_x25519 E) = 32" "length (drawn_nonce E 12) = 12"
    and "kid \<noteq> 0" "kyber_find kid (km_kyber_prekeys km) = Some k" "length (kk_seed k) = MLKEM_SEED_SIZE"
    and "mlkem1024_encapsulate E' (mlkem1024_ek P (kk_seed k)) = Inr (ct, ss)"
    and "pack_message adv dh mn ot kid pc suite (Some ct) ki ip sb ep idx field = Inr wire" "sb \<noteq> []"
    and "first_flight_key P ss = Some ff"
    and "first_flight_seal P E ff (x25519_base P ik) wire cert = Some (Inr flight)"
  shows "\<exists>h ss'. handshake_of_box flight = Inr h \<and>
    decapsulate_with_kyber_prekey P (hr_kyber_prekey_id h) (hr_kem_ciphertext h) km = Inr ss' \<and>
    first_flight_key P ss' = Some ff \<and>
    first_flight_open P ff ik flight = Some (Inr \<lparr> of_certificate = cert, of_wire_payload = wire \<rparr>)"
proof -
  have a: "mlkem1024_decapsulate P (kk_seed k) ct = Inr ss" "length ct = 1568"
    using mlkem1024_agree(1,3) [OF assms(5) _ assms(12), of "kk_seed k"] assms(11)
    by (simp_all add: mlkem1024_public_from_seed_def mlkem1024_key_from_seed_def)
  have h: "handshake_of_wire wire = Some \<lparr> hr_kyber_prekey_id = kid, hr_kem_ciphertext = ct \<rparr>"
    by (rule handshake_of_packed [OF assms(13) a(2) assms(14)])
  note o = first_flight_open_sealed [OF assms(1-4,6-8,16) h]
  have "decapsulate_with_kyber_prekey P kid ct km = Inr ss"
    using a(1) assms(9,10) by (simp add: decapsulate_with_kyber_prekey_def)
  then show ?thesis using o assms(15) by auto
qed


definition sample_flight_key :: kyber_prekey where
  "sample_flight_key = \<lparr> kk_key_id = 1, kk_created_at = 1000, kk_seed = replicate 64 5 \<rparr>"

theorem first_flight_box_opens_witness:
  "\<exists>wire ff flight h ss'.
    pack_message 4 (replicate 32 7) 0 0 1 0 4 (Some (replicate 1568 6)) None None [1, 2, 3] 1 0 None = Inr wire \<and>
    first_flight_seal sample_primitives sample_draws ff (x25519_base sample_primitives (replicate 32 8)) wire [42] = Some (Inr flight) \<and>
    handshake_of_box flight = Inr h \<and>
    decapsulate_with_kyber_prekey sample_primitives (hr_kyber_prekey_id h) (hr_kem_ciphertext h)
      (km_new\<lparr> km_kyber_prekeys := kyber_default\<lparr> ks_spk := Some sample_flight_key \<rparr> \<rparr>) = Inr ss' \<and>
    first_flight_key sample_primitives ss' = Some ff \<and>
    first_flight_open sample_primitives ff (replicate 32 8) flight = Some (Inr \<lparr> of_certificate = [42], of_wire_payload = wire \<rparr>)"
proof -
  let ?P = sample_primitives
  let ?km = "km_new\<lparr> km_kyber_prekeys := kyber_default\<lparr> ks_spk := Some sample_flight_key \<rparr> \<rparr>"
  obtain wire where w: "pack_message 4 (replicate 32 7) 0 0 1 0 4 (Some (replicate 1568 6)) None None [1, 2, 3] 1 0 None = Inr wire"
    by (simp add: pack_message_def DH_KEY_SIZE_def check_object_size_def pack_pq_section_def pack_pq_field_def Let_def wire_flag_defs PQ_RATCHET_SUITE_def PQ_RATCHET_def)
  obtain ff where ff: "first_flight_key ?P (replicate 32 6) = Some ff"
    by (simp add: first_flight_key_def sample_primitives_def)
  have h: "handshake_of_wire wire = Some \<lparr> hr_kyber_prekey_id = 1, hr_kem_ciphertext = replicate 1568 6 \<rparr>"
    by (rule handshake_of_packed [OF w]) simp_all
  have b: "length (x25519_base ?P (replicate 32 8)) = 32" by (simp add: sample_primitives_def)
  obtain key where k: "box_key ?P (x25519 ?P (drawn_x25519 sample_draws) (x25519_base ?P (replicate 32 8))) ff
      (x25519_base ?P (drawn_x25519 sample_draws)) (replicate 1568 6) = Some key"
    unfolding box_key_def by (rule hkdf_sha256_total [OF sample_hkdf_total, where len = 32]) auto
  have c: "chacha_seal ?P key n m ad = Some (key @ n @ ad @ m)" for n m ad by (simp add: sample_primitives_def)
  obtain flight where f: "first_flight_seal ?P sample_draws ff (x25519_base ?P (replicate 32 8)) wire [42] = Some (Inr flight)"
    by (simp add: first_flight_seal_def first_flight_seal_with_def h as_key32_def b k c Let_def)
  have e: "mlkem1024_encapsulate sample_draws (mlkem1024_ek ?P (kk_seed sample_flight_key)) = Inr (replicate 1568 6, replicate 32 6)"
    by (simp add: mlkem1024_encapsulate_def MLKEM1024_PK_SIZE_def sample_draws_def sample_primitives_def ok_or_def)
  have s: "length (replicate 32 (8::u8)) = 32" "length (drawn_x25519 sample_draws) = 32" "length (drawn_nonce sample_draws 12) = 12"
    "(1::u32) \<noteq> 0" "kyber_find 1 (km_kyber_prekeys ?km) = Some sample_flight_key" "length (kk_seed sample_flight_key) = MLKEM_SEED_SIZE"
    "[1, 2, 3::u8] \<noteq> []"
    by (simp_all add: sample_draws_def sample_flight_key_def MLKEM_SEED_SIZE_def kyber_find_def kyber_default_def held_spks_def KYBER_OTPK_ID_START_def word_le_nat_alt)
  show ?thesis
    using w f first_flight_box_opens [OF sample_aead_correct sample_aead_tagged sample_hkdf_total sample_dh_commutes
      sample_mlkem1024_correct s(1-6) e w s(7) ff f] by blast
qed

end
