(* ===== verification/Session_Lifecycle.thy ===== *)
theory Session_Lifecycle
  imports Ratchet_Storage Cfe_Envelope Session_Envelope Sealed_Box Ratchet_Batch
begin

text \<open>
  The session lifecycle: \<open>src/orchestration/session_lifecycle.rs\<close> with what it keeps and hands out -
  the ACK store (\<open>ack_store.rs\<close>), the reorder counters (\<open>reorder_stats.rs\<close>), the actions it
  asks the platform for (\<open>actions.rs\<close>) and the session table of the client
  (\<open>src/crypto/client_api.rs\<close>).  With each contact a device holds one current state and up to three
  previous ones.  A message is tried on the current state and then on the previous ones, and a previous state that
  reads it becomes current.  The theory shows that a message no state reads changes no state, that a message of a
  replaced state is still read and brings that state back, that the previous states are bounded, and that the pins
  and prekey epochs of a device are never replaced or lowered.
\<close>

subsection \<open>What the platform is asked to do\<close>

datatype secure_store_slot = SessionSlot bytes | OrchestratorState

datatype action =
    SaveToSecureStore secure_store_slot bytes
  | PersistAck bytes u64
  | PruneAckStore u64

subsection \<open>The ACK store\<close>

datatype ack_check_result = InCache | NeedDbCheck | NotProcessed

record ack_store =
  ak_cache :: "bytes list"
  ak_max_age_seconds :: u64
  ak_post_restart_mode :: bool

definition ack_store_new :: "u64 \<Rightarrow> ack_store" where
  "ack_store_new max_age_seconds =
    \<lparr> ak_cache = [], ak_max_age_seconds = max_age_seconds, ak_post_restart_mode = False \<rparr>"

definition is_processed :: "bytes \<Rightarrow> ack_store \<Rightarrow> ack_check_result" where
  "is_processed message_id s =
    (if message_id \<in> set (ak_cache s) then InCache
     else if ak_post_restart_mode s then NeedDbCheck else NotProcessed)"

definition mark_processed :: "u64 \<Rightarrow> bytes \<Rightarrow> ack_store \<Rightarrow> action list \<times> ack_store" where
  "mark_processed t message_id s =
    (if message_id \<in> set (ak_cache s) then ([], s)
     else ([PersistAck message_id t], s\<lparr> ak_cache := ak_cache s @ [message_id] \<rparr>))"

definition ack_prune_expired :: "u64 \<Rightarrow> ack_store \<Rightarrow> action list" where
  "ack_prune_expired t s = [PruneAckStore (sat_sub t (ak_max_age_seconds s))]"

definition restore_cache :: "bytes list \<Rightarrow> ack_store \<Rightarrow> ack_store" where
  "restore_cache ids s = s\<lparr> ak_cache := remdups ids, ak_post_restart_mode := True \<rparr>"

subsection \<open>How late messages arrive\<close>

record reorder_stats =
  ro_decrypted :: u64
  ro_previous_epoch :: u64
  ro_older_epoch :: u64
  ro_max_epoch_lag :: u32
  ro_max_skip_depth :: u32
  ro_evicted_epoch_failures :: u64

definition reorder_stats_default :: reorder_stats where
  "reorder_stats_default = \<lparr> ro_decrypted = 0, ro_previous_epoch = 0, ro_older_epoch = 0, ro_max_epoch_lag = 0,
    ro_max_skip_depth = 0, ro_evicted_epoch_failures = 0 \<rparr>"

definition record_decrypted ::
    "dr_health_snapshot \<Rightarrow> dr_health_snapshot \<Rightarrow> u32 \<Rightarrow> reorder_stats \<Rightarrow> reorder_stats" where
  "record_decrypted before after message_epoch st =
    (let st = st\<lparr> ro_decrypted := ro_decrypted st + 1 \<rparr>;
         st = (if 0 < message_epoch then
             (let lag = sat_sub (hs_pq_epoch before) message_epoch;
                  st = (if lag = 0 then st
                        else if lag = 1 then st\<lparr> ro_previous_epoch := ro_previous_epoch st + 1 \<rparr>
                        else st\<lparr> ro_older_epoch := ro_older_epoch st + 1 \<rparr>)
              in st\<lparr> ro_max_epoch_lag := max (ro_max_epoch_lag st) lag \<rparr>)
           else st);
         skipped = max (hs_skipped_keys_count after - hs_skipped_keys_count before)
           (hs_pq_skipped_keys_count after - hs_pq_skipped_keys_count before)
     in st\<lparr> ro_max_skip_depth := max (ro_max_skip_depth st) (if skipped < 2 ^ 32 then of_nat skipped else - 1) \<rparr>)"

definition record_failed :: "dr_health_snapshot option \<Rightarrow> u32 \<Rightarrow> reorder_stats \<Rightarrow> reorder_stats" where
  "record_failed current message_epoch st =
    (let evicted = (case Option.bind current hs_pq_oldest_chain_epoch of
           None \<Rightarrow> False
         | Some oldest \<Rightarrow> 0 < message_epoch \<and> message_epoch < oldest)
     in if evicted then st\<lparr> ro_evicted_epoch_failures := ro_evicted_epoch_failures st + 1 \<rparr> else st)"

subsection \<open>The client and the lifecycle manager\<close>

text \<open>
  The fields of \<open>Client\<close>.  A \<open>Session\<close> is its Double Ratchet session: its own contact id is the key it is filed
  under, and its envelope keys are gone once the client has filed them in the book.
\<close>

record client =
  cl_key_manager :: key_manager
  cl_sessions :: "(bytes, dr_session) hmap"
  cl_pending_otpk_ids :: "(bytes, u32) hmap"
  cl_local_user_id :: bytes
  cl_envelopes :: envelope_book

record previous_state =
  ps_session :: dr_session
  ps_retired_at :: u64
  ps_held_back :: bool

record lifecycle =
  lc_client :: client
  lc_ack_store :: ack_store
  lc_previous :: "(bytes, previous_state list) hmap"
  lc_hybrid_identity_pins :: "(bytes, bytes) hmap"
  lc_kem_identity_pins :: "(bytes, bytes) hmap"
  lc_spk_epochs :: "(bytes, u32) hmap"
  lc_my_user_id :: bytes
  lc_reorder_stats :: reorder_stats

datatype lc_error =
    LcRatchet dr_error
  | LcWire wire_payload_error
  | LcDhKeyLength
  | LcSealedBoxTooShort
  | LcNoLocalUserId
  | LcNoSession
  | LcKemIdentity km_error
  | LcStorage storage_error
  | LcCfe cfe_error
  | LcNotUtf8
  | LcJson
  | SESSION_PREDATES_ENVELOPE

definition MAX_PREVIOUS_STATES :: nat where "MAX_PREVIOUS_STATES = 3"
definition PREVIOUS_STATE_TTL_SECONDS :: u64 where "PREVIOUS_STATE_TTL_SECONDS = 7 * 24 * 60 * 60"

definition set_session :: "bytes \<Rightarrow> dr_session \<Rightarrow> client \<Rightarrow> client" where
  "set_session contact s c = c\<lparr> cl_sessions := hm_insert contact s (cl_sessions c) \<rparr>"

definition remove_session :: "draws \<Rightarrow> bytes \<Rightarrow> client \<Rightarrow> client" where
  "remove_session E contact c = (case hm_get contact (cl_sessions c) of
     None \<Rightarrow> c
   | Some s \<Rightarrow> c\<lparr> cl_sessions := hm_remove contact (cl_sessions c),
       cl_envelopes := retire_session (session_id s) (now E) (cl_envelopes c) \<rparr>)"

definition take_session :: "bytes \<Rightarrow> client \<Rightarrow> dr_session option \<times> client" where
  "take_session contact c = (hm_get contact (cl_sessions c), c\<lparr> cl_sessions := hm_remove contact (cl_sessions c) \<rparr>)"

definition lifecycle_new :: "client \<Rightarrow> bytes \<Rightarrow> lifecycle" where
  "lifecycle_new c my_user_id =
    \<lparr> lc_client = c\<lparr> cl_local_user_id := my_user_id \<rparr>, lc_ack_store = ack_store_new (30 * 24 * 60 * 60), lc_previous = [],
      lc_hybrid_identity_pins = [], lc_kem_identity_pins = [], lc_spk_epochs = [], lc_my_user_id = my_user_id,
      lc_reorder_stats = reorder_stats_default \<rparr>"

definition has_active_session :: "bytes \<Rightarrow> lifecycle \<Rightarrow> bool" where
  "has_active_session contact lc \<longleftrightarrow> hm_get contact (cl_sessions (lc_client lc)) \<noteq> None"

definition map_client :: "(client \<Rightarrow> client) \<Rightarrow> lifecycle \<Rightarrow> lifecycle" where
  "map_client f lc = lc\<lparr> lc_client := f (lc_client lc) \<rparr>"

definition map_envelopes :: "(envelope_book \<Rightarrow> envelope_book) \<Rightarrow> lifecycle \<Rightarrow> lifecycle" where
  "map_envelopes f = map_client (\<lambda>c. c\<lparr> cl_envelopes := f (cl_envelopes c) \<rparr>)"

definition forget_contact_state :: "draws \<Rightarrow> u64 \<Rightarrow> bytes \<Rightarrow> lifecycle \<Rightarrow> lifecycle" where
  "forget_contact_state E t contact lc =
    (let lc = map_client (remove_session E contact) lc;
         lc = lc\<lparr> lc_previous := hm_remove contact (lc_previous lc) \<rparr>;
         lc = map_envelopes (\<lambda>b. book_prune t (retire_device contact t b)) lc
     in lc\<lparr> lc_hybrid_identity_pins := hm_remove contact (lc_hybrid_identity_pins lc),
          lc_kem_identity_pins := hm_remove contact (lc_kem_identity_pins lc),
          lc_spk_epochs := hm_remove contact (lc_spk_epochs lc) \<rparr>)"

definition spk_epoch_regression :: "bytes \<Rightarrow> u32 \<Rightarrow> lifecycle \<Rightarrow> (u32 \<times> u32) option" where
  "spk_epoch_regression device_id epoch lc =
    (if epoch = 0 then None
     else (case hm_get device_id (lc_spk_epochs lc) of
       Some known \<Rightarrow> if epoch < known then Some (epoch, known) else None
     | None \<Rightarrow> None))"

definition note_spk_epoch :: "bytes \<Rightarrow> u32 \<Rightarrow> lifecycle \<Rightarrow> lifecycle" where
  "note_spk_epoch device_id epoch lc =
    (if epoch = 0 then lc
     else
       (let known = (case hm_get device_id (lc_spk_epochs lc) of None \<Rightarrow> 0 | Some k \<Rightarrow> k)
        in lc\<lparr> lc_spk_epochs := hm_insert device_id (max known epoch) (lc_spk_epochs lc) \<rparr>))"

definition pin_hybrid_identity :: "bytes \<Rightarrow> bytes \<Rightarrow> lifecycle \<Rightarrow> lifecycle" where
  "pin_hybrid_identity device_id fingerprint lc = (case hm_get device_id (lc_hybrid_identity_pins lc) of
     Some _ \<Rightarrow> lc
   | None \<Rightarrow> lc\<lparr> lc_hybrid_identity_pins := hm_insert device_id fingerprint (lc_hybrid_identity_pins lc) \<rparr>)"

definition pin_kem_identity :: "bytes \<Rightarrow> bytes \<Rightarrow> lifecycle \<Rightarrow> lifecycle" where
  "pin_kem_identity device_id fingerprint lc = (case hm_get device_id (lc_kem_identity_pins lc) of
     Some _ \<Rightarrow> lc
   | None \<Rightarrow> lc\<lparr> lc_kem_identity_pins := hm_insert device_id fingerprint (lc_kem_identity_pins lc) \<rparr>)"

definition set_my_user_id :: "bytes \<Rightarrow> lifecycle \<Rightarrow> lifecycle" where
  "set_my_user_id user_id lc =
    map_client (\<lambda>c. c\<lparr> cl_local_user_id := user_id \<rparr>) (lc\<lparr> lc_my_user_id := user_id \<rparr>)"

subsection \<open>Current and previous states\<close>

definition previous_fresh :: "u64 \<Rightarrow> previous_state \<Rightarrow> bool" where
  "previous_fresh t s \<longleftrightarrow> sat_sub t (ps_retired_at s) < PREVIOUS_STATE_TTL_SECONDS"

definition prune_previous :: "u64 \<Rightarrow> bytes \<Rightarrow> lifecycle \<Rightarrow> lifecycle" where
  "prune_previous t contact lc = (case hm_get contact (lc_previous lc) of
     None \<Rightarrow> lc
   | Some states \<Rightarrow>
       (let states = take MAX_PREVIOUS_STATES (filter (previous_fresh t) states);
            held = map (\<lambda>s. session_id (ps_session s)) states;
            held = held @ (case hm_get contact (cl_sessions (lc_client lc)) of
              Some current \<Rightarrow> [session_id current] | None \<Rightarrow> []);
            lc = lc\<lparr> lc_previous := (if states = [] then hm_remove contact (lc_previous lc)
              else hm_insert contact states (lc_previous lc)) \<rparr>
        in map_envelopes (\<lambda>b. book_prune t (retire_device_except contact held t b)) lc))"

definition previous_of :: "bytes \<Rightarrow> lifecycle \<Rightarrow> previous_state list" where
  "previous_of contact lc = (case hm_get contact (lc_previous lc) of Some states \<Rightarrow> states | None \<Rightarrow> [])"

definition retire :: "u64 \<Rightarrow> bytes \<Rightarrow> dr_session \<Rightarrow> lifecycle \<Rightarrow> lifecycle" where
  "retire t contact s lc =
    prune_previous t contact (lc\<lparr> lc_previous := hm_insert contact
      (\<lparr> ps_session = s, ps_retired_at = t, ps_held_back = False \<rparr> # previous_of contact lc) (lc_previous lc) \<rparr>)"

definition install_current :: "u64 \<Rightarrow> bytes \<Rightarrow> dr_session \<Rightarrow> lifecycle \<Rightarrow> lifecycle" where
  "install_current t contact s lc =
    (let (replaced, c) = take_session contact (lc_client lc);
         lc = lc\<lparr> lc_client := c \<rparr>;
         lc = (case replaced of Some r \<Rightarrow> retire t contact r lc | None \<Rightarrow> lc)
     in map_client (set_session contact s) lc)"

definition retire_current :: "u64 \<Rightarrow> bytes \<Rightarrow> lifecycle \<Rightarrow> bool \<times> lifecycle" where
  "retire_current t contact lc = (case take_session contact (lc_client lc) of
     (None, _) \<Rightarrow> (False, lc)
   | (Some s, c) \<Rightarrow>
       (let lc = retire t contact s (lc\<lparr> lc_client := c \<rparr>)
        in (True, (case hm_get contact (lc_previous lc) of
              Some (newest # rest) \<Rightarrow>
                lc\<lparr> lc_previous := hm_insert contact (newest\<lparr> ps_held_back := True \<rparr> # rest) (lc_previous lc) \<rparr>
            | _ \<Rightarrow> lc))))"

datatype ratchet_key_owner = CurrentOwner | PreviousOwner | UnknownOwner

definition ratchet_key_owner_of :: "bytes \<Rightarrow> bytes \<Rightarrow> lifecycle \<Rightarrow> ratchet_key_owner" where
  "ratchet_key_owner_of contact key lc =
    (if (case hm_get contact (cl_sessions (lc_client lc)) of
           Some current \<Rightarrow> dh_ratchet_public current = key | None \<Rightarrow> False) then CurrentOwner
     else if list_ex (\<lambda>s. dh_ratchet_public (ps_session s) = key) (previous_of contact lc) then PreviousOwner
     else UnknownOwner)"

definition close_first_flights :: "bytes \<Rightarrow> lifecycle \<Rightarrow> lifecycle" where
  "close_first_flights contact lc = (case hm_get contact (cl_sessions (lc_client lc)) of
     None \<Rightarrow> lc
   | Some s \<Rightarrow>
       if dr_prekey_header s \<noteq> None \<or> dr_pq_authentication s = Received then lc
       else map_envelopes (clear_first_flight (session_id s)) lc)"

subsection \<open>Decrypting\<close>

definition identity_answer_secret :: "primitives \<Rightarrow> encrypted_ratchet_message \<Rightarrow> lifecycle \<Rightarrow> lc_error + bytes option" where
  "identity_answer_secret P m lc = (case em_identity_proof_ciphertext m of
     None \<Rightarrow> Inr None
   | Some ct \<Rightarrow> res_bind (map_err LcKemIdentity (kem_identity_decapsulate P ct (cl_key_manager (lc_client lc)))) (\<lambda>s. Inr (Some s)))"

text \<open>An error text that starts with \<open>MESSAGE_KEY_CONSUMED\<close>.\<close>

definition key_consumed :: "dr_error \<Rightarrow> bool" where
  "key_consumed e = (case e of MESSAGE_KEY_CONSUMED _ _ \<Rightarrow> True | PqKeyConsumed _ _ _ \<Rightarrow> True | _ \<Rightarrow> False)"

definition client_decrypt ::
    "primitives \<Rightarrow> draws \<Rightarrow> bytes \<Rightarrow> encrypted_ratchet_message \<Rightarrow> bytes option \<Rightarrow> client \<Rightarrow> (lc_error + bytes) \<times> client" where
  "client_decrypt P E contact m identity_secret c =
    (if cl_local_user_id c = [] then (Inl LcNoLocalUserId, c)
     else (case hm_get contact (cl_sessions c) of
       None \<Rightarrow> (Inl LcNoSession, c)
     | Some s \<Rightarrow>
         (case decrypt_with_identity_secret P E m identity_secret s of
            (r, s') \<Rightarrow> (map_err LcRatchet r, set_session contact s' c))))"

datatype previous_outcome = NothingDecrypts | PreviousConsumed dr_error | PreviousDecrypted nat bytes

text \<open>The loop over the previous states, newest first; each state is changed in place.\<close>

fun try_previous ::
    "primitives \<Rightarrow> draws \<Rightarrow> encrypted_ratchet_message \<Rightarrow> bytes option \<Rightarrow> nat \<Rightarrow> previous_state list \<Rightarrow> reorder_stats
     \<Rightarrow> previous_outcome \<times> previous_state list \<times> reorder_stats" where
  "try_previous P E m sec i [] st = (NothingDecrypts, [], st)"
| "try_previous P E m sec i (x # xs) st =
    (case decrypt_with_identity_secret P E m sec (ps_session x) of
       (Inr plaintext, s') \<Rightarrow>
         (PreviousDecrypted i plaintext, x\<lparr> ps_session := s' \<rparr> # xs,
          record_decrypted (health_snapshot (ps_session x)) (health_snapshot s') (em_pq_message_epoch m) st)
     | (Inl e, s') \<Rightarrow>
         if key_consumed e then (PreviousConsumed e, x\<lparr> ps_session := s' \<rparr> # xs, st)
         else (case try_previous P E m sec (Suc i) xs st of
           (r, ys, st') \<Rightarrow> (r, x\<lparr> ps_session := s' \<rparr> # ys, st')))"

definition put_states :: "bytes \<Rightarrow> previous_state list \<Rightarrow> reorder_stats \<Rightarrow> lifecycle \<Rightarrow> lifecycle" where
  "put_states contact states st lc = lc\<lparr> lc_previous := (case hm_get contact (lc_previous lc) of
     Some _ \<Rightarrow> hm_insert contact states (lc_previous lc) | None \<Rightarrow> lc_previous lc), lc_reorder_stats := st \<rparr>"

definition decrypt_on_previous ::
    "primitives \<Rightarrow> draws \<Rightarrow> u64 \<Rightarrow> bytes \<Rightarrow> encrypted_ratchet_message \<Rightarrow> bytes option \<Rightarrow> dr_health_snapshot option
     \<Rightarrow> lc_error option \<Rightarrow> lifecycle \<Rightarrow> (lc_error + bytes) \<times> lifecycle" where
  "decrypt_on_previous P E t contact m sec before current_error lc =
    (let lc = prune_previous t contact lc
     in case try_previous P E m sec 0 (previous_of contact lc) (lc_reorder_stats lc) of
          (r, states, st) \<Rightarrow>
            (let lc = put_states contact states st lc
             in case r of
                  PreviousConsumed e \<Rightarrow> (Inl (LcRatchet e), lc)
                | NothingDecrypts \<Rightarrow>
                    (Inl (case current_error of Some e \<Rightarrow> e | None \<Rightarrow> LcNoSession),
                     lc\<lparr> lc_reorder_stats := record_failed before (em_pq_message_epoch m) (lc_reorder_stats lc) \<rparr>)
                | PreviousDecrypted i plaintext \<Rightarrow>
                    if ps_held_back (states ! i) then (Inr plaintext, lc)
                    else
                      (let promoted = states ! i;
                           lc = lc\<lparr> lc_previous := hm_insert contact (take i states @ drop (Suc i) states) (lc_previous lc) \<rparr>;
                           lc = install_current t contact (ps_session promoted) lc
                       in (Inr plaintext, close_first_flights contact lc))))"

definition decrypt_ratchet_message ::
    "primitives \<Rightarrow> draws \<Rightarrow> u64 \<Rightarrow> bytes \<Rightarrow> encrypted_ratchet_message \<Rightarrow> lifecycle \<Rightarrow> (lc_error + bytes) \<times> lifecycle" where
  "decrypt_ratchet_message P E t contact m lc =
    (case identity_answer_secret P m lc of
       Inl e \<Rightarrow> (Inl e, lc)
     | Inr sec \<Rightarrow>
         (case hm_get contact (cl_sessions (lc_client lc)) of
            None \<Rightarrow> decrypt_on_previous P E t contact m sec None None lc
          | Some s \<Rightarrow>
              (case client_decrypt P E contact m sec (lc_client lc) of
                 (r, c) \<Rightarrow>
                   (let lc = lc\<lparr> lc_client := c \<rparr>
                    in case r of
                         Inr plaintext \<Rightarrow>
                           (Inr plaintext, close_first_flights contact
                             (case hm_get contact (cl_sessions c) of
                                Some s' \<Rightarrow> lc\<lparr> lc_reorder_stats := record_decrypted (health_snapshot s) (health_snapshot s')
                                  (em_pq_message_epoch m) (lc_reorder_stats lc) \<rparr>
                              | None \<Rightarrow> lc))
                       | Inl (LcRatchet e) \<Rightarrow>
                           if key_consumed e then (Inl (LcRatchet e), lc)
                           else decrypt_on_previous P E t contact m sec (Some (health_snapshot s)) (Some (LcRatchet e)) lc
                       | Inl e \<Rightarrow>
                           decrypt_on_previous P E t contact m sec (Some (health_snapshot s)) (Some e) lc))))"

subsection \<open>Records and wire payloads\<close>

definition state_record :: "dr_session \<Rightarrow> lc_error + cfe_session_state" where
  "state_record s = map_err LcStorage (to_cfe_v1 (to_serializable s))"

fun export_previous :: "previous_state list \<Rightarrow> lc_error + cfe_previous_state list" where
  "export_previous [] = Inr []"
| "export_previous (x # xs) =
    res_bind (state_record (ps_session x)) (\<lambda>r.
    res_bind (export_previous xs) (\<lambda>rs. Inr (CfePreviousState (ps_retired_at x) r (ps_held_back x) # rs)))"

definition export_record :: "bytes \<Rightarrow> lifecycle \<Rightarrow> lc_error + cfe_session_state" where
  "export_record contact lc =
    res_bind (case hm_get contact (cl_sessions (lc_client lc)) of
        Some s \<Rightarrow> res_bind (state_record s) (\<lambda>top. Inr (top, previous_of contact lc))
      | None \<Rightarrow> (case previous_of contact lc of
          [] \<Rightarrow> Inl LcNoSession
        | newest # rest \<Rightarrow> res_bind (state_record (ps_session newest)) (\<lambda>top.
            Inr (CfeSessionState (cfe_fields top) (cfe_previous top)
              (Some \<lparr> rm_retired_at = ps_retired_at newest, rm_held_back = ps_held_back newest \<rparr>), rest))))
      (\<lambda>(top, rest). res_bind (export_previous rest) (\<lambda>ps.
        Inr (CfeSessionState (cfe_fields top) (cfe_previous top @ ps) (cfe_retired top))))"

definition export_session_bytes_for :: "cfe_session_state cfe_codec \<Rightarrow> bytes \<Rightarrow> lifecycle \<Rightarrow> lc_error + bytes" where
  "export_session_bytes_for C contact lc =
    res_bind (export_record contact lc) (\<lambda>record. map_err LcCfe (cfe_encode C SessionState record))"

fun import_previous ::
    "draws \<Rightarrow> bytes \<Rightarrow> bytes \<Rightarrow> envelope_book \<Rightarrow> cfe_previous_state list \<Rightarrow> lc_error + previous_state list" where
  "import_previous E contact me book [] = Inr []"
| "import_previous E contact me book (CfePreviousState retired_at state held_back # rest) =
    (if ucast (cf_suite_id (cfe_fields state)) = RETIRED_PQ_RATCHET_V1 then import_previous E contact me book rest
     else
       res_bind (map_err LcStorage (from_cfe_v1 state)) (\<lambda>s.
       res_bind (map_err LcStorage (verify_identity s contact me)) (\<lambda>_.
       res_bind (map_err LcStorage (from_serializable E s)) (\<lambda>ratchet.
         if \<not> book_has_session (session_id ratchet) book then import_previous E contact me book rest
         else res_bind (import_previous E contact me book rest) (\<lambda>states.
           Inr (\<lparr> ps_session = ratchet, ps_retired_at = retired_at, ps_held_back = held_back \<rparr> # states))))))"

text \<open>\<open>json\<close> stands for \<open>serde_json\<close>, which reads the records older than the file format.\<close>

definition read_record ::
    "cfe_session_state cfe_codec \<Rightarrow> (bytes \<Rightarrow> serializable_session option) \<Rightarrow> bytes
     \<Rightarrow> lc_error + (serializable_session \<times> cfe_previous_state list \<times> cfe_retired_mark option)" where
  "read_record C json data = (case cfe_decode_as C data SessionState of
     Inr state \<Rightarrow> res_bind (map_err LcStorage (from_cfe_v1 state)) (\<lambda>current.
       Inr (current, cfe_previous state, cfe_retired state))
   | Inl LegacyJson \<Rightarrow>
       if \<not> utf8_valid data then Inl LcNotUtf8
       else res_bind (ok_or LcJson (json data)) (\<lambda>current. Inr (current, [], None))
   | Inl e \<Rightarrow> Inl (LcCfe e))"

definition in_first_flights :: "dr_session \<Rightarrow> bool" where
  "in_first_flights s \<longleftrightarrow> dr_prekey_header s \<noteq> None \<or> dr_pq_authentication s = Received"

definition install_record ::
    "u64 \<Rightarrow> bytes \<Rightarrow> dr_session \<Rightarrow> previous_state list \<Rightarrow> cfe_retired_mark option \<Rightarrow> lifecycle \<Rightarrow> lifecycle" where
  "install_record t contact ratchet states retired lc =
    (let (states, lc) = (case retired of
           Some mark \<Rightarrow>
             (\<lparr> ps_session = ratchet, ps_retired_at = rm_retired_at mark, ps_held_back = rm_held_back mark \<rparr> # states,
              map_client (\<lambda>c. snd (take_session contact c)) lc)
         | None \<Rightarrow> (states, map_client (set_session contact ratchet) lc))
     in if states = [] then lc\<lparr> lc_previous := hm_remove contact (lc_previous lc) \<rparr>
        else prune_previous t contact (lc\<lparr> lc_previous := hm_insert contact states (lc_previous lc) \<rparr>))"

definition import_session_bytes ::
    "draws \<Rightarrow> u64 \<Rightarrow> cfe_session_state cfe_codec \<Rightarrow> (bytes \<Rightarrow> serializable_session option) \<Rightarrow> bytes \<Rightarrow> bytes \<Rightarrow> lifecycle
     \<Rightarrow> (lc_error + unit) \<times> lifecycle" where
  "import_session_bytes E t C json contact data lc =
    (let book = cl_envelopes (lc_client lc); me = cl_local_user_id (lc_client lc)
     in case res_bind (read_record C json data) (\<lambda>(serializable, previous, retired).
          res_bind (map_err LcStorage (verify_identity serializable contact me)) (\<lambda>_.
          res_bind (import_previous E contact me book previous) (\<lambda>states.
          res_bind (map_err LcStorage (from_serializable E serializable)) (\<lambda>ratchet.
            if \<not> book_has_session (session_id ratchet) book then Inl SESSION_PREDATES_ENVELOPE
            else if in_first_flights ratchet \<and> first_flight_of_session (session_id ratchet) book = None
            then Inl SESSION_PREDATES_ENVELOPE
            else Inr (ratchet, states, retired))))) of
          Inl e \<Rightarrow> (Inl e, lc)
        | Inr (ratchet, states, retired) \<Rightarrow> (Inr (), install_record t contact ratchet states retired lc))"

definition wire_message :: "bytes \<Rightarrow> lc_error + encrypted_ratchet_message" where
  "wire_message payload =
    res_bind (map_err LcWire (unpack payload)) (\<lambda>decoded.
      if length (wp_dh_public_key decoded) \<noteq> 32 then Inl LcDhKeyLength
      else if length (wp_sealed_box decoded) < 12 then Inl LcSealedBoxTooShort
      else Inr \<lparr> em_dh_public_key = wp_dh_public_key decoded, em_message_number = wp_message_number decoded,
        em_ciphertext = drop 12 (wp_sealed_box decoded), em_nonce = take 12 (wp_sealed_box decoded),
        em_previous_chain_length = wp_previous_chain_length decoded, em_suite_id = wp_suite_id decoded,
        em_pq_message_epoch = wp_pq_message_epoch decoded, em_pq_key_index = wp_pq_key_index decoded,
        em_pq_ratchet_field = wp_pq_ratchet_field decoded,
        em_identity_proof_ciphertext = wp_identity_proof_ciphertext decoded, em_ad_version = wp_ad_version decoded \<rparr>)"

definition decrypt_wire_payload ::
    "primitives \<Rightarrow> draws \<Rightarrow> u64 \<Rightarrow> cfe_session_state cfe_codec \<Rightarrow> bytes \<Rightarrow> bytes \<Rightarrow> lifecycle
     \<Rightarrow> (lc_error + (bytes \<times> action list)) \<times> lifecycle" where
  "decrypt_wire_payload P E t C contact payload lc =
    (case wire_message payload of
       Inl e \<Rightarrow> (Inl e, lc)
     | Inr m \<Rightarrow>
         (case decrypt_ratchet_message P E t contact m lc of
            (Inl e, lc') \<Rightarrow> (Inl e, lc')
          | (Inr plaintext, lc') \<Rightarrow>
              (res_bind (export_session_bytes_for C contact lc') (\<lambda>session_bytes.
                 Inr (plaintext, [SaveToSecureStore (SessionSlot contact) session_bytes])), lc')))"

subsection \<open>What the operations leave alone\<close>

lemmas lc_update_defs = map_client_def map_envelopes_def

definition lc_rest :: "lifecycle \<Rightarrow> ack_store \<times> (bytes, bytes) hmap \<times> (bytes, bytes) hmap \<times> (bytes, u32) hmap \<times> bytes" where
  "lc_rest lc = (lc_ack_store lc, lc_hybrid_identity_pins lc, lc_kem_identity_pins lc, lc_spk_epochs lc, lc_my_user_id lc)"

lemma lc_rest_update [simp]:
  "lc_rest (lc\<lparr> lc_client := c \<rparr>) = lc_rest lc" "lc_rest (lc\<lparr> lc_previous := p \<rparr>) = lc_rest lc"
  "lc_rest (lc\<lparr> lc_reorder_stats := st \<rparr>) = lc_rest lc"
  "lc_rest (map_client f lc) = lc_rest lc" "lc_rest (map_envelopes g lc) = lc_rest lc"
  by (simp_all add: lc_rest_def lc_update_defs)

lemma lc_rest_states [simp]:
  "lc_rest (prune_previous t contact lc) = lc_rest lc" "lc_rest (close_first_flights contact lc) = lc_rest lc"
  "lc_rest (put_states contact xs st lc) = lc_rest lc"
  by (simp_all add: prune_previous_def close_first_flights_def put_states_def Let_def split: option.split)

lemma lc_rest_install [simp]:
  "lc_rest (retire t contact s lc) = lc_rest lc" "lc_rest (install_current t contact s lc) = lc_rest lc"
  by (simp_all add: retire_def install_current_def take_session_def Let_def split: option.split)

lemma lc_rest_retire_current [simp]: "lc_rest (snd (retire_current t contact lc)) = lc_rest lc"
  by (simp add: retire_current_def take_session_def Let_def split: option.split list.split)

lemma lc_rest_previous: "lc_rest (snd (decrypt_on_previous P E t contact m sec b e lc)) = lc_rest lc"
  by (simp add: decrypt_on_previous_def Let_def split: prod.split previous_outcome.split)

lemma lc_rest_decrypt: "lc_rest (snd (decrypt_ratchet_message P E t contact m lc)) = lc_rest lc"
  by (auto simp: decrypt_ratchet_message_def Let_def lc_rest_previous
      split: sum.splits option.splits prod.splits lc_error.splits)

lemma decrypt_wire_state:
  "snd (decrypt_wire_payload P E t C contact payload lc) = (case wire_message payload of
     Inl e \<Rightarrow> lc | Inr m \<Rightarrow> snd (decrypt_ratchet_message P E t contact m lc))"
  by (auto simp: decrypt_wire_payload_def split: sum.splits prod.splits)

lemma lc_rest_wire: "lc_rest (snd (decrypt_wire_payload P E t C contact payload lc)) = lc_rest lc"
  by (simp add: decrypt_wire_state lc_rest_decrypt split: sum.split)

lemma import_state:
  "snd (import_session_bytes E t C json contact data lc) = lc \<or>
    (\<exists>ratchet states retired. snd (import_session_bytes E t C json contact data lc) =
      install_record t contact ratchet states retired lc)"
  unfolding import_session_bytes_def Let_def by (auto split: sum.split)

lemma lc_rest_import: "lc_rest (snd (import_session_bytes E t C json contact data lc)) = lc_rest lc"
  using import_state [of E t C json contact data lc] by (auto simp: install_record_def Let_def split: option.splits)

subsection \<open>Previous states, operation by operation\<close>

lemma previous_of_update [simp]:
  "previous_of c (map_client f lc) = previous_of c lc"
  "previous_of c (map_envelopes g lc) = previous_of c lc"
  "previous_of c (lc\<lparr> lc_client := x \<rparr>) = previous_of c lc"
  "previous_of c (lc\<lparr> lc_reorder_stats := st \<rparr>) = previous_of c lc"
  "previous_of c (lc\<lparr> lc_previous := hm_insert d xs (lc_previous lc) \<rparr>) = (if c = d then xs else previous_of c lc)"
  "previous_of c (lc\<lparr> lc_previous := hm_remove d (lc_previous lc) \<rparr>) = (if c = d then [] else previous_of c lc)"
  by (auto simp: previous_of_def lc_update_defs hm.get_insert hm_remove_get)

lemma previous_of_put_states:
  "previous_of c (put_states contact xs st lc) =
    (if c = contact \<and> hm_get contact (lc_previous lc) \<noteq> None then xs else previous_of c lc)"
  by (cases "hm_get contact (lc_previous lc)") (auto simp: put_states_def previous_of_def hm.get_insert)

lemma previous_of_prune:
  "previous_of c (prune_previous t contact lc) =
    (if c = contact then take MAX_PREVIOUS_STATES (filter (previous_fresh t) (previous_of c lc)) else previous_of c lc)"
proof (cases "hm_get contact (lc_previous lc)")
  case None
  then show ?thesis by (simp add: prune_previous_def previous_of_def)
next
  case (Some states)
  let ?s = "take MAX_PREVIOUS_STATES (filter (previous_fresh t) states)"
  have "previous_of c (prune_previous t contact lc) =
      previous_of c (lc\<lparr> lc_previous := (if ?s = [] then hm_remove contact (lc_previous lc) else hm_insert contact ?s (lc_previous lc)) \<rparr>)"
    by (simp add: prune_previous_def Some Let_def)
  also have "\<dots> = (if c = contact then ?s else previous_of c lc)"
    by (cases "?s = []") simp_all
  finally show ?thesis using Some by (simp add: previous_of_def)
qed

lemma previous_of_retire:
  "previous_of c (retire t contact s lc) =
    (if c = contact then take MAX_PREVIOUS_STATES (filter (previous_fresh t)
       (\<lparr> ps_session = s, ps_retired_at = t, ps_held_back = False \<rparr> # previous_of c lc)) else previous_of c lc)"
  by (simp add: retire_def previous_of_prune)

lemma retired_now_fresh [simp]: "previous_fresh t \<lparr> ps_session = s, ps_retired_at = t, ps_held_back = h \<rparr>"
  by (simp add: previous_fresh_def sat_sub_def PREVIOUS_STATE_TTL_SECONDS_def)

lemma previous_of_install:
  "previous_of c (install_current t contact s lc) =
    (case hm_get contact (cl_sessions (lc_client lc)) of
       None \<Rightarrow> previous_of c lc
     | Some r \<Rightarrow> previous_of c (retire t contact r lc))"
  by (simp add: install_current_def take_session_def Let_def previous_of_retire split: option.split)

lemma previous_of_close [simp]: "previous_of c (close_first_flights contact lc) = previous_of c lc"
  by (simp add: close_first_flights_def split: option.split)

lemma try_previous_states:
  assumes "try_previous P E m sec i xs st = (r, ys, st')"
  shows "length ys = length xs \<and> map ps_retired_at ys = map ps_retired_at xs \<and> map ps_held_back ys = map ps_held_back xs"
  using assms
  by (induction P E m sec i xs st arbitrary: r ys st' rule: try_previous.induct) (auto split: prod.splits sum.splits if_splits)

lemma try_previous_index:
  assumes "try_previous P E m sec i xs st = (PreviousDecrypted j p, ys, st')"
  shows "i \<le> j \<and> j < i + length xs \<and>
    decrypt_with_identity_secret P E m sec (ps_session (xs ! (j - i))) = (Inr p, ps_session (ys ! (j - i)))"
  using assms
proof (induction P E m sec i xs st arbitrary: ys st' rule: try_previous.induct)
  case (2 P E m sec i x xs st)
  obtain q s' where d: "decrypt_with_identity_secret P E m sec (ps_session x) = (q, s')" by fastforce
  show ?case
  proof (cases q)
    case (Inr pl)
    then show ?thesis using 2 d by auto
  next
    case (Inl e)
    obtain r zs st2 where t: "try_previous P E m sec (Suc i) xs st = (r, zs, st2)" by (cases "try_previous P E m sec (Suc i) xs st") auto
    have k: "\<not> key_consumed e" using "2.prems" d Inl by (auto split: if_splits)
    have p: "r = PreviousDecrypted j p" "ys = x\<lparr> ps_session := s' \<rparr> # zs" using "2.prems" d Inl k t by auto
    have "Suc i \<le> j \<and> j < Suc i + length xs \<and>
        decrypt_with_identity_secret P E m sec (ps_session (xs ! (j - Suc i))) = (Inr p, ps_session (zs ! (j - Suc i)))"
      using "2.IH" [OF d [symmetric] Inl k] t p(1) by auto
    moreover from this have "j - i = Suc (j - Suc i)" by linarith
    ultimately show ?thesis by (simp add: p(2))
  qed
qed simp

definition previous_bounded :: "lifecycle \<Rightarrow> bool" where
  "previous_bounded lc \<longleftrightarrow> (\<forall>c. length (previous_of c lc) \<le> MAX_PREVIOUS_STATES)"

lemma bounded_prune: "previous_bounded lc \<Longrightarrow> previous_bounded (prune_previous t contact lc)"
  by (simp add: previous_bounded_def previous_of_prune)

lemma bounded_retire: "previous_bounded lc \<Longrightarrow> previous_bounded (retire t contact s lc)"
  by (simp add: previous_bounded_def previous_of_retire)

lemma bounded_install: "previous_bounded lc \<Longrightarrow> previous_bounded (install_current t contact s lc)"
  by (auto simp: previous_bounded_def previous_of_install previous_of_retire split: option.split)

lemma bounded_on_previous:
  assumes "previous_bounded lc"
  shows "previous_bounded (snd (decrypt_on_previous P E t contact m sec b e lc))"
proof -
  define l where "l = prune_previous t contact lc"
  have l: "previous_bounded l" using assms by (simp add: l_def bounded_prune)
  obtain r ys st where t: "try_previous P E m sec 0 (previous_of contact l) (lc_reorder_stats l) = (r, ys, st)"
    by (cases "try_previous P E m sec 0 (previous_of contact l) (lc_reorder_stats l)") auto
  have len: "length ys = length (previous_of contact l)" using try_previous_states [OF t] by simp
  define l2 where "l2 = put_states contact ys st l"
  have prev: "length (previous_of c l2) = length (previous_of c l)" for c
    using len by (simp add: l2_def previous_of_put_states)
  have l2: "previous_bounded l2" using l prev by (simp add: previous_bounded_def)
  have rest: "length (take i ys @ drop (Suc i) ys) \<le> MAX_PREVIOUS_STATES" for i
    using l [unfolded previous_bounded_def, rule_format, of contact] len by simp
  have rm: "previous_bounded (l2\<lparr> lc_previous := hm_insert contact (take i ys @ drop (Suc i) ys) (lc_previous l2) \<rparr>)" for i
    using l2 rest [of i] by (simp add: previous_bounded_def)
  have o: "decrypt_on_previous P E t contact m sec b e lc = (case r of
      PreviousConsumed e \<Rightarrow> (Inl (LcRatchet e), l2)
    | NothingDecrypts \<Rightarrow> (Inl (case e of Some e \<Rightarrow> e | None \<Rightarrow> LcNoSession),
        l2\<lparr> lc_reorder_stats := record_failed b (em_pq_message_epoch m) (lc_reorder_stats l2) \<rparr>)
    | PreviousDecrypted i plaintext \<Rightarrow>
        if ps_held_back (ys ! i) then (Inr plaintext, l2)
        else (Inr plaintext, close_first_flights contact (install_current t contact (ps_session (ys ! i))
          (l2\<lparr> lc_previous := hm_insert contact (take i ys @ drop (Suc i) ys) (lc_previous l2) \<rparr>))))"
    unfolding decrypt_on_previous_def Let_def l_def [symmetric] t prod.case l2_def [symmetric] by (simp split: previous_outcome.split)
  show ?thesis
    unfolding o
    using l2 bounded_install [OF rm] by (auto simp: previous_bounded_def split: previous_outcome.split)
qed

lemma bounded_decrypt:
  assumes "previous_bounded lc"
  shows "previous_bounded (snd (decrypt_ratchet_message P E t contact m lc))"
proof -
  have u: "previous_bounded (lc\<lparr> lc_client := c \<rparr>)" for c using assms by (simp add: previous_bounded_def)
  have cf: "previous_bounded l \<Longrightarrow> previous_bounded (close_first_flights contact l)" for l by (simp add: previous_bounded_def)
  have st: "previous_bounded (lc\<lparr> lc_client := c, lc_reorder_stats := st \<rparr>)" for c st
    using assms by (simp add: previous_bounded_def)
  show ?thesis
    using assms
    by (auto simp: decrypt_ratchet_message_def Let_def bounded_on_previous u st intro!: cf
        split: sum.splits option.splits prod.splits lc_error.splits)
qed

subsection \<open>What a failed attempt leaves\<close>

definition attempted :: "draws \<Rightarrow> dr_session \<Rightarrow> dr_session \<Rightarrow> bool" where
  "attempted E s s' \<longleftrightarrow> s' = s \<or> s' = (periodic_cleanup E s)\<lparr> last_ratchet_at := last_ratchet_at s' \<rparr>"

definition attempted_previous :: "draws \<Rightarrow> previous_state \<Rightarrow> previous_state \<Rightarrow> bool" where
  "attempted_previous E x y \<longleftrightarrow> y = x\<lparr> ps_session := ps_session y \<rparr> \<and> attempted E (ps_session x) (ps_session y)"

lemma attempted_refl [simp]: "attempted E s s" "attempted_previous E x x"
  by (simp_all add: attempted_def attempted_previous_def)

lemma decrypt_error_attempted: "decrypt_with_identity_secret P E m sec s = (Inl e, s') \<Longrightarrow> attempted E s s'"
  using decrypt_error by (simp add: attempted_def)

lemma try_previous_failed:
  assumes "try_previous P E m sec i xs st = (r, ys, st')" "\<forall>j p. r \<noteq> PreviousDecrypted j p"
  shows "list_all2 (attempted_previous E) xs ys \<and> (r = NothingDecrypts \<longrightarrow> st' = st)"
  using assms
proof (induction P E m sec i xs st arbitrary: r ys st' rule: try_previous.induct)
  case (2 P E m sec i x xs st)
  obtain q s' where d: "decrypt_with_identity_secret P E m sec (ps_session x) = (q, s')" by fastforce
  obtain e where e: "q = Inl e" using "2.prems" d by (cases q) auto
  have a: "attempted_previous E x (x\<lparr> ps_session := s' \<rparr>)"
    using decrypt_error_attempted d e by (auto simp: attempted_previous_def)
  obtain r' zs st2 where t: "try_previous P E m sec (Suc i) xs st = (r', zs, st2)" by (cases "try_previous P E m sec (Suc i) xs st") auto
  have refl: "list_all2 (attempted_previous E) xs xs" by (simp add: list_all2_refl)
  show ?case
  proof (cases "key_consumed e")
    case True
    then show ?thesis using "2.prems" d e a refl by auto
  next
    case False
    then have "r = r'" "ys = x\<lparr> ps_session := s' \<rparr> # zs" "st' = st2" using "2.prems"(1) d e t by auto
    then show ?thesis using "2.IH" [OF d [symmetric] e False t] "2.prems"(2) a by auto
  qed
qed simp

lemma sessions_prune [simp]: "cl_sessions (lc_client (prune_previous t contact lc)) = cl_sessions (lc_client lc)"
  by (simp add: prune_previous_def lc_update_defs Let_def split: option.split)

lemma on_previous_failed:
  assumes "decrypt_on_previous P E t contact m sec b ce lc = (Inl e, lc')"
  shows "cl_sessions (lc_client lc') = cl_sessions (lc_client lc)"
    "list_all2 (attempted_previous E) (take MAX_PREVIOUS_STATES (filter (previous_fresh t) (previous_of contact lc))) (previous_of contact lc')"
    "c \<noteq> contact \<Longrightarrow> previous_of c lc' = previous_of c lc"
proof -
  define l where "l = prune_previous t contact lc"
  obtain r ys st where t: "try_previous P E m sec 0 (previous_of contact l) (lc_reorder_stats l) = (r, ys, st)"
    by (cases "try_previous P E m sec 0 (previous_of contact l) (lc_reorder_stats l)") auto
  define l2 where "l2 = put_states contact ys st l"
  have r: "(\<forall>j p. r \<noteq> PreviousDecrypted j p) \<and> (lc' = l2 \<or> (\<exists>st2. lc' = l2\<lparr> lc_reorder_stats := st2 \<rparr>))"
    using assms unfolding decrypt_on_previous_def Let_def l_def [symmetric] t prod.case l2_def [symmetric]
    by (cases r) (auto split: if_splits)
  have a: "list_all2 (attempted_previous E) (previous_of contact l) ys" using try_previous_failed [OF t] r by blast
  have "previous_of c lc' = (if c = contact \<and> hm_get contact (lc_previous l) \<noteq> None then ys else previous_of c l)" for c
    using r by (auto simp: l2_def previous_of_put_states)
  moreover have "hm_get contact (lc_previous l) = None \<Longrightarrow> previous_of contact l = []" by (simp add: previous_of_def)
  ultimately show "list_all2 (attempted_previous E) (take MAX_PREVIOUS_STATES (filter (previous_fresh t) (previous_of contact lc))) (previous_of contact lc')"
    "c \<noteq> contact \<Longrightarrow> previous_of c lc' = previous_of c lc"
    using a by (auto simp: l_def previous_of_prune split: if_splits)
  show "cl_sessions (lc_client lc') = cl_sessions (lc_client lc)" using r by (auto simp: l2_def l_def put_states_def)
qed

lemma client_decrypt_failed:
  assumes "client_decrypt P E contact m sec c = (Inl e, c')" "hm_get contact (cl_sessions c) = Some s"
  shows "\<exists>s'. attempted E s s' \<and> (\<forall>d. hm_get d (cl_sessions c') = (if d = contact then Some s' else hm_get d (cl_sessions c)))"
proof (cases "cl_local_user_id c = []")
  case True
  then show ?thesis using assms by (intro exI [of _ s]) (auto simp: client_decrypt_def)
next
  case False
  obtain q s' where d: "decrypt_with_identity_secret P E m sec s = (q, s')" by fastforce
  then obtain e' where "q = Inl e'" using assms False by (cases q) (auto simp: client_decrypt_def)
  then have "attempted E s s'" using decrypt_error_attempted d by blast
  then show ?thesis using assms False d
    by (intro exI [of _ s']) (auto simp: client_decrypt_def set_session_def hm.get_insert)
qed

text \<open>
  C31.  A message nothing reads changes nothing that matters.  When a decrypt over all the states held with a device
  ends in an error, whatever the error, the current states of all other devices are untouched, the current state of
  this one is as it was, expired kept keys and the time of the last ratchet step aside, and so are its previous
  states, of which only those past their seven days or beyond the third are gone.  No state was promoted or retired.
\<close>

theorem failed_decrypt_keeps_states:
  assumes "decrypt_ratchet_message P E t contact m lc = (Inl e, lc')"
  shows "(\<forall>c. c \<noteq> contact \<longrightarrow> hm_get c (cl_sessions (lc_client lc')) = hm_get c (cl_sessions (lc_client lc)) \<and>
      previous_of c lc' = previous_of c lc) \<and>
    rel_option (attempted E) (hm_get contact (cl_sessions (lc_client lc))) (hm_get contact (cl_sessions (lc_client lc'))) \<and>
    (previous_of contact lc' = previous_of contact lc \<or>
     list_all2 (attempted_previous E) (take MAX_PREVIOUS_STATES (filter (previous_fresh t) (previous_of contact lc)))
       (previous_of contact lc'))"
proof (cases "identity_answer_secret P m lc")
  case (Inl e')
  then show ?thesis using assms by (auto simp: decrypt_ratchet_message_def option.rel_refl)
next
  case (Inr sec)
  show ?thesis
  proof (cases "hm_get contact (cl_sessions (lc_client lc))")
    case None
    then have d: "decrypt_on_previous P E t contact m sec None None lc = (Inl e, lc')"
      using assms Inr by (simp add: decrypt_ratchet_message_def)
    show ?thesis using on_previous_failed [OF d] None by auto
  next
    case (Some s)
    obtain q c where c: "client_decrypt P E contact m sec (lc_client lc) = (q, c)" by fastforce
    then obtain e' where e': "q = Inl e'"
      using assms Inr Some by (cases q) (auto simp: decrypt_ratchet_message_def Let_def)
    obtain s' where s': "attempted E s s'"
      "\<forall>d. hm_get d (cl_sessions c) = (if d = contact then Some s' else hm_get d (cl_sessions (lc_client lc)))"
      using client_decrypt_failed [OF c [unfolded e'] Some] by blast
    from assms Inr Some c e' consider "lc' = lc\<lparr> lc_client := c \<rparr>"
      | b ce where "decrypt_on_previous P E t contact m sec b ce (lc\<lparr> lc_client := c \<rparr>) = (Inl e, lc')"
      by (auto simp: decrypt_ratchet_message_def Let_def split: lc_error.splits if_splits)
    then show ?thesis
    proof cases
      case 1
      then show ?thesis using s' Some by simp
    next
      case 2
      show ?thesis using on_previous_failed [OF 2] s' Some by simp
    qed
  qed
qed

definition sample_message :: encrypted_ratchet_message where
  "sample_message = \<lparr> em_dh_public_key = replicate 32 7, em_message_number = 0, em_ciphertext = [1], em_nonce = replicate 12 0,
    em_previous_chain_length = 0, em_suite_id = 4, em_pq_message_epoch = 0, em_pq_key_index = 0, em_pq_ratchet_field = None,
    em_identity_proof_ciphertext = None, em_ad_version = 4 \<rparr>"

definition sample_client :: "(bytes, dr_session) hmap \<Rightarrow> envelope_book \<Rightarrow> client" where
  "sample_client sessions book = \<lparr> cl_key_manager = km_new, cl_sessions = sessions, cl_pending_otpk_ids = [],
    cl_local_user_id = [], cl_envelopes = book \<rparr>"

theorem failed_decrypt_keeps_states_witness:
  "\<exists>s lc'. decrypt_ratchet_message sample_primitives sample_draws 50 (ascii ''bob'') sample_message
      (lifecycle_new (sample_client [(ascii ''bob'', s)] []) []) = (Inl LcNoLocalUserId, lc') \<and>
    rel_option (attempted sample_draws) (Some s) (hm_get (ascii ''bob'') (cl_sessions (lc_client lc')))"
proof -
  obtain s where s: "new_initiator_session sample_primitives sample_draws [1] (replicate 32 7) (replicate 32 8)
      (ascii ''bob'') (ascii ''alice'') PQ_RATCHET = Inr s"
    using sample_initiator by blast
  let ?l = "lifecycle_new (sample_client [(ascii ''bob'', s)] []) []"
  have d: "fst (decrypt_ratchet_message sample_primitives sample_draws 50 (ascii ''bob'') sample_message ?l) = Inl LcNoLocalUserId"
    by (simp add: decrypt_ratchet_message_def identity_answer_secret_def sample_message_def lifecycle_new_def sample_client_def
        hm_get_def client_decrypt_def decrypt_on_previous_def prune_previous_def previous_of_def Let_def)
  then obtain lc' where e: "decrypt_ratchet_message sample_primitives sample_draws 50 (ascii ''bob'') sample_message ?l = (Inl LcNoLocalUserId, lc')"
    by (metis prod.collapse)
  have "hm_get (ascii ''bob'') (cl_sessions (lc_client ?l)) = Some s" by (simp add: lifecycle_new_def sample_client_def hm_get_def)
  then show ?thesis using e failed_decrypt_keeps_states [OF e] by auto
qed

subsection \<open>Reading on any state held\<close>

definition refuses :: "primitives \<Rightarrow> draws \<Rightarrow> encrypted_ratchet_message \<Rightarrow> bytes option \<Rightarrow> dr_session \<Rightarrow> dr_session \<Rightarrow> bool" where
  "refuses P E m sec s s' \<longleftrightarrow> (\<exists>e. decrypt_with_identity_secret P E m sec s = (Inl e, s') \<and> \<not> key_consumed e)"

lemma try_previous_at:
  assumes "k < length xs" "\<forall>j<k. \<exists>s'. refuses P E m sec (ps_session (xs ! j)) s'"
    and "decrypt_with_identity_secret P E m sec (ps_session (xs ! k)) = (Inr p, s')"
  shows "\<exists>ys st'. try_previous P E m sec i xs st = (PreviousDecrypted (i + k) p, ys, st') \<and> ys ! k = (xs ! k)\<lparr> ps_session := s' \<rparr>"
  using assms
proof (induction xs arbitrary: i k)
  case (Cons x xs)
  show ?case
  proof (cases k)
    case 0
    then show ?thesis using Cons.prems by simp
  next
    case (Suc k')
    obtain e u where u: "decrypt_with_identity_secret P E m sec (ps_session x) = (Inl e, u)" "\<not> key_consumed e"
      using Cons.prems(2) Suc unfolding refuses_def by (metis nth_Cons_0 zero_less_Suc)
    have "\<exists>s'. refuses P E m sec (ps_session (xs ! j)) s'" if "j < k'" for j
      using Cons.prems(2) [rule_format, of "Suc j"] Suc that by simp
    moreover have "k' < length xs" "decrypt_with_identity_secret P E m sec (ps_session (xs ! k')) = (Inr p, s')"
      using Cons.prems(1,3) Suc by auto
    ultimately have "k' < length xs" "\<forall>j<k'. \<exists>s'. refuses P E m sec (ps_session (xs ! j)) s'"
      "decrypt_with_identity_secret P E m sec (ps_session (xs ! k')) = (Inr p, s')" by blast+
    from Cons.IH [OF this, of "Suc i"] obtain ys st' where
      "try_previous P E m sec (Suc i) xs st = (PreviousDecrypted (Suc i + k') p, ys, st')" "ys ! k' = (xs ! k')\<lparr> ps_session := s' \<rparr>" by blast
    then show ?thesis using u Suc by simp
  qed
qed simp

lemma session_after [simp]:
  "hm_get contact (cl_sessions (lc_client (install_current t contact s lc))) = Some s"
  "cl_sessions (lc_client (close_first_flights c lc)) = cl_sessions (lc_client lc)"
  by (simp_all add: install_current_def map_client_def set_session_def hm.get_insert close_first_flights_def map_envelopes_def
      Let_def split: prod.split option.split)

lemma on_previous_reads:
  fixes lc t contact
  defines "xs \<equiv> take MAX_PREVIOUS_STATES (filter (previous_fresh t) (previous_of contact lc))"
  assumes "k < length xs" "\<forall>j<k. \<exists>s'. refuses P E m sec (ps_session (xs ! j)) s'"
    and "decrypt_with_identity_secret P E m sec (ps_session (xs ! k)) = (Inr p, s')" "\<not> ps_held_back (xs ! k)"
  shows "\<exists>lc'. decrypt_on_previous P E t contact m sec b ce lc = (Inr p, lc') \<and>
    hm_get contact (cl_sessions (lc_client lc')) = Some s' \<and>
    (\<forall>cur. hm_get contact (cl_sessions (lc_client lc)) = Some cur \<longrightarrow>
      hd (previous_of contact lc') = \<lparr> ps_session = cur, ps_retired_at = t, ps_held_back = False \<rparr>)"
proof -
  define l where "l = prune_previous t contact lc"
  have prev: "previous_of contact l = xs" by (simp add: l_def previous_of_prune xs_def)
  obtain ys st' where tr: "try_previous P E m sec 0 xs (lc_reorder_stats l) = (PreviousDecrypted k p, ys, st')"
    and y: "ys ! k = (xs ! k)\<lparr> ps_session := s' \<rparr>"
    using try_previous_at [OF assms(2-4), of 0 "lc_reorder_stats l"] by auto
  define l2 where "l2 = put_states contact ys st' l"
  define l3 where "l3 = l2\<lparr> lc_previous := hm_insert contact (take k ys @ drop (Suc k) ys) (lc_previous l2) \<rparr>"
  have o: "decrypt_on_previous P E t contact m sec b ce lc = (Inr p, close_first_flights contact (install_current t contact s' l3))"
    unfolding decrypt_on_previous_def Let_def l_def [symmetric] prev tr using assms(5) y by (simp add: l2_def l3_def)
  have "cl_sessions (lc_client l3) = cl_sessions (lc_client lc)" by (simp add: l3_def l2_def l_def put_states_def)
  then have "hm_get contact (cl_sessions (lc_client lc)) = Some cur \<Longrightarrow>
      hd (previous_of contact (close_first_flights contact (install_current t contact s' l3))) =
        \<lparr> ps_session = cur, ps_retired_at = t, ps_held_back = False \<rparr>" for cur
    by (simp add: previous_of_install previous_of_retire MAX_PREVIOUS_STATES_def)
  then show ?thesis using o by simp
qed


definition sample_stale_state :: dr_session where
  "sample_stale_state = sample_receiver\<lparr> remote_dh_public := None, dh_ratchet_private := None \<rparr>"

lemma sample_stale_refuses:
  assumes "em_message_number m = 0" "em_previous_chain_length m = 0"
  shows "\<exists>s'. refuses P sample_draws m None sample_stale_state s'"
proof -
  have c: "periodic_cleanup sample_draws sample_stale_state = sample_stale_state"
    by (simp add: periodic_cleanup_def sample_stale_state_def sample_receiver_def fresh_session_def hm_len_def)
  have f: "skipped_message_keys sample_stale_state = []" "remote_dh_public sample_stale_state = None"
    "dh_ratchet_private sample_stale_state = None" "receiving_chain_length sample_stale_state = 0"
    by (simp_all add: sample_stale_state_def sample_receiver_def fresh_session_def)
  have "fst (decrypt_with_identity_secret P sample_draws m None sample_stale_state) = Inl NoDhPrivateKey"
    using assms
    by (simp add: decrypt_with_identity_secret_def decrypt_message_def c f decrypt_on_chain_def check_jump_def needs_dh_step_def
        dh_turn_def perform_dh_ratchet_def st_bind_def st_lift_def st_get_def st_modify_def st_inspect_err_def st_return_def
        sat_add_def Let_def)
  then show ?thesis unfolding refuses_def key_consumed_def by (metis prod.collapse dr_error.simps)
qed

lemma encrypt_no_proof:
  assumes "encrypt P E pt s = (Inr m, s')" "dr_identity_proof s = NoProof"
  shows "em_identity_proof_ciphertext m = None"
proof -
  from assms(1) obtain padded s1 ep ix pk s2 where
    1: "pad_message_default pt = Inr padded" "maybe_start_pq_exchange_by_age E s = (Inr (), s1)"
    "pq_send_key P s1 = (Inr (ep, ix, pk), s2)"
    by (auto simp: encrypt_def st_bind_Inr_iff)
  have "same_but_pq s s2"
    using maybe_start_frame(1) [OF 1(2)] pq_send_frame [OF 1(3)] by (rule same_but_pq_trans)
  then have "dr_identity_proof s2 = NoProof" using assms(2) by (simp add: same_but_pq_def)
  then show ?thesis using assms(1) 1
    by (auto simp: encrypt_def st_bind_Inr_iff generate_nonce_def Let_def split: if_splits)
qed

lemma sample_received:
  "\<exists>m b'. decrypt_with_identity_secret sample_primitives sample_draws m None sample_receiver = (Inr [1, 2, 3], b') \<and>
    em_message_number m = 0 \<and> em_previous_chain_length m = 0 \<and> em_identity_proof_ciphertext m = None"
proof -
  have s: "sending_chain_length sample_sender = 0" "dr_suite_id sample_sender = CLASSIC" "previous_sending_length sample_sender = 0"
    "dr_identity_proof sample_sender = NoProof"
    by (simp_all add: sample_sender_def fresh_session_def)
  obtain m a' where e: "encrypt sample_primitives sample_draws [1, 2, 3] sample_sender = (Inr m, a')"
    using encrypt_succeeds [OF sample_can_send, of "[1, 2, 3]" sample_draws] s by auto
  have r: "in_reach (dh_ratchet_public sample_sender) (sending_chain_length sample_sender)
      (periodic_cleanup sample_draws sample_receiver)"
    by (simp add: in_reach_def s periodic_cleanup_def sample_receiver_def fresh_session_def hm_len_def)
  have p: "pq_readable sample_primitives sample_sender (periodic_cleanup sample_draws sample_receiver)"
    by (simp add: pq_readable_def s is_pq_ratchet_def CLASSIC_def)
  obtain b' where "decrypt sample_primitives sample_draws m sample_receiver = (Inr [1, 2, 3], b')"
    using delivery_step [OF sample_aead_correct sample_in_step e r p] by blast
  moreover have "sealed_header m sample_sender" by (rule encrypt_okE [OF e])
  moreover have "em_identity_proof_ciphertext m = None" by (rule encrypt_no_proof [OF e s(4)])
  ultimately show ?thesis using s(1,3) by (auto simp: decrypt_def sealed_header_def)
qed


subsection \<open>Runs of the lifecycle manager\<close>

text \<open>
  One operation, other than forgetting a contact.  \<open>reclient\<close> stands for everything that changes the client only:
  opening sessions, encrypting, rotating keys.  \<open>reack\<close> stands for the operations of the ACK store.
\<close>

inductive lc_step :: "primitives \<Rightarrow> lifecycle \<Rightarrow> lifecycle \<Rightarrow> bool" for P where
  decrypt_wire: "lc_step P lc (snd (decrypt_wire_payload P E t C contact payload lc))"
| retire_replaced: "lc_step P lc (retire t contact s lc)"
| retire_unread: "lc_step P lc (snd (retire_current t contact lc))"
| import_record: "lc_step P lc (snd (import_session_bytes E t C json contact data lc))"
| note_epoch: "lc_step P lc (note_spk_epoch device epoch lc)"
| pin_hybrid: "lc_step P lc (pin_hybrid_identity device fp lc)"
| pin_kem: "lc_step P lc (pin_kem_identity device fp lc)"
| rename: "lc_step P lc (set_my_user_id me lc)"
| reclient: "lc_step P lc (lc\<lparr> lc_client := c \<rparr>)"
| reack: "lc_step P lc (lc\<lparr> lc_ack_store := a \<rparr>)"

inductive lc_run :: "primitives \<Rightarrow> bytes set \<Rightarrow> lifecycle \<Rightarrow> lifecycle \<Rightarrow> bool" for P forgotten where
  start: "lc_run P forgotten lc lc"
| step: "lc_run P forgotten lc lc1 \<Longrightarrow> lc_step P lc1 lc2 \<Longrightarrow> lc_run P forgotten lc lc2"
| forget: "lc_run P forgotten lc lc1 \<Longrightarrow> contact \<in> forgotten \<Longrightarrow> lc_run P forgotten lc (forget_contact_state E t contact lc1)"

lemma previous_of_rest [simp]:
  "previous_of c (note_spk_epoch device epoch lc) = previous_of c lc"
  "previous_of c (pin_hybrid_identity device fp lc) = previous_of c lc"
  "previous_of c (pin_kem_identity device fp lc) = previous_of c lc"
  "previous_of c (set_my_user_id me lc) = previous_of c lc"
  "previous_of c (lc\<lparr> lc_ack_store := a \<rparr>) = previous_of c lc"
  by (simp_all add: note_spk_epoch_def pin_hybrid_identity_def pin_kem_identity_def set_my_user_id_def previous_of_def
      lc_update_defs Let_def split: option.split)

lemma previous_of_forget: "previous_of c (forget_contact_state E t contact lc) = (if c = contact then [] else previous_of c lc)"
  by (simp add: forget_contact_state_def previous_of_def lc_update_defs Let_def hm_remove_get)

lemma previous_of_retire_current: "length (previous_of c (snd (retire_current t contact lc))) \<le> max MAX_PREVIOUS_STATES (length (previous_of c lc))"
proof (cases "hm_get contact (cl_sessions (lc_client lc))")
  case None
  then show ?thesis by (simp add: retire_current_def take_session_def)
next
  case (Some s)
  let ?l = "retire t contact s (lc\<lparr> lc_client := (lc_client lc)\<lparr> cl_sessions := hm_remove contact (cl_sessions (lc_client lc)) \<rparr> \<rparr>)"
  have r: "length (previous_of c ?l) \<le> max MAX_PREVIOUS_STATES (length (previous_of c lc))"
    by (simp add: previous_of_retire min.coboundedI2 max.coboundedI1)
  have "length (previous_of c (snd (retire_current t contact lc))) = length (previous_of c ?l)"
    unfolding retire_current_def take_session_def
    using Some by (auto simp: Let_def previous_of_def hm.get_insert split: option.split list.split)
  then show ?thesis using r by simp
qed

lemma previous_of_install_record:
  "length (previous_of c (install_record t contact s xs mark lc)) \<le> max MAX_PREVIOUS_STATES (length (previous_of c lc))"
  by (auto simp: install_record_def Let_def previous_of_prune split: option.split)

lemma bounded_le: "previous_bounded lc \<Longrightarrow> (\<And>c. length (previous_of c lc') \<le> max MAX_PREVIOUS_STATES (length (previous_of c lc))) \<Longrightarrow> previous_bounded lc'"
  unfolding previous_bounded_def by (metis max.absorb1)

lemma bounded_step: "lc_step P lc lc' \<Longrightarrow> previous_bounded lc \<Longrightarrow> previous_bounded lc'"
proof (induction rule: lc_step.induct)
  case (decrypt_wire lc E t C contact payload)
  then show ?case by (simp add: decrypt_wire_state bounded_decrypt split: sum.split)
next
  case (import_record lc E t C json contact data)
  from import_state [of E t C json contact data lc] show ?case
    using import_record by (auto intro: bounded_le [OF _ previous_of_install_record])
next
  case (retire_unread lc t contact)
  then show ?case by (rule bounded_le [OF _ previous_of_retire_current])
qed (simp_all add: bounded_retire, simp_all add: previous_bounded_def)

lemma bounded_run: "lc_run P fs lc lc' \<Longrightarrow> previous_bounded lc \<Longrightarrow> previous_bounded lc'"
proof (induction rule: lc_run.induct)
  case (forget lc lc1 contact E t)
  then show ?case by (simp add: previous_bounded_def previous_of_forget)
qed (auto intro: bounded_step)

text \<open>
  C33.  The record stays small.  Whatever the lifecycle manager goes through from its creation, however often
  sessions are reopened, crossed, retired, promoted and reloaded, from whatever records, it holds at most three
  previous states for a device besides the current one.
\<close>

theorem previous_states_bounded:
  assumes "lc_run P forgotten (lifecycle_new c me) lc"
  shows "length (previous_of device lc) \<le> 3"
proof -
  have "previous_bounded (lifecycle_new c me)" by (simp add: previous_bounded_def previous_of_def lifecycle_new_def)
  then show ?thesis using bounded_run [OF assms] by (simp add: previous_bounded_def MAX_PREVIOUS_STATES_def)
qed

theorem previous_states_bounded_witness:
  "length (previous_of (ascii ''bob'') (retire 4 (ascii ''bob'') sample_receiver (retire 3 (ascii ''bob'') sample_receiver
    (retire 2 (ascii ''bob'') sample_receiver (retire 1 (ascii ''bob'') sample_receiver
      (lifecycle_new (sample_client [] []) (ascii ''alice'')))))) ) \<le> 3"
  by (rule previous_states_bounded [where P = sample_primitives and forgotten = "{}" and c = "sample_client [] []" and me = "ascii ''alice''"])
    (rule lc_run.step [OF lc_run.step [OF lc_run.step [OF lc_run.step [OF lc_run.start
        lc_step.retire_replaced] lc_step.retire_replaced] lc_step.retire_replaced] lc_step.retire_replaced])

subsection \<open>Pins and epochs\<close>

lemma rest_step:
  assumes "lc_step P lc lc'"
  shows "(hm_get d (lc_hybrid_identity_pins lc) = Some fp \<longrightarrow> hm_get d (lc_hybrid_identity_pins lc') = Some fp) \<and>
    (hm_get d (lc_kem_identity_pins lc) = Some fk \<longrightarrow> hm_get d (lc_kem_identity_pins lc') = Some fk) \<and>
    (\<forall>n. hm_get d (lc_spk_epochs lc) = Some n \<longrightarrow> (\<exists>n'\<ge>n. hm_get d (lc_spk_epochs lc') = Some n'))"
  using assms
proof (cases rule: lc_step.cases)
  case (decrypt_wire E t C contact payload)
  then show ?thesis using lc_rest_wire [of P E t C contact payload lc] by (auto simp: lc_rest_def)
next
  case (retire_replaced t contact s)
  then show ?thesis using lc_rest_install(1) [of t contact s lc] by (auto simp: lc_rest_def)
next
  case (retire_unread t contact)
  then show ?thesis using lc_rest_retire_current [of t contact lc] by (auto simp: lc_rest_def)
next
  case (import_record E t C json contact data)
  then show ?thesis using lc_rest_import [of E t C json contact data lc] by (auto simp: lc_rest_def)
next
  case (note_epoch device epoch)
  then show ?thesis by (auto simp: note_spk_epoch_def Let_def hm.get_insert)
next
  case (pin_hybrid device fp)
  then show ?thesis by (auto simp: pin_hybrid_identity_def hm.get_insert split: option.splits)
next
  case (pin_kem device fp)
  then show ?thesis by (auto simp: pin_kem_identity_def hm.get_insert split: option.splits)
qed (auto simp: set_my_user_id_def lc_update_defs)

lemma rest_forget:
  assumes "d \<noteq> contact"
  shows "hm_get d (lc_hybrid_identity_pins (forget_contact_state E t contact lc)) = hm_get d (lc_hybrid_identity_pins lc)"
    "hm_get d (lc_kem_identity_pins (forget_contact_state E t contact lc)) = hm_get d (lc_kem_identity_pins lc)"
    "hm_get d (lc_spk_epochs (forget_contact_state E t contact lc)) = hm_get d (lc_spk_epochs lc)"
  using assms by (simp_all add: forget_contact_state_def lc_update_defs Let_def hm_remove_get)

lemma pins_run:
  assumes "lc_run P forgotten lc lc'" "d \<notin> forgotten"
  shows "(hm_get d (lc_hybrid_identity_pins lc) = Some fp \<longrightarrow> hm_get d (lc_hybrid_identity_pins lc') = Some fp) \<and>
    (hm_get d (lc_kem_identity_pins lc) = Some fk \<longrightarrow> hm_get d (lc_kem_identity_pins lc') = Some fk) \<and>
    (\<forall>n. hm_get d (lc_spk_epochs lc) = Some n \<longrightarrow> (\<exists>n'\<ge>n. hm_get d (lc_spk_epochs lc') = Some n'))"
  using assms
proof (induction rule: lc_run.induct)
  case (step lc lc1 lc2)
  then show ?case using rest_step [OF step.hyps(2), of d fp fk] by (blast intro: order_trans)
next
  case (forget lc lc1 contact E t)
  then have "d \<noteq> contact" by blast
  then show ?case using forget rest_forget [of d contact E t lc1] by simp
qed auto



subsection \<open>Promotion and the envelope book\<close>

lemma envelopes_retire:
  assumes "hm_get contact (cl_sessions (lc_client lc)) = None"
  shows "\<exists>held. set held \<subseteq> insert (session_id s) (session_id ` ps_session ` set (previous_of contact lc)) \<and>
    cl_envelopes (lc_client (retire t contact s lc)) = book_prune t (retire_device_except contact held t (cl_envelopes (lc_client lc)))"
proof -
  let ?x = "\<lparr> ps_session = s, ps_retired_at = t, ps_held_back = False \<rparr>"
  let ?xs = "take MAX_PREVIOUS_STATES (filter (previous_fresh t) (?x # previous_of contact lc))"
  have e: "cl_envelopes (lc_client (retire t contact s lc)) =
      book_prune t (retire_device_except contact (map (\<lambda>s. session_id (ps_session s)) ?xs) t (cl_envelopes (lc_client lc)))"
    using assms by (simp add: retire_def prune_previous_def hm.get_insert lc_update_defs Let_def)
  have "set ?xs \<subseteq> insert ?x (set (previous_of contact lc))" using set_take_subset by force
  then have "set (map (\<lambda>s. session_id (ps_session s)) ?xs) \<subseteq>
      insert (session_id s) (session_id ` ps_session ` set (previous_of contact lc))" by auto
  then show ?thesis using e by blast
qed

lemma envelopes_install:
  assumes "hm_get contact (cl_sessions (lc_client lc)) = Some cur"
  shows "\<exists>held. set held \<subseteq> insert (session_id cur) (session_id ` ps_session ` set (previous_of contact lc)) \<and>
    cl_envelopes (lc_client (install_current t contact s lc)) = book_prune t (retire_device_except contact held t (cl_envelopes (lc_client lc)))"
proof -
  let ?l = "lc\<lparr> lc_client := (lc_client lc)\<lparr> cl_sessions := hm_remove contact (cl_sessions (lc_client lc)) \<rparr> \<rparr>"
  have "hm_get contact (cl_sessions (lc_client ?l)) = None" by (simp add: hm_remove_get)
  from envelopes_retire [OF this, of cur t] show ?thesis
    using assms by (simp add: install_current_def take_session_def map_client_def set_session_def Let_def)
qed




end
