(* ===== verification/Server_Trust.thy ===== *)
theory Server_Trust
  imports Pq_Prekey_Plan
begin

text \<open>
  Server keys rooted offline: the bytes of delegations and server signatures (\<open>server-trust/src/lib.rs\<close>) and the
  ring of keys a client accepts (\<open>src/crypto/server_trust.rs\<close>).
\<close>

text \<open>An \<open>i64\<close> is its bit pattern; it is compared by its signed value.\<close>

type_synonym i64 = "64 word"

definition i64_sat_add :: "i64 \<Rightarrow> i64 \<Rightarrow> i64" where
  "i64_sat_add a b = word_of_int (max (- (2 ^ 63)) (min (2 ^ 63 - 1) (sint a + sint b)))"

definition i64_sat_sub :: "i64 \<Rightarrow> i64 \<Rightarrow> i64" where
  "i64_sat_sub a b = word_of_int (max (- (2 ^ 63)) (min (2 ^ 63 - 1) (sint a - sint b)))"

lemma sint_i64_range: "- (2 ^ 63) \<le> sint (a :: i64)" "sint (a :: i64) \<le> 2 ^ 63 - 1"
  using sint_ge [of a] sint_lt [of a] by simp_all

lemma sint_word_of_int_i64: "- (2 ^ 63) \<le> z \<Longrightarrow> z \<le> 2 ^ 63 - 1 \<Longrightarrow> sint (word_of_int z :: i64) = z"
  by (simp add: sint_sbintrunc' signed_take_bit_int_eq_self_iff)

lemma sint_i64_sat_add: "sint (i64_sat_add a b) = max (- (2 ^ 63)) (min (2 ^ 63 - 1) (sint a + sint b))"
  unfolding i64_sat_add_def by (rule sint_word_of_int_i64) simp_all

lemma sint_i64_sat_sub: "sint (i64_sat_sub a b) = max (- (2 ^ 63)) (min (2 ^ 63 - 1) (sint a - sint b))"
  unfolding i64_sat_sub_def by (rule sint_word_of_int_i64) simp_all

subsection \<open>The format\<close>

definition HYBRID_PUBLIC_KEY_LEN :: nat where "HYBRID_PUBLIC_KEY_LEN = 32 + 1952"
definition HYBRID_SIGNATURE_LEN :: nat where "HYBRID_SIGNATURE_LEN = 64 + 3309"
definition DELEGATION_VERSION :: u8 where "DELEGATION_VERSION = 1"
definition KID_LEN :: nat where "KID_LEN = 16"
definition DELEGATION_LEN :: nat where "DELEGATION_LEN = 1 + 1 + 8 + 8 + HYBRID_PUBLIC_KEY_LEN + HYBRID_SIGNATURE_LEN"
definition SENDER_CERT_MAX_LIFETIME_SECS :: i64 where "SENDER_CERT_MAX_LIFETIME_SECS = 86400"
definition MAX_DELIVERY_AGE_SECS :: i64 where "MAX_DELIVERY_AGE_SECS = 7 * 86400"
definition DELEGATION_LABEL :: bytes where "DELEGATION_LABEL = ascii ''konstruct/v1/delegation''"
definition KID_LABEL :: bytes where "KID_LABEL = ascii ''konstruct/v1/kid''"

lemmas trust_sizes = HYBRID_PUBLIC_KEY_LEN_def HYBRID_SIGNATURE_LEN_def DELEGATION_LEN_def KID_LEN_def

datatype purpose = SenderCert | KtHead | StickerManifest

definition purpose_byte :: "purpose \<Rightarrow> u8" where
  "purpose_byte p = (case p of SenderCert \<Rightarrow> 1 | KtHead \<Rightarrow> 2 | StickerManifest \<Rightarrow> 3)"

definition purpose_all :: "purpose list" where "purpose_all = [SenderCert, KtHead, StickerManifest]"

definition purpose_from_byte :: "u8 \<Rightarrow> purpose option" where
  "purpose_from_byte b = List.find (\<lambda>p. purpose_byte p = b) purpose_all"

definition purpose_name :: "purpose \<Rightarrow> bytes" where
  "purpose_name p = (case p of SenderCert \<Rightarrow> ascii ''sender-cert'' | KtHead \<Rightarrow> ascii ''kt-head''
     | StickerManifest \<Rightarrow> ascii ''sticker-manifest'')"

definition purpose_from_name :: "bytes \<Rightarrow> purpose option" where
  "purpose_from_name name = List.find (\<lambda>p. purpose_name p = name) purpose_all"

definition purpose_label :: "purpose \<Rightarrow> bytes" where
  "purpose_label p = (case p of SenderCert \<Rightarrow> ascii ''konstruct/v1/sender-cert'' | KtHead \<Rightarrow> ascii ''konstruct/v1/kt-head''
     | StickerManifest \<Rightarrow> ascii ''konstruct/v1/sticker-manifest'')"

definition grace_secs :: "purpose \<Rightarrow> i64 option" where
  "grace_secs p = (case p of SenderCert \<Rightarrow> Some (SENDER_CERT_MAX_LIFETIME_SECS + MAX_DELIVERY_AGE_SECS)
     | KtHead \<Rightarrow> Some 0 | StickerManifest \<Rightarrow> None)"

definition kid_of :: "primitives \<Rightarrow> bytes \<Rightarrow> bytes" where
  "kid_of P public_key = take KID_LEN (sha256 P (KID_LABEL @ public_key))"

record delegation =
  dg_purpose :: purpose
  dg_not_before :: i64
  dg_not_after :: i64
  dg_public_key :: bytes
  dg_root_signature :: bytes

definition delegation_signable :: "purpose \<Rightarrow> i64 \<Rightarrow> i64 \<Rightarrow> bytes \<Rightarrow> bytes" where
  "delegation_signable p not_before not_after public_key =
    DELEGATION_LABEL @ [DELEGATION_VERSION] @ [purpose_byte p] @ u64_to_be not_before @ u64_to_be not_after @ public_key"

definition dg_kid :: "primitives \<Rightarrow> delegation \<Rightarrow> bytes" where
  "dg_kid P d = kid_of P (dg_public_key d)"

definition dg_signable :: "delegation \<Rightarrow> bytes" where
  "dg_signable d = delegation_signable (dg_purpose d) (dg_not_before d) (dg_not_after d) (dg_public_key d)"

definition delegation_encode :: "delegation \<Rightarrow> bytes" where
  "delegation_encode d =
    [DELEGATION_VERSION] @ [purpose_byte (dg_purpose d)] @ u64_to_be (dg_not_before d) @ u64_to_be (dg_not_after d) @
    dg_public_key d @ dg_root_signature d"

datatype trust_error =
    TrustMalformed | NoRoot | NotRooted | UnknownKey | WrongPurpose | OutsideWindow | KeyExpired | BadServerSignature

definition delegation_decode :: "bytes \<Rightarrow> trust_error + delegation" where
  "delegation_decode b =
    (if length b \<noteq> DELEGATION_LEN \<or> b ! 0 \<noteq> DELEGATION_VERSION then Inl TrustMalformed
     else res_bind (ok_or TrustMalformed (purpose_from_byte (b ! 1))) (\<lambda>p.
       (let key_at = 18;
            sig_at = key_at + HYBRID_PUBLIC_KEY_LEN;
            d = \<lparr> dg_purpose = p, dg_not_before = u64_from_be (subslice 2 10 b), dg_not_after = u64_from_be (subslice 10 18 b),
              dg_public_key = subslice key_at sig_at b, dg_root_signature = drop sig_at b \<rparr>
        in if sint (dg_not_after d) \<le> sint (dg_not_before d) then Inl TrustMalformed else Inr d)))"

definition server_signable :: "purpose \<Rightarrow> bytes \<Rightarrow> bytes \<Rightarrow> bytes" where
  "server_signable p kid body = purpose_label p @ kid @ body"

definition put_lp :: "bytes \<Rightarrow> bytes \<Rightarrow> trust_error + bytes" where
  "put_lp out field = (if 65536 \<le> length field then Inl TrustMalformed
     else Inr (out @ u16_to_be (of_nat (length field)) @ field))"

definition sender_cert_body :: "bytes \<Rightarrow> bytes \<Rightarrow> bytes \<Rightarrow> bytes \<Rightarrow> i64 \<Rightarrow> i64 \<Rightarrow> trust_error + bytes" where
  "sender_cert_body user_id domain identity_key device_id issued_at expires_at =
    res_bind (put_lp [] user_id) (\<lambda>b.
    res_bind (put_lp b domain) (\<lambda>b.
    res_bind (put_lp b identity_key) (\<lambda>b.
    res_bind (put_lp b device_id) (\<lambda>b.
      Inr (b @ u64_to_be issued_at @ u64_to_be expires_at)))))"

definition kt_head_body :: "u64 \<Rightarrow> bytes \<Rightarrow> bytes" where
  "kt_head_body tree_size root_hash = u64_to_be tree_size @ root_hash"

definition sticker_manifest_body :: "bytes \<Rightarrow> trust_error + bytes" where
  "sticker_manifest_body canonical = (if 2 ^ 32 \<le> length canonical then Inl TrustMalformed
     else Inr (u32_to_be (of_nat (length canonical)) @ canonical))"

subsection \<open>Roots, delegations and the key ring\<close>

definition issue_delegation ::
    "primitives \<Rightarrow> bytes \<Rightarrow> purpose \<Rightarrow> i64 \<Rightarrow> i64 \<Rightarrow> bytes \<Rightarrow> trust_error + delegation" where
  "issue_delegation P root_private_key p not_before not_after public_key =
    (if length public_key \<noteq> HYBRID_SIG_PUBLIC_KEY_SIZE \<or> sint not_after \<le> sint not_before then Inl TrustMalformed
     else
       (let d = \<lparr> dg_purpose = p, dg_not_before = not_before, dg_not_after = not_after,
          dg_public_key = public_key, dg_root_signature = [] \<rparr>
        in res_bind (map_err (\<lambda>_. TrustMalformed) (hybrid_sign P root_private_key (dg_signable d))) (\<lambda>s.
             Inr (d\<lparr> dg_root_signature := s \<rparr>))))"

definition verify_rooted :: "primitives \<Rightarrow> delegation \<Rightarrow> bytes list \<Rightarrow> trust_error + unit" where
  "verify_rooted P d roots =
    (if roots = [] then Inl NoRoot
     else
       (let message = dg_signable d
        in if list_ex (\<lambda>root. hybrid_verify P root message (dg_root_signature d) = Inr ()) roots then Inr ()
           else Inl NotRooted))"

definition sign_as_server :: "primitives \<Rightarrow> purpose \<Rightarrow> bytes \<Rightarrow> bytes \<Rightarrow> bytes \<Rightarrow> trust_error + bytes" where
  "sign_as_server P p private_key public_key body =
    map_err (\<lambda>_. TrustMalformed) (hybrid_sign P private_key (server_signable p (kid_of P public_key) body))"

record server_key_ring =
  rg_roots :: "bytes list"
  rg_keys :: "delegation list"

definition ring_new :: "bytes list \<Rightarrow> server_key_ring" where
  "ring_new roots = \<lparr> rg_roots = roots, rg_keys = [] \<rparr>"

definition PINNED_ROOTS :: "bytes list" where "PINNED_ROOTS = []"

definition ring_pinned :: server_key_ring where
  "ring_pinned = ring_new (List.map_filter hex_decode PINNED_ROOTS)"

definition has_roots :: "server_key_ring \<Rightarrow> bool" where
  "has_roots ring \<longleftrightarrow> rg_roots ring \<noteq> []"

definition ring_admit :: "primitives \<Rightarrow> bytes \<Rightarrow> server_key_ring \<Rightarrow> (trust_error + bytes) \<times> server_key_ring" where
  "ring_admit P encoded ring =
    (case delegation_decode encoded of
       Inl e \<Rightarrow> (Inl e, ring)
     | Inr d \<Rightarrow>
         (case verify_rooted P d (rg_roots ring) of
            Inl e \<Rightarrow> (Inl e, ring)
          | Inr _ \<Rightarrow>
              (let kid = dg_kid P d
               in (Inr kid,
                   if list_ex (\<lambda>k. dg_kid P k = kid \<and> dg_purpose k = dg_purpose d \<and>
                        dg_not_before k = dg_not_before d \<and> dg_not_after k = dg_not_after d) (rg_keys ring)
                   then ring else ring\<lparr> rg_keys := rg_keys ring @ [d] \<rparr>))))"

text \<open>The greatest of a list of dates, as \<open>Iterator::max\<close>.\<close>

fun latest :: "i64 list \<Rightarrow> i64 option" where
  "latest [] = None"
| "latest (x # xs) = (case latest xs of None \<Rightarrow> Some x | Some y \<Rightarrow> Some (if sint y < sint x then x else y))"

definition ring_verify ::
    "primitives \<Rightarrow> purpose \<Rightarrow> bytes \<Rightarrow> bytes \<Rightarrow> bytes \<Rightarrow> i64 \<Rightarrow> i64 \<Rightarrow> server_key_ring \<Rightarrow> trust_error + unit" where
  "ring_verify P p kid body signature signed_at nw ring =
    (let named = filter (\<lambda>k. dg_kid P k = kid) (rg_keys ring)
     in if named = [] then Inl UnknownKey
        else
          (let for_purpose = filter (\<lambda>k. dg_purpose k = p) named
           in case for_purpose of
                [] \<Rightarrow> Inl WrongPurpose
              | key # _ \<Rightarrow>
                  (let message = server_signable p kid body
                   in res_bind (map_err (\<lambda>_. BadServerSignature) (hybrid_verify P (dg_public_key key) message signature)) (\<lambda>_.
                        (case latest (map dg_not_after
                             (filter (\<lambda>k. sint (dg_not_before k) \<le> sint signed_at \<and> sint signed_at \<le> sint (dg_not_after k)) for_purpose)) of
                           None \<Rightarrow> Inl OutsideWindow
                         | Some not_after \<Rightarrow>
                             (case grace_secs p of
                                Some grace \<Rightarrow>
                                  if sint (i64_sat_add not_after grace) < sint nw then Inl KeyExpired else Inr ()
                              | None \<Rightarrow> Inr ()))))))"

subsection \<open>The format reads back what it writes\<close>

lemma purpose_from_byte_iff: "purpose_from_byte b = Some p \<longleftrightarrow> b = purpose_byte p"
  by (cases p) (auto simp: purpose_from_byte_def purpose_all_def purpose_byte_def split: if_splits)

lemma purpose_byte_inj: "purpose_byte p = purpose_byte q \<longleftrightarrow> p = q"
  by (metis purpose_from_byte_iff option.inject)

lemma delegation_decode_encode:
  assumes "length (dg_public_key d) = HYBRID_PUBLIC_KEY_LEN" "length (dg_root_signature d) = HYBRID_SIGNATURE_LEN"
    and "sint (dg_not_before d) < sint (dg_not_after d)"
  shows "delegation_decode (delegation_encode d) = Inr d"
proof -
  have p: "purpose_from_byte (purpose_byte (dg_purpose d)) = Some (dg_purpose d)" by (simp add: purpose_from_byte_iff)
  have "length (delegation_encode d) = DELEGATION_LEN" using assms(1,2) by (simp add: delegation_encode_def trust_sizes)
  moreover have "delegation_encode d ! 0 = DELEGATION_VERSION" "delegation_encode d ! 1 = purpose_byte (dg_purpose d)"
    by (simp_all add: delegation_encode_def)
  moreover have "subslice 2 10 (delegation_encode d) = u64_to_be (dg_not_before d)"
    "subslice 10 18 (delegation_encode d) = u64_to_be (dg_not_after d)"
    "subslice 18 (18 + HYBRID_PUBLIC_KEY_LEN) (delegation_encode d) = dg_public_key d"
    "drop (18 + HYBRID_PUBLIC_KEY_LEN) (delegation_encode d) = dg_root_signature d"
    using assms(1,2) by (simp_all add: delegation_encode_def subslice_def trust_sizes)
  ultimately show ?thesis using assms(3) p by (simp add: delegation_decode_def Let_def)
qed

lemma put_lp_iff: "put_lp out f = Inr b \<longleftrightarrow> length f < 65536 \<and> b = out @ u16_to_be (of_nat (length f)) @ f"
  by (auto simp: put_lp_def)

lemma length_prefix_inj:
  assumes "u16_to_be (of_nat (length f)) @ f @ r = u16_to_be (of_nat (length g)) @ g @ s"
    and "length f < 65536" "length g < 65536"
  shows "f = g \<and> r = s"
proof -
  have "u16_to_be (of_nat (length f)) = u16_to_be (of_nat (length g)) \<and> f @ r = g @ s"
    using assms(1) by (subst (asm) append_eq_append_conv) simp_all
  then have u: "(of_nat (length f) :: u16) = of_nat (length g)" and e: "f @ r = g @ s"
    by (metis int_codec_roundtrip(4), simp)
  have "length f = length g"
    using arg_cong [OF u, of unat] assms(2,3) by (simp add: unat_of_nat)
  then show ?thesis using e by simp
qed

lemma sender_cert_body_inj:
  assumes "sender_cert_body u d i v a e = Inr b" "sender_cert_body u' d' i' v' a' e' = Inr b"
  shows "u = u' \<and> d = d' \<and> i = i' \<and> v = v' \<and> a = a' \<and> e = e'"
proof -
  let ?l = "\<lambda>f. u16_to_be (of_nat (length f)) @ f"
  have b: "b = ?l u @ ?l d @ ?l i @ ?l v @ u64_to_be a @ u64_to_be e" "b = ?l u' @ ?l d' @ ?l i' @ ?l v' @ u64_to_be a' @ u64_to_be e'"
    and s: "length u < 65536" "length d < 65536" "length i < 65536" "length v < 65536"
      "length u' < 65536" "length d' < 65536" "length i' < 65536" "length v' < 65536"
    using assms by (auto simp: sender_cert_body_def put_lp_iff result_iffs)
  have e0: "?l u @ ?l d @ ?l i @ ?l v @ u64_to_be a @ u64_to_be e = ?l u' @ ?l d' @ ?l i' @ ?l v' @ u64_to_be a' @ u64_to_be e'"
    using b by simp
  have e1: "u = u' \<and> ?l d @ ?l i @ ?l v @ u64_to_be a @ u64_to_be e = ?l d' @ ?l i' @ ?l v' @ u64_to_be a' @ u64_to_be e'"
    using length_prefix_inj [OF e0 [unfolded append.assoc] s(1,5)] by simp
  have e2: "d = d' \<and> ?l i @ ?l v @ u64_to_be a @ u64_to_be e = ?l i' @ ?l v' @ u64_to_be a' @ u64_to_be e'"
    using length_prefix_inj [OF conjunct2 [OF e1, unfolded append.assoc] s(2,6)] by simp
  have e3: "i = i' \<and> ?l v @ u64_to_be a @ u64_to_be e = ?l v' @ u64_to_be a' @ u64_to_be e'"
    using length_prefix_inj [OF conjunct2 [OF e2, unfolded append.assoc] s(3,7)] by simp
  have e4: "v = v' \<and> u64_to_be a @ u64_to_be e = u64_to_be a' @ u64_to_be e'"
    using length_prefix_inj [OF conjunct2 [OF e3, unfolded append.assoc] s(4,8)] by simp
  have "u64_to_be a = u64_to_be a' \<and> u64_to_be e = u64_to_be e'" using e4 by simp
  then have "a = a' \<and> e = e'" by (metis int_codec_roundtrip(6))
  then show ?thesis using e1 e2 e3 e4 by blast
qed

lemma label_append_inj: "purpose_label p @ r = purpose_label q @ s \<longleftrightarrow> p = q \<and> r = s"
  by (cases p; cases q) (simp_all add: purpose_label_def ascii_def)

lemma label_not_delegation: "purpose_label p @ r \<noteq> DELEGATION_LABEL @ s"
  by (cases p) (simp_all add: purpose_label_def DELEGATION_LABEL_def ascii_def)

lemma server_signable_inj:
  assumes "length kid = length kid'" "server_signable p kid body = server_signable p' kid' body'"
  shows "p = p' \<and> kid = kid' \<and> body = body'"
  using assms by (simp add: server_signable_def label_append_inj)

subsection \<open>What a ring has admitted\<close>

lemma latest_None: "latest xs = None \<longleftrightarrow> xs = []"
  by (cases xs) (simp_all split: option.splits)

lemma latest_SomeD: "latest xs = Some m \<Longrightarrow> m \<in> set xs \<and> (\<forall>x\<in>set xs. sint x \<le> sint m)"
proof (induction xs arbitrary: m)
  case (Cons a xs)
  show ?case
  proof (cases "latest xs")
    case None
    then have "xs = []" by (simp add: latest_None)
    then show ?thesis using Cons.prems by simp
  next
    case (Some y)
    then show ?thesis using Cons.IH [OF Some] Cons.prems by (auto split: if_splits)
  qed
qed simp

definition admit_all :: "primitives \<Rightarrow> bytes list \<Rightarrow> server_key_ring \<Rightarrow> server_key_ring" where
  "admit_all P es ring = fold (\<lambda>e r. snd (ring_admit P e r)) es ring"

lemma admit_roots [simp]: "rg_roots (snd (ring_admit P e r)) = rg_roots r"
  by (simp add: ring_admit_def Let_def split: sum.splits)

lemma admit_all_roots [simp]: "rg_roots (admit_all P es (ring_new roots)) = roots"
proof -
  have "rg_roots (fold (\<lambda>e r. snd (ring_admit P e r)) es r) = rg_roots r" for r by (induction es arbitrary: r) simp_all
  then show ?thesis by (simp add: admit_all_def ring_new_def)
qed

lemma admit_keys:
  "rg_keys (snd (ring_admit P e r)) = rg_keys r \<or>
    (\<exists>d. delegation_decode e = Inr d \<and> verify_rooted P d (rg_roots r) = Inr () \<and> rg_keys (snd (ring_admit P e r)) = rg_keys r @ [d])"
  by (auto simp: ring_admit_def Let_def split: sum.splits)

lemma admitted_rooted:
  "k \<in> set (rg_keys (admit_all P es (ring_new roots))) \<Longrightarrow>
    (\<exists>e\<in>set es. delegation_decode e = Inr k) \<and> verify_rooted P k roots = Inr ()"
proof (induction es rule: rev_induct)
  case Nil
  then show ?case by (simp add: admit_all_def ring_new_def)
next
  case (snoc e es)
  have "rg_roots (admit_all P es (ring_new roots)) = roots" by simp
  then show ?case using snoc admit_keys [of P e "admit_all P es (ring_new roots)"]
    unfolding admit_all_def by auto
qed

definition same_grant :: "primitives \<Rightarrow> delegation \<Rightarrow> delegation \<Rightarrow> bool" where
  "same_grant P k d \<longleftrightarrow> dg_kid P k = dg_kid P d \<and> dg_purpose k = dg_purpose d \<and>
    dg_not_before k = dg_not_before d \<and> dg_not_after k = dg_not_after d"

lemma admitted_kept:
  assumes "delegation_decode e = Inr d" "verify_rooted P d roots = Inr ()"
  shows "e \<in> set es \<Longrightarrow> \<exists>k\<in>set (rg_keys (admit_all P es (ring_new roots))). same_grant P k d"
proof (induction es rule: rev_induct)
  case (snoc x es)
  let ?r = "admit_all P es (ring_new roots)"
  have all: "admit_all P (es @ [x]) (ring_new roots) = snd (ring_admit P x ?r)" by (simp add: admit_all_def)
  have sub: "set (rg_keys ?r) \<subseteq> set (rg_keys (snd (ring_admit P x ?r)))" using admit_keys [of P x ?r] by auto
  show ?case
  proof (cases "x = e")
    case True
    then show ?thesis unfolding all using assms
      by (auto simp: ring_admit_def Let_def same_grant_def list_ex_iff)
  next
    case False
    then show ?thesis using snoc sub unfolding all by auto
  qed
qed simp

lemma verify_rooted_iff: "verify_rooted P d roots = Inr () \<longleftrightarrow>
    (\<exists>root\<in>set roots. hybrid_verify P root (dg_signable d) (dg_root_signature d) = Inr ())"
  by (auto simp: verify_rooted_def Let_def list_ex_iff)

definition grants :: "primitives \<Rightarrow> purpose \<Rightarrow> bytes \<Rightarrow> delegation \<Rightarrow> bool" where
  "grants P p kid k \<longleftrightarrow> dg_kid P k = kid \<and> dg_purpose k = p"

definition in_window :: "i64 \<Rightarrow> delegation \<Rightarrow> bool" where
  "in_window t k \<longleftrightarrow> sint (dg_not_before k) \<le> sint t \<and> sint t \<le> sint (dg_not_after k)"

definition within_grace :: "purpose \<Rightarrow> i64 \<Rightarrow> delegation \<Rightarrow> bool" where
  "within_grace p nw k \<longleftrightarrow> (case grace_secs p of None \<Rightarrow> True | Some g \<Rightarrow> sint nw \<le> sint (i64_sat_add (dg_not_after k) g))"

lemma within_grace_mono:
  "within_grace p nw k \<Longrightarrow> sint (dg_not_after k) \<le> sint (dg_not_after w) \<Longrightarrow> within_grace p nw w"
  by (simp add: within_grace_def sint_i64_sat_add split: option.splits)

lemma ring_verify_iff:
  "ring_verify P p kid body s t nw ring = Inr () \<longleftrightarrow>
    (\<exists>key rest. filter (grants P p kid) (rg_keys ring) = key # rest \<and>
      hybrid_verify P (dg_public_key key) (server_signable p kid body) s = Inr ()) \<and>
    (\<exists>w\<in>set (rg_keys ring). grants P p kid w \<and> in_window t w \<and> within_grace p nw w)"
proof -
  let ?n = "filter (\<lambda>k. dg_kid P k = kid) (rg_keys ring)"
  have f: "filter (\<lambda>k. dg_purpose k = p) ?n = filter (grants P p kid) (rg_keys ring)"
    unfolding filter_filter by (rule filter_cong) (auto simp: grants_def)
  let ?ws = "filter (in_window t) (filter (grants P p kid) (rg_keys ring))"
  have win: "filter (\<lambda>k. sint (dg_not_before k) \<le> sint t \<and> sint t \<le> sint (dg_not_after k)) xs = filter (in_window t) xs" for xs
    by (simp add: in_window_def [abs_def])
  have lat: "(case latest (map dg_not_after ?ws) of None \<Rightarrow> Inl OutsideWindow
      | Some na \<Rightarrow> (case grace_secs p of Some g \<Rightarrow> if sint (i64_sat_add na g) < sint nw then Inl KeyExpired else Inr () | None \<Rightarrow> Inr ())) = Inr ()
      \<longleftrightarrow> (\<exists>w\<in>set ?ws. within_grace p nw w)" (is "?L = _ \<longleftrightarrow> _")
  proof (cases "latest (map dg_not_after ?ws)")
    case None
    then show ?thesis by (simp add: latest_None)
  next
    case (Some na)
    then obtain m where m: "m \<in> set ?ws" "na = dg_not_after m" "\<forall>w\<in>set ?ws. sint (dg_not_after w) \<le> sint na"
      using latest_SomeD [OF Some] by auto
    have "?L = Inr () \<longleftrightarrow> within_grace p nw m"
      unfolding Some by (auto simp: within_grace_def m(2) not_less split: option.splits)
    also have "\<dots> \<longleftrightarrow> (\<exists>w\<in>set ?ws. within_grace p nw w)"
      using m within_grace_mono by metis
    finally show ?thesis .
  qed
  show ?thesis
  proof (cases "filter (grants P p kid) (rg_keys ring)")
    case Nil
    then show ?thesis unfolding ring_verify_def Let_def f by simp
  next
    case (Cons key rest)
    then have "?n \<noteq> []" using f by force
    then have "ring_verify P p kid body s t nw ring = Inr () \<longleftrightarrow>
        hybrid_verify P (dg_public_key key) (server_signable p kid body) s = Inr () \<and> (\<exists>w\<in>set ?ws. within_grace p nw w)"
      unfolding ring_verify_def Let_def f win lat [symmetric] using Cons by (simp add: result_iffs)
    moreover have "set ?ws = {w \<in> set (rg_keys ring). grants P p kid w \<and> in_window t w}" by auto
    ultimately show ?thesis using Cons by auto
  qed
qed

subsection \<open>Delegations of a root\<close>

lemma issuedD:
  assumes "ed25519_correct P" "mldsa65_correct P" "hybrid_pair P root_sk root"
    and "issue_delegation P root_sk p not_before not_after pk = Inr d"
  shows "delegation_decode (delegation_encode d) = Inr d"
    "hybrid_verify P root (dg_signable d) (dg_root_signature d) = Inr ()"
    "dg_purpose d = p" "dg_not_before d = not_before" "dg_not_after d = not_after" "dg_public_key d = pk"
proof -
  obtain rs where rs: "hybrid_sign P root_sk (delegation_signable p not_before not_after pk) = Inr rs"
    "d = \<lparr> dg_purpose = p, dg_not_before = not_before, dg_not_after = not_after, dg_public_key = pk, dg_root_signature = rs \<rparr>"
    and nb: "sint not_before < sint not_after" "length pk = HYBRID_SIG_PUBLIC_KEY_SIZE"
    using assms(4) by (auto simp: issue_delegation_def Let_def dg_signable_def result_iffs split: if_splits)
  note rv = hybrid_sign_verify [OF assms(1-3) rs(1)]
  show "delegation_decode (delegation_encode d) = Inr d"
    using nb rv(2) by (intro delegation_decode_encode) (simp_all add: rs(2) trust_sizes hybrid_sizes)
  show "hybrid_verify P root (dg_signable d) (dg_root_signature d) = Inr ()"
    using rv(1) by (simp add: rs(2) dg_signable_def)
  show "dg_purpose d = p" "dg_not_before d = not_before" "dg_not_after d = not_after" "dg_public_key d = pk"
    by (simp_all add: rs(2))
qed

lemma issued_key_accepted:
  assumes "ed25519_correct P" "mldsa65_correct P" "hybrid_pair P root_sk root" "hybrid_pair P sk pk" "root \<in> set roots"
    and "issue_delegation P root_sk p not_before not_after pk = Inr d"
    and "delegation_encode d \<in> set offered"
    and "\<forall>k\<in>set (rg_keys (admit_all P offered (ring_new roots))). dg_kid P k = kid_of P pk \<longrightarrow> dg_public_key k = pk"
    and "sign_as_server P p sk pk body = Inr s"
    and "sint not_before \<le> sint signed_at" "sint signed_at \<le> sint not_after"
    and "case grace_secs p of None \<Rightarrow> True | Some g \<Rightarrow> sint nw \<le> sint (i64_sat_add not_after g)"
  shows "ring_verify P p (kid_of P pk) body s signed_at nw (admit_all P offered (ring_new roots)) = Inr ()"
proof -
  let ?ks = "rg_keys (admit_all P offered (ring_new roots))"
  note d = issuedD [OF assms(1-3,6)]
  have "verify_rooted P d roots = Inr ()" using d(2) assms(5) unfolding verify_rooted_iff by blast
  then obtain w where w: "w \<in> set ?ks" "same_grant P w d" using admitted_kept [OF d(1)] assms(7) by blast
  have g: "grants P p (kid_of P pk) w" "in_window signed_at w" "within_grace p nw w"
    using w(2) assms(10-12) d(3-6)
    by (auto simp: same_grant_def grants_def in_window_def within_grace_def dg_kid_def split: option.splits)
  obtain key rest where k: "filter (grants P p (kid_of P pk)) ?ks = key # rest"
    using w(1) g(1) by (cases "filter (grants P p (kid_of P pk)) ?ks") (auto simp: filter_empty_conv)
  have "key \<in> set (filter (grants P p (kid_of P pk)) ?ks)" by (simp add: k)
  then have "dg_public_key key = pk" using assms(8) by (simp add: grants_def)
  moreover have "hybrid_verify P pk (server_signable p (kid_of P pk) body) s = Inr ()"
    using hybrid_sign_verify(1) [OF assms(1,2,4)] assms(9) by (auto simp: sign_as_server_def map_err_eq_Inr)
  ultimately show ?thesis unfolding ring_verify_iff using k w(1) g by auto
qed

text \<open>
  C27.  Only rooted keys vouch.  Whatever delegations a ring is offered, in whatever order, genuine or not, a server
  signature it accepts was made by a key that one of those delegations grants for that very purpose under that very
  id, at a date inside the window of such a grant, no longer than the grace of the purpose before now; and each of
  these grants carries the signature of one of the pinned roots.  A ring with no roots accepts nothing.
\<close>

theorem only_rooted_keys_vouch:
  assumes "ring_verify P p kid body s signed_at nw (admit_all P offered (ring_new roots)) = Inr ()"
  shows "\<exists>key w. \<exists>root\<in>set roots. \<exists>root'\<in>set roots.
    hybrid_verify P (dg_public_key key) (server_signable p kid body) s = Inr () \<and>
    (\<exists>e\<in>set offered. delegation_decode e = Inr key) \<and> grants P p kid key \<and>
    hybrid_verify P root (dg_signable key) (dg_root_signature key) = Inr () \<and>
    (\<exists>e\<in>set offered. delegation_decode e = Inr w) \<and> grants P p kid w \<and>
    hybrid_verify P root' (dg_signable w) (dg_root_signature w) = Inr () \<and>
    in_window signed_at w \<and> within_grace p nw w"
proof -
  let ?ks = "rg_keys (admit_all P offered (ring_new roots))"
  obtain key rest w where k: "filter (grants P p kid) ?ks = key # rest"
    and v: "hybrid_verify P (dg_public_key key) (server_signable p kid body) s = Inr ()"
    and w: "w \<in> set ?ks" "grants P p kid w" "in_window signed_at w" "within_grace p nw w"
    using assms unfolding ring_verify_iff by blast
  have "key \<in> set (filter (grants P p kid) ?ks)" by (simp add: k)
  then have key: "key \<in> set ?ks" "grants P p kid key" by simp_all
  show ?thesis
    using v w key(2) admitted_rooted [OF key(1)] admitted_rooted [OF w(1)] unfolding verify_rooted_iff by blast
qed

text \<open>
  C28.  A delegated key works.  A root pinned in the ring delegates a server key for a purpose; the delegation, as
  encoded, is among those offered to the ring, before or after any others.  Then what the server key signs inside
  the window is accepted until the grace of the purpose has passed, provided no other key among the admitted ones
  has the same id.
\<close>

theorem delegated_key_vouches:
  assumes "ed25519_correct P" "mldsa65_correct P" "hybrid_pair P root_sk root" "hybrid_pair P sk pk" "root \<in> set roots"
    and "issue_delegation P root_sk p not_before not_after pk = Inr d"
    and "delegation_encode d \<in> set offered"
    and "\<forall>k\<in>set (rg_keys (admit_all P offered (ring_new roots))). dg_kid P k = kid_of P pk \<longrightarrow> dg_public_key k = pk"
    and "sign_as_server P p sk pk body = Inr s"
    and "sint not_before \<le> sint signed_at" "sint signed_at \<le> sint not_after"
    and "case grace_secs p of None \<Rightarrow> True | Some g \<Rightarrow> sint nw \<le> sint (i64_sat_add not_after g)"
  shows "ring_verify P p (kid_of P pk) body s signed_at nw (admit_all P offered (ring_new roots)) = Inr ()"
  by (rule issued_key_accepted [OF assms])

text \<open>
  C29.  No signature says two things.  The bytes a root signs are never the bytes a server key signs; two statements
  a root signs with the same bytes grant the same key for the same purpose and window; and two statements server keys
  sign with the same bytes are for the same purpose, under the same key id, with the same body, whose fields, for a
  sender certificate, are all the same.
\<close>

theorem server_statements_distinct:
  assumes "length kid = KID_LEN" "length kid' = KID_LEN"
  shows "server_signable p kid body \<noteq> delegation_signable q nb na pk \<and>
    (delegation_signable q nb na pk = delegation_signable q' nb' na' pk' \<longrightarrow> q = q' \<and> nb = nb' \<and> na = na' \<and> pk = pk') \<and>
    (server_signable p kid body = server_signable p' kid' body' \<longrightarrow> p = p' \<and> kid = kid' \<and> body = body' \<and>
      (sender_cert_body u d i v a e = Inr body \<longrightarrow> sender_cert_body u' d' i' v' a' e' = Inr body' \<longrightarrow>
        u = u' \<and> d = d' \<and> i = i' \<and> v = v' \<and> a = a' \<and> e = e'))"
proof (intro conjI impI)
  show "server_signable p kid body \<noteq> delegation_signable q nb na pk"
    unfolding server_signable_def delegation_signable_def by (rule label_not_delegation)
next
  assume "delegation_signable q nb na pk = delegation_signable q' nb' na' pk'"
  then have "purpose_byte q = purpose_byte q' \<and> u64_to_be nb = u64_to_be nb' \<and> u64_to_be na = u64_to_be na' \<and> pk = pk'"
    by (simp add: delegation_signable_def)
  then show "q = q'" "nb = nb'" "na = na'" "pk = pk'" by (metis purpose_byte_inj int_codec_roundtrip(6))+
next
  assume s: "server_signable p kid body = server_signable p' kid' body'"
  have i: "p = p' \<and> kid = kid' \<and> body = body'" using server_signable_inj [OF _ s] assms by simp
  then show "p = p'" "kid = kid'" "body = body'" by simp_all
  assume "sender_cert_body u d i v a e = Inr body" "sender_cert_body u' d' i' v' a' e' = Inr body'"
  then show "u = u'" "d = d'" "i = i'" "v = v'" "a = a'" "e = e'" using sender_cert_body_inj i by blast+
qed


definition sample_ring_case :: "delegation \<Rightarrow> bytes \<Rightarrow> bool" where
  "sample_ring_case d s \<longleftrightarrow>
    issue_delegation sample_primitives (fst sample_hybrid_keys) SenderCert 100 200 (snd sample_hybrid_keys) = Inr d \<and>
    sign_as_server sample_primitives SenderCert (fst sample_hybrid_keys) (snd sample_hybrid_keys) [7] = Inr s"

lemma sample_ring_case_exists: "\<exists>d s. sample_ring_case d s"
proof -
  have pk: "length (snd sample_hybrid_keys) = HYBRID_SIG_PUBLIC_KEY_SIZE"
    by (rule hybrid_pair_public(3) [OF sample_mldsa65_correct sample_ed25519_correct sample_hybrid_pair])
  obtain f where "hybrid_sign sample_primitives (fst sample_hybrid_keys) m = Inr (f m)" for m
    using hybrid_sign_sample by metis
  then show ?thesis using pk by (simp add: sample_ring_case_def issue_delegation_def sign_as_server_def)
qed

lemma sample_ring_case_alone:
  assumes "sample_ring_case d s"
  shows "\<forall>k\<in>set (rg_keys (admit_all sample_primitives [[0], delegation_encode d] (ring_new [snd sample_hybrid_keys]))).
    dg_kid sample_primitives k = kid_of sample_primitives (snd sample_hybrid_keys) \<longrightarrow> dg_public_key k = snd sample_hybrid_keys"
proof -
  have d: "delegation_decode (delegation_encode d) = Inr d" "dg_public_key d = snd sample_hybrid_keys"
    using issuedD(1,6) [OF sample_ed25519_correct sample_mldsa65_correct sample_hybrid_pair] assms
    unfolding sample_ring_case_def by blast+
  have "delegation_decode [0] = Inl TrustMalformed" by (simp add: delegation_decode_def trust_sizes)
  then show ?thesis
    using admitted_rooted [of _ sample_primitives "[[0], delegation_encode d]" "[snd sample_hybrid_keys]"] d by fastforce
qed

lemma sample_ring_times:
  "sint (100::i64) \<le> sint (150::i64)" "sint (150::i64) \<le> sint (200::i64)"
  "case grace_secs SenderCert of None \<Rightarrow> True | Some g \<Rightarrow> sint (900::i64) \<le> sint (i64_sat_add 200 g)"
  by (simp_all add: grace_secs_def sint_i64_sat_add SENDER_CERT_MAX_LIFETIME_SECS_def MAX_DELIVERY_AGE_SECS_def)

theorem only_rooted_keys_vouch_witness:
  "\<exists>d s key. \<exists>root\<in>{snd sample_hybrid_keys}.
    ring_verify sample_primitives SenderCert (kid_of sample_primitives (snd sample_hybrid_keys)) [7] s 150 900
      (admit_all sample_primitives [[0], delegation_encode d] (ring_new [snd sample_hybrid_keys])) = Inr () \<and>
    hybrid_verify sample_primitives root (dg_signable key) (dg_root_signature key) = Inr () \<and>
    hybrid_verify sample_primitives (dg_public_key key)
      (server_signable SenderCert (kid_of sample_primitives (snd sample_hybrid_keys)) [7]) s = Inr ()"
proof -
  obtain d s where c: "sample_ring_case d s" using sample_ring_case_exists by blast
  have r: "snd sample_hybrid_keys \<in> set [snd sample_hybrid_keys]" "delegation_encode d \<in> set [[0], delegation_encode d]" by simp_all
  have a: "ring_verify sample_primitives SenderCert (kid_of sample_primitives (snd sample_hybrid_keys)) [7] s 150 900
      (admit_all sample_primitives [[0], delegation_encode d] (ring_new [snd sample_hybrid_keys])) = Inr ()"
    using issued_key_accepted [OF sample_ed25519_correct sample_mldsa65_correct sample_hybrid_pair sample_hybrid_pair r(1)
      conjunct1 [OF c [unfolded sample_ring_case_def]] r(2) sample_ring_case_alone [OF c]
      conjunct2 [OF c [unfolded sample_ring_case_def]] sample_ring_times] .
  show ?thesis using a only_rooted_keys_vouch [OF a] by (metis empty_set insertI1 list.simps(15))
qed

theorem delegated_key_vouches_witness:
  "\<exists>d s. sample_ring_case d s \<and>
    ring_verify sample_primitives SenderCert (kid_of sample_primitives (snd sample_hybrid_keys)) [7] s 150 900
      (admit_all sample_primitives [[0], delegation_encode d] (ring_new [snd sample_hybrid_keys])) = Inr ()"
proof -
  obtain d s where c: "sample_ring_case d s" using sample_ring_case_exists by blast
  have r: "snd sample_hybrid_keys \<in> set [snd sample_hybrid_keys]" "delegation_encode d \<in> set [[0], delegation_encode d]" by simp_all
  show ?thesis
    using c delegated_key_vouches [OF sample_ed25519_correct sample_mldsa65_correct sample_hybrid_pair sample_hybrid_pair r(1)
      conjunct1 [OF c [unfolded sample_ring_case_def]] r(2) sample_ring_case_alone [OF c]
      conjunct2 [OF c [unfolded sample_ring_case_def]] sample_ring_times] by blast
qed

theorem server_statements_distinct_witness:
  "server_signable SenderCert (replicate 16 1) [] \<noteq> delegation_signable KtHead 1 2 [3]"
  using server_statements_distinct [of "replicate 16 1" "replicate 16 1" SenderCert "[]" KtHead 1 2 "[3]"]
  by (simp add: KID_LEN_def)

end
