(* ===== verification/Sender_Certificate.thy ===== *)
theory Sender_Certificate
  imports Server_Trust
begin

text \<open>
  Device ids (\<open>src/device_id.rs\<close>) and the checks of a sender certificate
  (\<open>src/crypto/sealed_sender/mod.rs\<close>): which certificates may open a session.
\<close>

subsection \<open>Device ids\<close>

definition derive_device_id_bytes :: "primitives \<Rightarrow> bytes \<Rightarrow> bytes" where
  "derive_device_id_bytes P identity_public = take 16 (sha256 P identity_public)"

definition derive_device_id :: "primitives \<Rightarrow> bytes \<Rightarrow> bytes" where
  "derive_device_id P identity_public = hex_encode (derive_device_id_bytes P identity_public)"

definition format_federated_id :: "bytes \<Rightarrow> bytes \<Rightarrow> bytes" where
  "format_federated_id device_id server_hostname = device_id @ ascii ''@'' @ server_hostname"

text \<open>\<open>str::split\<close> at one character.\<close>

fun split_at_char :: "u8 \<Rightarrow> bytes \<Rightarrow> bytes list" where
  "split_at_char c [] = [[]]"
| "split_at_char c (b # bs) =
    (if b = c then [] # split_at_char c bs
     else (case split_at_char c bs of p # ps \<Rightarrow> (b # p) # ps | [] \<Rightarrow> [[b]]))"

definition parse_federated_id :: "bytes \<Rightarrow> (bytes \<times> bytes) option" where
  "parse_federated_id federated_id =
    (case split_at_char 64 federated_id of [device_id, hostname] \<Rightarrow> Some (device_id, hostname) | _ \<Rightarrow> None)"

lemma split_at_char_free: "c \<notin> set xs \<Longrightarrow> split_at_char c xs = [xs]"
  by (induction xs) auto

lemma split_at_char_append: "c \<notin> set xs \<Longrightarrow> split_at_char c (xs @ c # ys) = xs # split_at_char c ys"
  by (induction xs) auto

lemma parse_format_federated_id:
  "64 \<notin> set d \<Longrightarrow> 64 \<notin> set h \<Longrightarrow> parse_federated_id (format_federated_id d h) = Some (d, h)"
  by (simp add: parse_federated_id_def format_federated_id_def ascii_def split_at_char_append split_at_char_free)

subsection \<open>Sender certificates\<close>

definition build_cert_sign_payload :: "bytes \<Rightarrow> bytes \<Rightarrow> bytes \<Rightarrow> bytes \<Rightarrow> i64 \<Rightarrow> i64 \<Rightarrow> bytes" where
  "build_cert_sign_payload user_id domain identity_key device_id issued_at expires_at =
    user_id @ domain @ identity_key @ device_id @ u64_to_be issued_at @ u64_to_be expires_at"

definition verify_sender_cert ::
    "primitives \<Rightarrow> bytes \<Rightarrow> bytes \<Rightarrow> bytes \<Rightarrow> bytes \<Rightarrow> i64 \<Rightarrow> i64 \<Rightarrow> bytes \<Rightarrow> bytes \<Rightarrow> bool" where
  "verify_sender_cert P user_id domain identity_key device_id issued_at expires_at signature server_verifying_key =
    (if length server_verifying_key \<noteq> 32 then False
     else if \<not> ed25519_vk_ok P server_verifying_key then False
     else if length signature \<noteq> 64 then False
     else ed25519_check P server_verifying_key
       (build_cert_sign_payload user_id domain identity_key device_id issued_at expires_at) signature)"

record sender_certificate =
  sc_user_id :: bytes
  sc_domain :: bytes
  sc_identity_key :: bytes
  sc_device_id :: bytes
  sc_issued_at :: i64
  sc_expires_at :: i64
  sc_signature :: bytes
  sc_server_kid :: bytes
  sc_server_signature_hybrid :: bytes

record server_trust =
  tr_legacy_keys :: "bytes list"
  tr_ring :: server_key_ring

definition trust_pinned :: server_trust where
  "trust_pinned = \<lparr> tr_legacy_keys = [], tr_ring = ring_pinned \<rparr>"

definition with_legacy_keys :: "bytes list \<Rightarrow> server_trust" where
  "with_legacy_keys keys = trust_pinned\<lparr> tr_legacy_keys := keys \<rparr>"

definition trust_has_roots :: "server_trust \<Rightarrow> bool" where
  "trust_has_roots trust = has_roots (tr_ring trust)"

definition HYBRID_REQUIRED :: bool where "HYBRID_REQUIRED = False"

datatype sender_refusal = NoTrustedKey | BadSignature | DeviceMismatch | CertExpired

definition check_hybrid :: "primitives \<Rightarrow> sender_certificate \<Rightarrow> server_key_ring \<Rightarrow> i64 \<Rightarrow> sender_refusal + unit" where
  "check_hybrid P c ring now_secs =
    (if length (sc_server_kid c) \<noteq> KID_LEN then Inl BadSignature
     else
       (let lifetime = i64_sat_sub (sc_expires_at c) (sc_issued_at c)
        in if \<not> (0 \<le> sint lifetime \<and> sint lifetime \<le> sint SENDER_CERT_MAX_LIFETIME_SECS) then Inl BadSignature
           else (case sender_cert_body (sc_user_id c) (sc_domain c) (sc_identity_key c) (sc_device_id c)
                   (sc_issued_at c) (sc_expires_at c) of
             Inl _ \<Rightarrow> Inl BadSignature
           | Inr body \<Rightarrow>
               (case ring_verify P SenderCert (sc_server_kid c) body (sc_server_signature_hybrid c)
                   (sc_issued_at c) now_secs ring of
                  Inr _ \<Rightarrow> Inr ()
                | Inl UnknownKey \<Rightarrow> Inl NoTrustedKey
                | Inl KeyExpired \<Rightarrow> Inl CertExpired
                | Inl _ \<Rightarrow> Inl BadSignature))))"

definition legacy_signed :: "primitives \<Rightarrow> sender_certificate \<Rightarrow> bytes \<Rightarrow> bool" where
  "legacy_signed P c key = verify_sender_cert P (sc_user_id c) (sc_domain c) (sc_identity_key c) (sc_device_id c)
     (sc_issued_at c) (sc_expires_at c) (sc_signature c) key"

definition check_signature :: "primitives \<Rightarrow> sender_certificate \<Rightarrow> server_trust \<Rightarrow> i64 \<Rightarrow> sender_refusal + unit" where
  "check_signature P c trust now_secs =
    (if trust_has_roots trust \<and> sc_server_signature_hybrid c \<noteq> [] then check_hybrid P c (tr_ring trust) now_secs
     else if trust_has_roots trust \<and> HYBRID_REQUIRED then Inl BadSignature
     else if tr_legacy_keys trust = [] then Inl NoTrustedKey
     else if list_ex (legacy_signed P c) (tr_legacy_keys trust) then Inr ()
     else Inl BadSignature)"

definition identity_for_opening ::
    "primitives \<Rightarrow> sender_certificate \<Rightarrow> server_trust \<Rightarrow> i64 \<Rightarrow> sender_refusal + bytes" where
  "identity_for_opening P c trust now_secs =
    res_bind (case check_signature P c trust now_secs of
        Inr _ \<Rightarrow> Inr False
      | Inl CertExpired \<Rightarrow> Inr True
      | Inl e \<Rightarrow> Inl e) (\<lambda>lapsed.
      if length (sc_identity_key c) \<noteq> 32 \<or> derive_device_id P (sc_identity_key c) \<noteq> sc_device_id c then Inl DeviceMismatch
      else if lapsed \<or> sint (i64_sat_add (sc_expires_at c) MAX_DELIVERY_AGE_SECS) \<le> sint now_secs then Inl CertExpired
      else Inr (sc_identity_key c))"

datatype certificate_verdict = Vouched | NoKey | VerdictBadSignature | VerdictExpired

definition verdict :: "primitives \<Rightarrow> sender_certificate \<Rightarrow> server_trust \<Rightarrow> i64 \<Rightarrow> certificate_verdict" where
  "verdict P c trust now_secs = (case identity_for_opening P c trust now_secs of
     Inr _ \<Rightarrow> Vouched
   | Inl NoTrustedKey \<Rightarrow> NoKey
   | Inl CertExpired \<Rightarrow> VerdictExpired
   | Inl BadSignature \<Rightarrow> VerdictBadSignature
   | Inl DeviceMismatch \<Rightarrow> VerdictBadSignature)"

subsection \<open>What a certificate that opens a session has behind it\<close>

definition ring_vouches :: "primitives \<Rightarrow> sender_certificate \<Rightarrow> server_key_ring \<Rightarrow> i64 \<Rightarrow> bool" where
  "ring_vouches P c ring t \<longleftrightarrow> length (sc_server_kid c) = KID_LEN \<and>
    sint (sc_issued_at c) \<le> sint (sc_expires_at c) \<and> sint (sc_expires_at c) - sint (sc_issued_at c) \<le> 86400 \<and>
    (\<exists>body. sender_cert_body (sc_user_id c) (sc_domain c) (sc_identity_key c) (sc_device_id c)
        (sc_issued_at c) (sc_expires_at c) = Inr body \<and>
      ring_verify P SenderCert (sc_server_kid c) body (sc_server_signature_hybrid c) (sc_issued_at c) t ring = Inr ())"

definition ring_signed :: "primitives \<Rightarrow> sender_certificate \<Rightarrow> server_key_ring \<Rightarrow> bool" where
  "ring_signed P c ring \<longleftrightarrow>
    (\<exists>body key. sender_cert_body (sc_user_id c) (sc_domain c) (sc_identity_key c) (sc_device_id c)
        (sc_issued_at c) (sc_expires_at c) = Inr body \<and>
      key \<in> set (rg_keys ring) \<and> grants P SenderCert (sc_server_kid c) key \<and>
      hybrid_verify P (dg_public_key key) (server_signable SenderCert (sc_server_kid c) body) (sc_server_signature_hybrid c) = Inr ())"

definition judged_by_ring :: "sender_certificate \<Rightarrow> server_trust \<Rightarrow> bool" where
  "judged_by_ring c trust \<longleftrightarrow> rg_roots (tr_ring trust) \<noteq> [] \<and> sc_server_signature_hybrid c \<noteq> []"

definition cert_vouched :: "primitives \<Rightarrow> sender_certificate \<Rightarrow> server_trust \<Rightarrow> i64 \<Rightarrow> bool" where
  "cert_vouched P c trust t \<longleftrightarrow>
    (if judged_by_ring c trust then ring_vouches P c (tr_ring trust) t else (\<exists>key\<in>set (tr_legacy_keys trust). legacy_signed P c key))"

definition cert_signed :: "primitives \<Rightarrow> sender_certificate \<Rightarrow> server_trust \<Rightarrow> bool" where
  "cert_signed P c trust \<longleftrightarrow>
    (if judged_by_ring c trust then ring_signed P c (tr_ring trust) else (\<exists>key\<in>set (tr_legacy_keys trust). legacy_signed P c key))"

lemma lifetime_iff:
  "0 \<le> sint (i64_sat_sub e i) \<and> sint (i64_sat_sub e i) \<le> sint SENDER_CERT_MAX_LIFETIME_SECS \<longleftrightarrow>
    sint i \<le> sint e \<and> sint e - sint i \<le> 86400"
  by (auto simp: sint_i64_sat_sub SENDER_CERT_MAX_LIFETIME_SECS_def)

lemma check_hybrid_ok: "check_hybrid P c ring t = Inr () \<longleftrightarrow> ring_vouches P c ring t"
  unfolding check_hybrid_def ring_vouches_def Let_def lifetime_iff
  by (auto split: sum.splits trust_error.splits if_splits)

lemma ring_verify_expired_signed:
  assumes "ring_verify P p kid body s a t ring = Inl KeyExpired"
  shows "\<exists>key\<in>set (rg_keys ring). grants P p kid key \<and> hybrid_verify P (dg_public_key key) (server_signable p kid body) s = Inr ()"
proof -
  let ?fs = "filter (\<lambda>k. dg_purpose k = p) (filter (\<lambda>k. dg_kid P k = kid) (rg_keys ring))"
  obtain key rest where k: "?fs = key # rest"
    using assms by (cases ?fs) (auto simp: ring_verify_def Let_def split: if_splits)
  then have "key \<in> set ?fs" by simp
  then have "key \<in> set (rg_keys ring)" "grants P p kid key" by (auto simp: grants_def)
  moreover have "hybrid_verify P (dg_public_key key) (server_signable p kid body) s = Inr ()"
    using assms k by (cases "hybrid_verify P (dg_public_key key) (server_signable p kid body) s")
      (auto simp: ring_verify_def Let_def split: if_splits)
  ultimately show ?thesis by blast
qed

lemma ring_verify_ok_signed:
  assumes "ring_verify P p kid body s a t ring = Inr ()"
  shows "\<exists>key\<in>set (rg_keys ring). grants P p kid key \<and> hybrid_verify P (dg_public_key key) (server_signable p kid body) s = Inr ()"
proof -
  obtain key rest where k: "filter (grants P p kid) (rg_keys ring) = key # rest"
    and v: "hybrid_verify P (dg_public_key key) (server_signable p kid body) s = Inr ()"
    using assms unfolding ring_verify_iff by blast
  have "key \<in> set (filter (grants P p kid) (rg_keys ring))" by (simp add: k)
  then show ?thesis using v by auto
qed

lemma check_hybrid_signed: "check_hybrid P c ring t \<in> {Inr (), Inl CertExpired} \<Longrightarrow> ring_signed P c ring"
  using ring_verify_ok_signed ring_verify_expired_signed
  by (fastforce simp: check_hybrid_def ring_signed_def Let_def split: sum.splits trust_error.splits if_splits)

lemma check_signature_ok: "check_signature P c trust t = Inr () \<longleftrightarrow> cert_vouched P c trust t"
  by (auto simp: check_signature_def cert_vouched_def judged_by_ring_def trust_has_roots_def has_roots_def check_hybrid_ok
      HYBRID_REQUIRED_def list_ex_iff)

lemma check_signature_signed: "check_signature P c trust t \<in> {Inr (), Inl CertExpired} \<Longrightarrow> cert_signed P c trust"
  using check_hybrid_signed [of P c "tr_ring trust" t]
  by (auto simp: check_signature_def cert_signed_def judged_by_ring_def trust_has_roots_def has_roots_def
      HYBRID_REQUIRED_def list_ex_iff split: if_splits)

text \<open>
  C30.  Which certificates open a session.  A certificate yields a key exactly when the key is the one it names, of
  32 bytes, deriving to the device it names, when no more than seven days have passed since it expired, and when the
  server vouches for it: with roots pinned and a hybrid signature present, the ring accepts that signature over these
  very fields, dated at the issue, for a lifetime of at most a day; otherwise one of the Ed25519 keys handed over
  verifies.  A hybrid signature that fails is never made up for by the Ed25519 one.  And a certificate whose verdict
  is expired was signed: its key may be pinned, for it derives to the device, and some key the verdict rests on
  signed its fields.
\<close>

theorem certificate_opens_exactly:
  "(identity_for_opening P c trust t = Inr k \<longleftrightarrow>
     k = sc_identity_key c \<and> length k = 32 \<and> sc_device_id c = derive_device_id P k \<and>
     sint t < sint (i64_sat_add (sc_expires_at c) MAX_DELIVERY_AGE_SECS) \<and> cert_vouched P c trust t) \<and>
   (verdict P c trust t = VerdictExpired \<longrightarrow>
     cert_signed P c trust \<and> length (sc_identity_key c) = 32 \<and> sc_device_id c = derive_device_id P (sc_identity_key c))"
proof (intro conjI)
  show "identity_for_opening P c trust t = Inr k \<longleftrightarrow>
     k = sc_identity_key c \<and> length k = 32 \<and> sc_device_id c = derive_device_id P k \<and>
     sint t < sint (i64_sat_add (sc_expires_at c) MAX_DELIVERY_AGE_SECS) \<and> cert_vouched P c trust t"
    unfolding check_signature_ok [symmetric] identity_for_opening_def
    by (auto split: sum.splits sender_refusal.splits if_splits)
  show "verdict P c trust t = VerdictExpired \<longrightarrow>
     cert_signed P c trust \<and> length (sc_identity_key c) = 32 \<and> sc_device_id c = derive_device_id P (sc_identity_key c)"
    using check_signature_signed [of P c trust t]
    by (auto simp: verdict_def identity_for_opening_def split: sum.splits sender_refusal.splits if_splits)
qed

theorem certificate_opens_exactly_witness:
  "\<exists>c. verdict sample_primitives c (with_legacy_keys [replicate 32 2]) 5000000 = VerdictExpired \<and>
    cert_signed sample_primitives c (with_legacy_keys [replicate 32 2])"
proof -
  let ?P = sample_primitives
  let ?t = "with_legacy_keys [replicate 32 2]"
  let ?d = "derive_device_id ?P (replicate 32 9)"
  let ?s = "ed25519_sig ?P (replicate 32 2) (build_cert_sign_payload [] [] (replicate 32 9) ?d 100 200)"
  define c where "c = \<lparr> sc_user_id = [], sc_domain = [], sc_identity_key = replicate 32 9, sc_device_id = ?d,
    sc_issued_at = 100, sc_expires_at = 200, sc_signature = ?s, sc_server_kid = [], sc_server_signature_hybrid = [] \<rparr>"
  have vk: "ed25519_vk ?P (replicate 32 2) = replicate 32 2" by (simp add: sample_primitives_def)
  have "length ?s = 64 \<and> ed25519_vk_ok ?P (replicate 32 2) \<and>
      ed25519_check ?P (replicate 32 2) (build_cert_sign_payload [] [] (replicate 32 9) ?d 100 200) ?s"
    using sample_ed25519_correct [unfolded ed25519_correct_def, rule_format, of "replicate 32 2"] by (simp add: vk)
  then have "legacy_signed ?P c (replicate 32 2)" by (simp add: legacy_signed_def verify_sender_cert_def c_def)
  then have "check_signature ?P c ?t 5000000 = Inr ()"
    by (simp add: check_signature_def with_legacy_keys_def trust_pinned_def ring_pinned_def PINNED_ROOTS_def
        trust_has_roots_def has_roots_def ring_new_def HYBRID_REQUIRED_def)
  then have v: "verdict ?P c ?t 5000000 = VerdictExpired"
    by (simp add: verdict_def identity_for_opening_def sint_i64_sat_add MAX_DELIVERY_AGE_SECS_def c_def)
  then show ?thesis using certificate_opens_exactly [of ?P c ?t 5000000] by blast
qed

end
