(* ===== verification/Message_Router.thy ===== *)
theory Message_Router
  imports Session_Lifecycle Delivery_Plan Sender_Certificate
begin

text \<open>
  The message router, \<open>src/orchestration/message_router.rs\<close>: what to do with an incoming message -
  read it, queue it until its session is open, wait for the platform to say whether it was read before a restart, or
  ask the writer to send it again.  Its queues are shown to refine a waiting room of message ids, and no message is
  shown to be read twice.
\<close>

definition MAX_PENDING_PER_USER :: nat where "MAX_PENDING_PER_USER = 100"
definition MAX_PENDING_AGE_MS :: u64 where "MAX_PENDING_AGE_MS = 24 * 60 * 60 * 1000"

record incoming_message =
  im_contact_id :: bytes
  im_wire_payload :: bytes
  im_message_id :: bytes
  im_msg_number :: u32
  im_content_type :: u8
  im_sender_certificate :: "sender_certificate option"
  im_envelope_session :: "bytes option"

datatype routing_decision =
    Decrypted bytes bytes bytes u8 "action list"
  | NeedSessionInit bytes nat
  | DecryptionErrorNeeded bytes bytes "bytes option" "sender_certificate option" "bytes option" lc_error
  | Duplicate bytes "action list"
  | PendingAckCheck bytes
  | QueueFull bytes
  | RoutingError bytes

record message_router =
  mr_pending_queues :: "(bytes, incoming_message list) hmap"
  mr_max_pending_per_user :: nat
  mr_pending_ack_checks :: "(bytes, incoming_message) hmap"
  mr_arrived_at :: "(bytes, u64) hmap"

definition router_new :: message_router where
  "router_new = \<lparr> mr_pending_queues = [], mr_max_pending_per_user = MAX_PENDING_PER_USER, mr_pending_ack_checks = [],
    mr_arrived_at = [] \<rparr>"

definition opens_session :: "incoming_message \<Rightarrow> bool" where
  "opens_session msg = (case unpack (im_wire_payload msg) of
     Inl _ \<Rightarrow> False
   | Inr header \<Rightarrow>
       receiving_init_kind_of \<lparr> ric_message_number = wp_message_number header,
         ric_one_time_prekey_id = wp_one_time_prekey_id header,
         ric_kem_ciphertext_bytes = (case wp_kem_ciphertext header of None \<Rightarrow> 0 | Some k \<Rightarrow> of_nat (length k)),
         ric_pq_message_epoch = wp_pq_message_epoch header \<rparr> = HandshakeKind)"

definition pending_messages :: "bytes \<Rightarrow> message_router \<Rightarrow> incoming_message list" where
  "pending_messages contact r = (case hm_get contact (mr_pending_queues r) of Some q \<Rightarrow> q | None \<Rightarrow> [])"

definition pending_count :: "bytes \<Rightarrow> message_router \<Rightarrow> nat" where
  "pending_count contact r = (case hm_get contact (mr_pending_queues r) of Some q \<Rightarrow> length q | None \<Rightarrow> 0)"

definition prune_arrivals :: "message_router \<Rightarrow> message_router" where
  "prune_arrivals r =
    (let queued = map im_message_id (concat (map snd (mr_pending_queues r)))
     in r\<lparr> mr_arrived_at := hm_retain (\<lambda>k _. k \<in> set queued) (mr_arrived_at r) \<rparr>)"

definition handshake_arrived_within :: "u64 \<Rightarrow> bytes list \<Rightarrow> u64 \<Rightarrow> message_router \<Rightarrow> bool" where
  "handshake_arrived_within now_ms devices window_ms r =
    list_ex (\<lambda>device. list_ex (\<lambda>m. opens_session m \<and>
      (case hm_get (im_message_id m) (mr_arrived_at r) of
         None \<Rightarrow> False | Some at \<Rightarrow> sat_sub now_ms at \<le> window_ms)) (pending_messages device r)) devices"

definition still_waiting :: "u64 \<Rightarrow> message_router \<Rightarrow> incoming_message \<Rightarrow> bool" where
  "still_waiting now_ms r q = (case hm_get (im_message_id q) (mr_arrived_at r) of
     None \<Rightarrow> True | Some at \<Rightarrow> sat_sub now_ms at \<le> MAX_PENDING_AGE_MS)"

definition put_queue :: "bytes \<Rightarrow> incoming_message list \<Rightarrow> message_router \<Rightarrow> message_router" where
  "put_queue contact q r = r\<lparr> mr_pending_queues := hm_insert contact q (mr_pending_queues r) \<rparr>"

definition enqueue_or_reject :: "u64 \<Rightarrow> incoming_message \<Rightarrow> message_router \<Rightarrow> routing_decision \<times> message_router" where
  "enqueue_or_reject now_ms msg r =
    (let contact = im_contact_id msg; queue = pending_messages contact r
     in if list_ex (\<lambda>q. im_message_id q = im_message_id msg) queue
        then (NeedSessionInit contact (length queue), put_queue contact queue r)
        else
          (let queue = filter (still_waiting now_ms r) queue
           in if mr_max_pending_per_user r \<le> length queue then (QueueFull contact, put_queue contact queue r)
              else
                (let queue = queue @ [msg]; r = put_queue contact queue r
                 in (NeedSessionInit contact (length queue),
                     r\<lparr> mr_arrived_at := hm_insert (im_message_id msg) now_ms (mr_arrived_at r) \<rparr>))))"

definition mark_lifecycle :: "u64 \<Rightarrow> bytes \<Rightarrow> lifecycle \<Rightarrow> action list \<times> lifecycle" where
  "mark_lifecycle t message_id lc =
    (case mark_processed t message_id (lc_ack_store lc) of (actions, a) \<Rightarrow> (actions, lc\<lparr> lc_ack_store := a \<rparr>))"

text \<open>An error text that starts with \<open>MESSAGE_KEY_CONSUMED\<close>.\<close>

definition lc_key_consumed :: "lc_error \<Rightarrow> bool" where
  "lc_key_consumed e = (case e of LcRatchet d \<Rightarrow> key_consumed d | _ \<Rightarrow> False)"

definition header_ratchet_key :: "bytes \<Rightarrow> bytes option" where
  "header_ratchet_key payload = (case unpack payload of Inl _ \<Rightarrow> None | Inr header \<Rightarrow> Some (wp_dh_public_key header))"

definition route_after_ack_check ::
    "primitives \<Rightarrow> draws \<Rightarrow> u64 \<Rightarrow> u64 \<Rightarrow> cfe_session_state cfe_codec \<Rightarrow> incoming_message \<Rightarrow> message_router \<Rightarrow> lifecycle
     \<Rightarrow> routing_decision \<times> message_router \<times> lifecycle" where
  "route_after_ack_check P E t now_ms C msg r lc =
    (let contact = im_contact_id msg; opener = opens_session msg
     in if opener \<and> \<not> has_active_session contact lc
        then (case enqueue_or_reject now_ms msg r of (d, r') \<Rightarrow> (d, r', lc))
        else (case decrypt_wire_payload P E t C contact (im_wire_payload msg) lc of
          (Inr (plaintext, acts), lc') \<Rightarrow>
            (case mark_lifecycle t (im_message_id msg) lc' of (marks, lc'') \<Rightarrow>
              (Decrypted contact (im_message_id msg) plaintext (im_content_type msg) (marks @ acts), r, lc''))
        | (Inl e, lc') \<Rightarrow>
            if lc_key_consumed e
            then (case mark_lifecycle t (im_message_id msg) lc' of (marks, lc'') \<Rightarrow>
                (Duplicate (im_message_id msg) marks, r, lc''))
            else if opener then (case enqueue_or_reject now_ms msg r of (d, r') \<Rightarrow> (d, r', lc'))
            else (DecryptionErrorNeeded contact (im_message_id msg) (header_ratchet_key (im_wire_payload msg))
                (im_sender_certificate msg) (im_envelope_session msg) e, r, lc')))"

definition route_message ::
    "primitives \<Rightarrow> draws \<Rightarrow> u64 \<Rightarrow> u64 \<Rightarrow> cfe_session_state cfe_codec \<Rightarrow> incoming_message \<Rightarrow> message_router \<Rightarrow> lifecycle
     \<Rightarrow> routing_decision \<times> message_router \<times> lifecycle" where
  "route_message P E t now_ms C msg r lc = (case is_processed (im_message_id msg) (lc_ack_store lc) of
     InCache \<Rightarrow> (Duplicate (im_message_id msg) [], r, lc)
   | NeedDbCheck \<Rightarrow> (PendingAckCheck (im_message_id msg),
       r\<lparr> mr_pending_ack_checks := hm_insert (im_message_id msg) msg (mr_pending_ack_checks r) \<rparr>, lc)
   | NotProcessed \<Rightarrow> route_after_ack_check P E t now_ms C msg r lc)"

definition needs_error :: "routing_decision \<Rightarrow> bool" where
  "needs_error d = (case d of DecryptionErrorNeeded _ _ _ _ _ _ \<Rightarrow> True | _ \<Rightarrow> False)"

text \<open>The loop of a drain: the decisions, and what was left when it stopped.\<close>

fun drain_loop ::
    "primitives \<Rightarrow> (nat \<Rightarrow> draws) \<Rightarrow> u64 \<Rightarrow> u64 \<Rightarrow> cfe_session_state cfe_codec \<Rightarrow> nat \<Rightarrow> incoming_message list \<Rightarrow> message_router
     \<Rightarrow> lifecycle \<Rightarrow> routing_decision list \<times> incoming_message list \<times> message_router \<times> lifecycle" where
  "drain_loop P Es t now_ms C i [] r lc = ([], [], r, lc)"
| "drain_loop P Es t now_ms C i (m # ms) r lc =
    (case route_message P (Es i) t now_ms C m r lc of
       (d, r', lc') \<Rightarrow>
         if needs_error d then ([d], ms, r', lc')
         else (case drain_loop P Es t now_ms C (Suc i) ms r' lc' of
           (ds, rest, r'', lc'') \<Rightarrow> (d # ds, rest, r'', lc'')))"

definition requeue_tail :: "bytes \<Rightarrow> incoming_message list \<Rightarrow> message_router \<Rightarrow> message_router" where
  "requeue_tail contact tail r = put_queue contact (fold (\<lambda>m q. m # q) (rev tail) (pending_messages contact r)) r"

definition drain_pending ::
    "primitives \<Rightarrow> (nat \<Rightarrow> draws) \<Rightarrow> u64 \<Rightarrow> u64 \<Rightarrow> cfe_session_state cfe_codec \<Rightarrow> bytes \<Rightarrow> message_router \<Rightarrow> lifecycle
     \<Rightarrow> routing_decision list \<times> message_router \<times> lifecycle" where
  "drain_pending P Es t now_ms C contact r lc =
    (let queued = pending_messages contact r;
         r = r\<lparr> mr_pending_queues := hm_remove contact (mr_pending_queues r) \<rparr>
     in case drain_loop P Es t now_ms C 0 queued r lc of
          (results, tail, r, lc) \<Rightarrow>
            (results, prune_arrivals (if tail \<noteq> [] then requeue_tail contact tail r else r), lc))"

definition remove_pending :: "bytes \<Rightarrow> bytes \<Rightarrow> message_router \<Rightarrow> message_router" where
  "remove_pending contact message_id r = prune_arrivals (case hm_get contact (mr_pending_queues r) of
     None \<Rightarrow> r
   | Some queue \<Rightarrow>
       (let queue = filter (\<lambda>m. im_message_id m \<noteq> message_id) queue
        in if queue = [] then r\<lparr> mr_pending_queues := hm_remove contact (mr_pending_queues r) \<rparr>
           else put_queue contact queue r))"

definition take_pending :: "bytes \<Rightarrow> message_router \<Rightarrow> incoming_message list \<times> message_router" where
  "take_pending contact r =
    (pending_messages contact r, prune_arrivals (r\<lparr> mr_pending_queues := hm_remove contact (mr_pending_queues r) \<rparr>))"

definition contacts_with_pending :: "message_router \<Rightarrow> bytes list" where
  "contacts_with_pending r = map fst (filter (\<lambda>(k, q). q \<noteq> []) (mr_pending_queues r))"

definition router_forget_contact :: "bytes \<Rightarrow> message_router \<Rightarrow> message_router" where
  "router_forget_contact contact r =
    (let r = prune_arrivals (r\<lparr> mr_pending_queues := hm_remove contact (mr_pending_queues r) \<rparr>)
     in r\<lparr> mr_pending_ack_checks := hm_retain (\<lambda>_ m. im_contact_id m \<noteq> contact) (mr_pending_ack_checks r) \<rparr>)"

definition resume_after_ack_check ::
    "primitives \<Rightarrow> draws \<Rightarrow> u64 \<Rightarrow> u64 \<Rightarrow> cfe_session_state cfe_codec \<Rightarrow> bytes \<Rightarrow> bool \<Rightarrow> message_router \<Rightarrow> lifecycle
     \<Rightarrow> routing_decision \<times> message_router \<times> lifecycle" where
  "resume_after_ack_check P E t now_ms C message_id processed r lc = (case hm_get message_id (mr_pending_ack_checks r) of
     None \<Rightarrow> (RoutingError message_id, r, lc)
   | Some buffered \<Rightarrow>
       (let r = r\<lparr> mr_pending_ack_checks := hm_remove message_id (mr_pending_ack_checks r) \<rparr>
        in if processed then (Duplicate message_id [], r, lc)
           else route_after_ack_check P E t now_ms C buffered r lc))"

subsection \<open>Sequences of operations\<close>

datatype router_op =
    Route draws u64 u64 incoming_message
  | Resume draws u64 u64 bytes bool
  | Drain "nat \<Rightarrow> draws" u64 u64 bytes
  | RemovePending bytes bytes
  | TakePending bytes
  | ForgetContact bytes
  | ElsewhereInLifecycle lifecycle

text \<open>
  The last stands for everything other parts do to the lifecycle manager between two operations of the router:
  whatever it is, it leaves the ACK store alone.
\<close>

fun router_step ::
    "primitives \<Rightarrow> cfe_session_state cfe_codec \<Rightarrow> router_op \<Rightarrow> message_router \<times> lifecycle
     \<Rightarrow> routing_decision list \<times> message_router \<times> lifecycle" where
  "router_step P C (Route E t ms m) (r, lc) = (case route_message P E t ms C m r lc of (d, s) \<Rightarrow> ([d], s))"
| "router_step P C (Resume E t ms i b) (r, lc) = (case resume_after_ack_check P E t ms C i b r lc of (d, s) \<Rightarrow> ([d], s))"
| "router_step P C (Drain Es t ms c) (r, lc) = drain_pending P Es t ms C c r lc"
| "router_step P C (RemovePending c i) (r, lc) = ([], remove_pending c i r, lc)"
| "router_step P C (TakePending c) (r, lc) = ([], snd (take_pending c r), lc)"
| "router_step P C (ForgetContact c) (r, lc) = ([], router_forget_contact c r, lc)"
| "router_step P C (ElsewhereInLifecycle lc') (r, lc) = ([], r, lc'\<lparr> lc_ack_store := lc_ack_store lc \<rparr>)"

fun router_run ::
    "primitives \<Rightarrow> cfe_session_state cfe_codec \<Rightarrow> router_op list \<Rightarrow> message_router \<times> lifecycle
     \<Rightarrow> routing_decision list \<times> message_router \<times> lifecycle" where
  "router_run P C [] s = ([], s)"
| "router_run P C (op # ops) s =
    (case router_step P C op s of (ds, s') \<Rightarrow> (case router_run P C ops s' of (es, s'') \<Rightarrow> (ds @ es, s'')))"

subsection \<open>The waiting room\<close>

definition waiting :: "message_router \<Rightarrow> bytes \<Rightarrow> bytes list" where
  "waiting r c = map im_message_id (pending_messages c r)"

definition spec_enqueue :: "(bytes \<Rightarrow> bool) \<Rightarrow> bytes \<Rightarrow> bytes list \<Rightarrow> bytes list" where
  "spec_enqueue fresh i q =
    (if i \<in> set q then q
     else (let q' = filter fresh q in if 100 \<le> length q' then q' else q' @ [i]))"

text \<open>
  What the router promises of the queues, contact by contact, message bodies aside.  A message arrives at the end
  unless it is there already; stale ones may be dropped then; one is taken out; all are; or a drain takes the first
  few, puts the rest back in their order, and behind them those of the few that still wait.
\<close>

inductive room_step :: "(bytes \<Rightarrow> bytes list) \<Rightarrow> (bytes \<Rightarrow> bytes list) \<Rightarrow> bool" where
  stay: "room_step q q"
| arrive: "room_step q (q(c := spec_enqueue fresh i (q c)))"
| leave: "room_step q (q(c := filter (\<lambda>j. j \<noteq> i) (q c)))"
| clear: "room_step q (q(c := []))"
| drain: "k \<le> length (q c) \<Longrightarrow> distinct again \<Longrightarrow> set again \<subseteq> set (take k (q c)) \<Longrightarrow>
    room_step q (q(c := drop k (q c) @ again))"

definition room_ok :: "(bytes \<Rightarrow> bytes list) \<Rightarrow> bool" where
  "room_ok q \<longleftrightarrow> (\<forall>c. length (q c) \<le> 100 \<and> distinct (q c))"

lemma room_ok_upd: "room_ok q \<Longrightarrow> length x \<le> 100 \<Longrightarrow> distinct x \<Longrightarrow> room_ok (q(c := x))"
  by (simp add: room_ok_def)

lemma filter_le_100: "length q \<le> 100 \<Longrightarrow> length (filter f q) \<le> 100"
  by (rule le_trans [OF length_filter_le])

lemma spec_enqueue_ok: "length q \<le> 100 \<Longrightarrow> distinct q \<Longrightarrow> length (spec_enqueue f i q) \<le> 100 \<and> distinct (spec_enqueue f i q)"
  using filter_le_100 [of q f] by (auto simp: spec_enqueue_def Let_def)

lemma drain_room_ok:
  assumes "length (q::bytes list) \<le> 100" "distinct q" "k \<le> length q" "distinct again" "set again \<subseteq> set (take k q)"
  shows "length (drop k q @ again) \<le> 100 \<and> distinct (drop k q @ again)"
proof -
  have "length again = card (set again)" using assms(4) by (simp add: distinct_card)
  also have "\<dots> \<le> card (set (take k q))" using assms(5) by (intro card_mono) auto
  also have "\<dots> \<le> k" using card_length [of "take k q"] by simp
  finally have "length (drop k q @ again) \<le> 100" using assms(1,3) by simp
  moreover have "set (drop k q) \<inter> set (take k q) = {}" using assms(2) by (metis append_take_drop_id distinct_append inf_commute)
  ultimately show ?thesis using assms(2,4,5) by auto
qed

lemma room_step_ok: "room_step q q' \<Longrightarrow> room_ok q \<Longrightarrow> room_ok q'"
proof (induction rule: room_step.induct)
  case (arrive q c fresh i)
  then show ?case using spec_enqueue_ok [of "q c"] by (intro room_ok_upd) (auto simp: room_ok_def)
next
  case (leave q c i)
  then show ?case by (intro room_ok_upd) (simp_all add: room_ok_def filter_le_100)
next
  case (drain k q c again)
  then show ?case using drain_room_ok [of "q c" k again] by (intro room_ok_upd) (auto simp: room_ok_def)
qed (auto simp: room_ok_def)

subsection \<open>Queues, operation by operation\<close>

definition queues_ok :: "message_router \<Rightarrow> bool" where
  "queues_ok r \<longleftrightarrow> mr_max_pending_per_user r = 100 \<and> room_ok (waiting r) \<and>
    (\<forall>c. \<forall>m\<in>set (pending_messages c r). im_contact_id m = c)"

lemma pending_update [simp]:
  "pending_messages c (put_queue d q r) = (if c = d then q else pending_messages c r)"
  "pending_messages c (r\<lparr> mr_pending_queues := hm_remove d (mr_pending_queues r) \<rparr>) = (if c = d then [] else pending_messages c r)"
  "pending_messages c (r\<lparr> mr_arrived_at := a \<rparr>) = pending_messages c r"
  "pending_messages c (r\<lparr> mr_pending_ack_checks := p \<rparr>) = pending_messages c r"
  "pending_messages c (prune_arrivals r) = pending_messages c r"
  by (auto simp: pending_messages_def put_queue_def hm.get_insert hm_remove_get prune_arrivals_def)

lemma max_update [simp]:
  "mr_max_pending_per_user (put_queue d q r) = mr_max_pending_per_user r"
  "mr_max_pending_per_user (prune_arrivals r) = mr_max_pending_per_user r"
  by (simp_all add: put_queue_def prune_arrivals_def)

lemma waiting_cong: "(\<And>c. pending_messages c r' = pending_messages c r) \<Longrightarrow> waiting r' = waiting r"
  by (simp add: waiting_def fun_eq_iff)

lemma queues_ok_cong:
  assumes "queues_ok r" "mr_max_pending_per_user r' = mr_max_pending_per_user r" "\<And>c. pending_messages c r' = pending_messages c r"
  shows "queues_ok r'"
  using assms waiting_cong [OF assms(3)] by (simp add: queues_ok_def)

lemma waiting_ids: "i \<in> set (waiting r c) \<longleftrightarrow> list_ex (\<lambda>q. im_message_id q = i) (pending_messages c r)"
  by (auto simp: waiting_def list_ex_iff)

lemma waiting_filter: "map im_message_id (filter (still_waiting ms r) xs) =
    filter (\<lambda>i. case hm_get i (mr_arrived_at r) of None \<Rightarrow> True | Some at \<Rightarrow> sat_sub ms at \<le> MAX_PENDING_AGE_MS) (map im_message_id xs)"
  by (induction xs) (auto simp: still_waiting_def)

lemma enqueue_waiting:
  assumes "mr_max_pending_per_user r = 100"
  shows "\<exists>fresh. waiting (snd (enqueue_or_reject ms msg r)) =
    (waiting r)(im_contact_id msg := spec_enqueue fresh (im_message_id msg) (waiting r (im_contact_id msg)))"
proof (intro exI ext)
  let ?f = "\<lambda>i. case hm_get i (mr_arrived_at r) of None \<Rightarrow> True | Some at \<Rightarrow> sat_sub ms at \<le> MAX_PENDING_AGE_MS"
  fix c
  have len: "length (filter (still_waiting ms r) xs) = length (filter ?f (map im_message_id xs))" for xs
    using waiting_filter [of ms r xs] by (metis length_map)
  show "waiting (snd (enqueue_or_reject ms msg r)) c =
    ((waiting r)(im_contact_id msg := spec_enqueue ?f (im_message_id msg) (waiting r (im_contact_id msg)))) c"
  proof (cases "im_message_id msg \<in> set (waiting r (im_contact_id msg))")
    case True
    then show ?thesis
      using waiting_ids [of "im_message_id msg" r "im_contact_id msg"]
      by (simp add: enqueue_or_reject_def spec_enqueue_def waiting_def Let_def)
  next
    case False
    then have n: "\<not> list_ex (\<lambda>q. im_message_id q = im_message_id msg) (pending_messages (im_contact_id msg) r)"
      by (simp add: waiting_ids)
    show ?thesis
      using False n assms
      by (simp add: enqueue_or_reject_def spec_enqueue_def waiting_def waiting_filter len Let_def)
  qed
qed

lemma enqueue_frame:
  "mr_max_pending_per_user (snd (enqueue_or_reject ms msg r)) = mr_max_pending_per_user r"
  "mr_pending_ack_checks (snd (enqueue_or_reject ms msg r)) = mr_pending_ack_checks r"
  "c \<noteq> im_contact_id msg \<Longrightarrow> pending_messages c (snd (enqueue_or_reject ms msg r)) = pending_messages c r"
  "set (pending_messages (im_contact_id msg) (snd (enqueue_or_reject ms msg r))) \<subseteq> insert msg (set (pending_messages (im_contact_id msg) r))"
  by (auto simp: enqueue_or_reject_def Let_def put_queue_def pending_messages_def hm.get_insert)

lemma enqueue_ok:
  assumes "queues_ok r"
  shows "queues_ok (snd (enqueue_or_reject ms msg r))" "room_step (waiting r) (waiting (snd (enqueue_or_reject ms msg r)))"
proof -
  have m: "mr_max_pending_per_user r = 100" using assms by (simp add: queues_ok_def)
  show s: "room_step (waiting r) (waiting (snd (enqueue_or_reject ms msg r)))"
    using enqueue_waiting [OF m, of ms msg] room_step.arrive by metis
  have "room_ok (waiting (snd (enqueue_or_reject ms msg r)))" using room_step_ok [OF s] assms by (simp add: queues_ok_def)
  moreover have "im_contact_id x = c" if "x \<in> set (pending_messages c (snd (enqueue_or_reject ms msg r)))" for x c
    using that enqueue_frame(3) [of c msg ms r] enqueue_frame(4) [where ms = ms and msg = msg and r = r] assms unfolding queues_ok_def
    by (cases "c = im_contact_id msg") auto
  ultimately show "queues_ok (snd (enqueue_or_reject ms msg r))" using m by (auto simp: queues_ok_def enqueue_frame(1))
qed

lemma route_after_router:
  "fst (snd (route_after_ack_check P E t ms C msg r lc)) \<in> {r, snd (enqueue_or_reject ms msg r)}"
  by (auto simp: route_after_ack_check_def Let_def split: prod.splits sum.splits if_splits)

lemma route_router:
  "fst (snd (route_message P E t ms C msg r lc)) \<in>
    {r, snd (enqueue_or_reject ms msg r), r\<lparr> mr_pending_ack_checks := hm_insert (im_message_id msg) msg (mr_pending_ack_checks r) \<rparr>}"
  using route_after_router [of P E t ms C msg r lc] by (auto simp: route_message_def split: ack_check_result.splits)

lemma route_ok:
  assumes "queues_ok r"
  shows "queues_ok (fst (snd (route_message P E t ms C msg r lc)))"
    "room_step (waiting r) (waiting (fst (snd (route_message P E t ms C msg r lc))))"
proof -
  let ?r = "r\<lparr> mr_pending_ack_checks := hm_insert (im_message_id msg) msg (mr_pending_ack_checks r) \<rparr>"
  have "queues_ok ?r" "waiting ?r = waiting r" by (rule queues_ok_cong [OF assms]; simp) (rule waiting_cong, simp)
  then show "queues_ok (fst (snd (route_message P E t ms C msg r lc)))"
    "room_step (waiting r) (waiting (fst (snd (route_message P E t ms C msg r lc))))"
    using route_router [of P E t ms C msg r lc] enqueue_ok [OF assms, of ms msg] assms room_step.stay [of "waiting r"] by auto
qed

text \<open>The part of a drain already done, for the queue of its contact.\<close>

definition drained :: "bytes \<Rightarrow> message_router \<Rightarrow> incoming_message list \<Rightarrow> message_router \<Rightarrow> bool" where
  "drained c r ms r' \<longleftrightarrow> queues_ok r' \<and> (\<forall>d. d \<noteq> c \<longrightarrow> pending_messages d r' = pending_messages d r) \<and>
    set (waiting r' c) \<subseteq> set (waiting r c) \<union> set (map im_message_id ms)"

lemma route_drained:
  assumes "queues_ok r" "im_contact_id m = c"
  shows "drained c r [m] (fst (snd (route_message P E t ms C m r lc)))"
proof -
  let ?r = "fst (snd (route_message P E t ms C m r lc))"
  have q: "queues_ok ?r" by (rule route_ok(1) [OF assms(1)])
  have e: "set (waiting (snd (enqueue_or_reject ms m r)) c) \<subseteq> set (waiting r c) \<union> {im_message_id m}"
    using enqueue_frame(4) [where ms = ms and msg = m and r = r] assms(2) by (auto simp: waiting_def)
  have "\<forall>d. d \<noteq> c \<longrightarrow> pending_messages d (snd (enqueue_or_reject ms m r)) = pending_messages d r"
    using enqueue_frame(3) [of _ m ms r] assms(2) by simp
  then show ?thesis
    using q e route_router [of P E t ms C m r lc] unfolding drained_def waiting_def by (fastforce simp: subset_iff)
qed

lemma drained_trans: "drained c r xs r1 \<Longrightarrow> drained c r1 ys r2 \<Longrightarrow> drained c r (xs @ ys) r2"
  by (auto simp: drained_def)

lemma drain_loop_drained:
  assumes "drain_loop P Es t ms C i xs r lc = (ds, rest, r', lc')" "queues_ok r" "\<forall>m\<in>set xs. im_contact_id m = c"
  shows "\<exists>k\<le>length xs. rest = drop k xs \<and> drained c r (take k xs) r'"
  using assms
proof (induction P Es t ms C i xs r lc arbitrary: ds rest r' lc' rule: drain_loop.induct)
  case (1 P Es t now_ms C i r lc)
  then show ?case by (auto simp: drained_def)
next
  case (2 P Es t now_ms C i m ms r lc)
  obtain d r1 lc1 where d: "route_message P (Es i) t now_ms C m r lc = (d, r1, lc1)" by (cases "route_message P (Es i) t now_ms C m r lc") auto
  have r1: "drained c r [m] r1" using route_drained [OF "2.prems"(2), of m c P "Es i" t now_ms C lc] "2.prems"(3) d by simp
  show ?case
  proof (cases "needs_error d")
    case True
    then have "rest = ms" "r' = r1" using "2.prems"(1) d by auto
    then show ?thesis using r1 by (intro exI [of _ 1]) simp
  next
    case False
    obtain ds' rest' r2 lc2 where l: "drain_loop P Es t now_ms C (Suc i) ms r1 lc1 = (ds', rest', r2, lc2)"
      by (cases "drain_loop P Es t now_ms C (Suc i) ms r1 lc1") auto
    have q1: "queues_ok r1" using r1 by (simp add: drained_def)
    obtain k where k: "k \<le> length ms" "rest' = drop k ms" "drained c r1 (take k ms) r2"
      using "2.IH" [OF d [symmetric] refl False l q1] "2.prems"(3) by auto
    have "rest = rest'" "r' = r2" using "2.prems"(1) d False l by auto
    then show ?thesis using k drained_trans [OF r1 k(3)] by (intro exI [of _ "Suc k"]) simp
  qed
qed

lemma requeue_pending [simp]:
  "pending_messages c (requeue_tail d tail r) = (if c = d then tail @ pending_messages d r else pending_messages c r)"
proof -
  have "fold (\<lambda>m q. m # q) (rev xs) q = xs @ q" for xs and q :: "incoming_message list"
    by (induction xs arbitrary: q) simp_all
  then show ?thesis by (simp add: requeue_tail_def)
qed

lemma drain_ok:
  assumes "queues_ok r" "drain_pending P Es t ms C c r lc = (ds, r', lc')"
  shows "queues_ok r' \<and> room_step (waiting r) (waiting r')"
proof -
  let ?q = "pending_messages c r" and ?r0 = "r\<lparr> mr_pending_queues := hm_remove c (mr_pending_queues r) \<rparr>"
  have ok: "length ?q \<le> 100" "distinct (map im_message_id ?q)" "\<forall>m\<in>set ?q. im_contact_id m = c"
    using assms(1) by (auto simp: queues_ok_def room_ok_def waiting_def dest: spec [of _ c])
  have q0: "queues_ok ?r0" using assms(1) by (auto simp: queues_ok_def room_ok_def waiting_def)
  obtain es rest r1 lc1 where l: "drain_loop P Es t ms C 0 ?q ?r0 lc = (es, rest, r1, lc1)"
    by (cases "drain_loop P Es t ms C 0 ?q ?r0 lc") auto
  obtain k where k: "k \<le> length ?q" "rest = drop k ?q" "drained c ?r0 (take k ?q) r1"
    using drain_loop_drained [OF l q0 ok(3)] by blast
  have r': "r' = prune_arrivals (if rest \<noteq> [] then requeue_tail c rest r1 else r1)"
    using assms(2) l by (simp add: drain_pending_def Let_def)
  have p: "pending_messages d r' = (if d = c then drop k ?q @ pending_messages c r1 else pending_messages d r)" for d
    using k by (auto simp: r' drained_def)
  have w: "waiting r' = (waiting r)(c := drop k (waiting r c) @ waiting r1 c)"
    by (rule ext) (simp add: waiting_def p drop_map)
  have again: "distinct (waiting r1 c)" "set (waiting r1 c) \<subseteq> set (take k (waiting r c))" "k \<le> length (waiting r c)"
    using k by (auto simp: drained_def queues_ok_def room_ok_def waiting_def take_map)
  have s: "room_step (waiting r) (waiting r')" unfolding w using again by (intro room_step.drain)
  have "room_ok (waiting r')" using room_step_ok [OF s] assms(1) by (simp add: queues_ok_def)
  moreover have "im_contact_id m = d" if "m \<in> set (pending_messages d r')" for m d
    using that ok(3) k(3) assms(1) unfolding p by (auto simp: drained_def queues_ok_def split: if_splits dest: in_set_dropD)
  moreover have "mr_max_pending_per_user r' = 100"
    using k(3) by (simp add: r' drained_def queues_ok_def requeue_tail_def)
  ultimately show ?thesis using s by (simp add: queues_ok_def)
qed

lemma queues_ok_step:
  assumes "queues_ok r" "room_step (waiting r) (waiting r')" "mr_max_pending_per_user r' = mr_max_pending_per_user r"
    and "\<And>c. set (pending_messages c r') \<subseteq> set (pending_messages c r)"
  shows "queues_ok r'"
proof -
  have "room_ok (waiting r')" using room_step_ok [OF assms(2)] assms(1) by (simp add: queues_ok_def)
  then show ?thesis using assms(1,3) subsetD [OF assms(4)] by (simp add: queues_ok_def)
qed

lemma router_step_ok:
  assumes "queues_ok r" "router_step P C op (r, lc) = (ds, r', lc')"
  shows "queues_ok r' \<and> room_step (waiting r) (waiting r')"
proof (cases op)
  case (Route E t ms m)
  then show ?thesis using assms route_ok [OF assms(1), of P E t ms C m lc] by (auto split: prod.splits)
next
  case (Resume E t ms i b)
  show ?thesis
  proof (cases "hm_get i (mr_pending_ack_checks r)")
    case None
    then show ?thesis using assms Resume room_step.stay by (auto simp: resume_after_ack_check_def)
  next
    case (Some m)
    let ?r = "r\<lparr> mr_pending_ack_checks := hm_remove i (mr_pending_ack_checks r) \<rparr>"
    have q: "queues_ok ?r" by (rule queues_ok_cong [OF assms(1)]) simp_all
    have w: "waiting ?r = waiting r" by (rule waiting_cong) simp
    have "r' \<in> {?r, snd (enqueue_or_reject ms m ?r)}"
      using assms(2) Resume Some route_after_router [of P E t ms C m ?r lc]
      by (auto simp: resume_after_ack_check_def Let_def split: prod.splits if_splits)
    then show ?thesis using q enqueue_ok [OF q, of ms m] w room_step.stay [of "waiting r"] by auto
  qed
next
  case (Drain Es t ms c)
  then show ?thesis using assms drain_ok [OF assms(1)] by auto
next
  case (RemovePending c i)
  have p: "pending_messages d (remove_pending c i r) =
      (if d = c then filter (\<lambda>m. im_message_id m \<noteq> i) (pending_messages c r) else pending_messages d r)" for d
    by (auto simp: remove_pending_def Let_def split: option.split) (auto simp: pending_messages_def)
  have w: "waiting (remove_pending c i r) = (waiting r)(c := filter (\<lambda>j. j \<noteq> i) (waiting r c))"
    by (rule ext) (simp add: waiting_def p filter_map comp_def)
  have "mr_max_pending_per_user (remove_pending c i r) = mr_max_pending_per_user r"
    by (simp add: remove_pending_def Let_def split: option.split)
  then have "queues_ok (remove_pending c i r)"
    by (intro queues_ok_step [OF assms(1)]) (auto simp: w p room_step.leave)
  then show ?thesis using assms(2) RemovePending w room_step.leave by auto
next
  case (TakePending c)
  have w: "waiting (snd (take_pending c r)) = (waiting r)(c := [])" by (rule ext) (simp add: waiting_def take_pending_def)
  have "queues_ok (snd (take_pending c r))"
    by (rule queues_ok_step [OF assms(1)]) (unfold w, auto simp: room_step.clear take_pending_def)
  then show ?thesis using assms(2) TakePending w room_step.clear by auto
next
  case (ForgetContact c)
  have w: "waiting (router_forget_contact c r) = (waiting r)(c := [])"
    by (rule ext) (simp add: waiting_def router_forget_contact_def Let_def)
  have "queues_ok (router_forget_contact c r)"
    by (rule queues_ok_step [OF assms(1)]) (unfold w, auto simp: room_step.clear router_forget_contact_def Let_def)
  then show ?thesis using assms(2) ForgetContact w room_step.clear by auto
next
  case (ElsewhereInLifecycle lc2)
  then show ?thesis using assms room_step.stay by simp
qed

lemma router_run_ok:
  assumes "queues_ok r" "router_run P C ops (r, lc) = (ds, r', lc')"
  shows "queues_ok r' \<and> room_step\<^sup>*\<^sup>* (waiting r) (waiting r')"
  using assms
proof (induction ops arbitrary: r lc ds r' lc')
  case (Cons op ops)
  obtain es r1 lc1 where s: "router_step P C op (r, lc) = (es, r1, lc1)" by (cases "router_step P C op (r, lc)") auto
  obtain fs r2 lc2 where u: "router_run P C ops (r1, lc1) = (fs, r2, lc2)" by (cases "router_run P C ops (r1, lc1)") auto
  have "r' = r2" using Cons.prems(2) s u by simp
  moreover have a: "queues_ok r1 \<and> room_step (waiting r) (waiting r1)" by (rule router_step_ok [OF Cons.prems(1) s])
  moreover have "queues_ok r2 \<and> room_step\<^sup>*\<^sup>* (waiting r1) (waiting r2)" by (rule Cons.IH [OF conjunct1 [OF a] u])
  ultimately show ?case by (auto intro: converse_rtranclp_into_rtranclp)
qed simp

text \<open>
  C36.  The router keeps a waiting room.  Seen from outside, contact by contact and message id by message id, every
  sequence of operations of the router is a sequence of steps of the waiting room: arrivals at the end, once each,
  departures, clearings, and drains that put back the messages they did not reach ahead of the rest and in order.  So
  at most a hundred messages wait for a contact, and no message waits twice.
\<close>

theorem router_refines_waiting_room:
  "room_step\<^sup>*\<^sup>* (\<lambda>c. []) (waiting (fst (snd (router_run P C ops (router_new, lc))))) \<and>
    (\<forall>c. pending_count c (fst (snd (router_run P C ops (router_new, lc)))) \<le> 100 \<and>
      distinct (waiting (fst (snd (router_run P C ops (router_new, lc)))) c))"
proof -
  obtain ds r' lc' where u: "router_run P C ops (router_new, lc) = (ds, r', lc')" by (cases "router_run P C ops (router_new, lc)") auto
  have n: "pending_messages c router_new = []" for c by (simp add: pending_messages_def router_new_def)
  have q: "queues_ok router_new" "waiting router_new = (\<lambda>c. [])"
    by (auto simp: queues_ok_def room_ok_def waiting_def n) (simp add: router_new_def MAX_PENDING_PER_USER_def)
  have r: "queues_ok r' \<and> room_step\<^sup>*\<^sup>* (waiting router_new) (waiting r')" by (rule router_run_ok [OF q(1) u])
  have "pending_count c r' = length (waiting r' c)" for c
    by (simp add: pending_count_def waiting_def pending_messages_def split: option.split)
  then show ?thesis using r by (simp add: u q(2) queues_ok_def room_ok_def)
qed

subsection \<open>At most once\<close>

fun decrypted_ids :: "routing_decision list \<Rightarrow> bytes list" where
  "decrypted_ids [] = []"
| "decrypted_ids (Decrypted _ i _ _ _ # ds) = i # decrypted_ids ds"
| "decrypted_ids (d # ds) = decrypted_ids ds"

lemma decrypted_ids_append [simp]: "decrypted_ids (xs @ ys) = decrypted_ids xs @ decrypted_ids ys"
  by (induction xs rule: decrypted_ids.induct) simp_all

text \<open>Decisions between two states of the ACK cache that read each message at most once.\<close>

definition once :: "lifecycle \<Rightarrow> routing_decision list \<Rightarrow> lifecycle \<Rightarrow> bool" where
  "once lc ds lc' \<longleftrightarrow> distinct (decrypted_ids ds) \<and> set (decrypted_ids ds) \<inter> set (ak_cache (lc_ack_store lc)) = {} \<and>
    set (ak_cache (lc_ack_store lc)) \<union> set (decrypted_ids ds) \<subseteq> set (ak_cache (lc_ack_store lc'))"

lemma once_trans: "once lc ds lc1 \<Longrightarrow> once lc1 es lc2 \<Longrightarrow> once lc (ds @ es) lc2"
  unfolding once_def by auto

text \<open>A message whose ACK check is open was not read, and is open only after a restart.\<close>

definition checks_open :: "message_router \<Rightarrow> lifecycle \<Rightarrow> bool" where
  "checks_open r lc \<longleftrightarrow> hm_wf (mr_pending_ack_checks r) \<and> (\<forall>i m. hm_get i (mr_pending_ack_checks r) = Some m \<longrightarrow>
    im_message_id m = i \<and> i \<notin> set (ak_cache (lc_ack_store lc)) \<and> ak_post_restart_mode (lc_ack_store lc))"

lemma checks_open_sub:
  assumes "checks_open r lc" "\<And>i m. hm_get i (mr_pending_ack_checks r') = Some m \<Longrightarrow> hm_get i (mr_pending_ack_checks r) = Some m"
    and "lc_ack_store lc' = lc_ack_store lc" "hm_wf (mr_pending_ack_checks r')"
  shows "checks_open r' lc'"
  using assms unfolding checks_open_def by auto

lemma mark_ack:
  "set (ak_cache (lc_ack_store (snd (mark_lifecycle t i lc)))) = insert i (set (ak_cache (lc_ack_store lc)))"
  "ak_post_restart_mode (lc_ack_store (snd (mark_lifecycle t i lc))) = ak_post_restart_mode (lc_ack_store lc)"
  by (auto simp: mark_lifecycle_def mark_processed_def)

lemma ack_wire: "lc_ack_store (snd (decrypt_wire_payload P E t C c w lc)) = lc_ack_store lc"
  using lc_rest_wire [of P E t C c w lc] by (simp add: lc_rest_def)

lemma no_ids_enqueue: "decrypted_ids [fst (enqueue_or_reject ms m r)] = []"
  by (simp add: enqueue_or_reject_def Let_def)

lemma once_none: "decrypted_ids ds = [] \<Longrightarrow> lc_ack_store lc' = lc_ack_store lc \<Longrightarrow> once lc ds lc'"
  by (simp add: once_def)

lemma route_after_once:
  assumes "route_after_ack_check P E t ms C m r lc = (d, r', lc')" "im_message_id m \<notin> set (ak_cache (lc_ack_store lc))"
    and "checks_open r lc" "hm_get (im_message_id m) (mr_pending_ack_checks r) = None"
  shows "once lc [d] lc' \<and> checks_open r' lc'"
proof -
  let ?c = "im_contact_id m" and ?i = "im_message_id m"
  obtain o1 lc1 where w: "decrypt_wire_payload P E t C ?c (im_wire_payload m) lc = (o1, lc1)"
    by (cases "decrypt_wire_payload P E t C ?c (im_wire_payload m) lc") auto
  have ack: "lc_ack_store lc1 = lc_ack_store lc" using ack_wire [of P E t C ?c "im_wire_payload m" lc] w by simp
  have marked: "checks_open r (snd (mark_lifecycle t ?i lc1))"
    using assms(3,4) mark_ack [of t ?i lc1] ack unfolding checks_open_def by auto
  have queued: "once lc [d] lc' \<and> checks_open r' lc'"
    if "(d, r') = enqueue_or_reject ms m r" "lc' = lc \<or> lc' = lc1"
  proof -
    have d: "d = fst (enqueue_or_reject ms m r)" "r' = snd (enqueue_or_reject ms m r)" using that(1) by (simp_all add: prod_eq_iff)
    have l: "lc_ack_store lc' = lc_ack_store lc" using that(2) ack by auto
    have "once lc [d] lc'" unfolding d by (rule once_none [OF no_ids_enqueue l])
    moreover have "checks_open r' lc'" by (rule checks_open_sub [OF assms(3)]) (use assms(3) in \<open>simp_all add: d enqueue_frame l checks_open_def\<close>)
    ultimately show ?thesis ..
  qed
  show ?thesis
  proof (cases "opens_session m \<and> \<not> has_active_session ?c lc")
    case True
    then show ?thesis using assms(1) queued by (auto simp: route_after_ack_check_def Let_def split: prod.splits)
  next
    case False
    show ?thesis
    proof (cases o1)
      case (Inr x)
      obtain plain acts where x: "x = (plain, acts)" by (cases x)
      have "d = Decrypted ?c ?i plain (im_content_type m) (fst (mark_lifecycle t ?i lc1) @ acts)" "r' = r"
        "lc' = snd (mark_lifecycle t ?i lc1)"
        using assms(1) False w Inr x by (auto simp: route_after_ack_check_def Let_def split: prod.splits)
      then show ?thesis using assms(2) marked ack by (auto simp: once_def mark_ack)
    next
      case (Inl e)
      consider "lc_key_consumed e" | "\<not> lc_key_consumed e" "opens_session m" | "\<not> lc_key_consumed e" "\<not> opens_session m" by blast
      then show ?thesis
      proof cases
        case 1
        then have "d = Duplicate ?i (fst (mark_lifecycle t ?i lc1))" "r' = r" "lc' = snd (mark_lifecycle t ?i lc1)"
          using assms(1) False w Inl by (auto simp: route_after_ack_check_def Let_def split: prod.splits)
        then show ?thesis using marked ack by (auto simp: once_def mark_ack)
      next
        case 2
        then show ?thesis using assms(1) False w Inl queued by (auto simp: route_after_ack_check_def Let_def split: prod.splits)
      next
        case 3
        then have "decrypted_ids [d] = []" "r' = r" "lc' = lc1"
          using assms(1) False w Inl by (auto simp: route_after_ack_check_def Let_def)
        then show ?thesis using once_none [of "[d]" lc1 lc] checks_open_sub [OF assms(3), of r lc1] ack assms(3) by (simp add: checks_open_def)
      qed
    qed
  qed
qed

lemma route_once:
  assumes "route_message P E t ms C m r lc = (d, r', lc')" "checks_open r lc"
  shows "once lc [d] lc' \<and> checks_open r' lc'"
proof (cases "is_processed (im_message_id m) (lc_ack_store lc)")
  case InCache
  then show ?thesis using assms by (auto simp: route_message_def once_none)
next
  case NeedDbCheck
  then have "im_message_id m \<notin> set (ak_cache (lc_ack_store lc))" "ak_post_restart_mode (lc_ack_store lc)"
    by (auto simp: is_processed_def split: if_splits)
  then have "checks_open (r\<lparr> mr_pending_ack_checks := hm_insert (im_message_id m) m (mr_pending_ack_checks r) \<rparr>) lc"
    using assms(2) by (auto simp: checks_open_def hm.get_insert hm.wf_insert)
  then show ?thesis using assms NeedDbCheck by (auto simp: route_message_def once_none)
next
  case NotProcessed
  then have n: "im_message_id m \<notin> set (ak_cache (lc_ack_store lc))" "\<not> ak_post_restart_mode (lc_ack_store lc)"
    by (auto simp: is_processed_def split: if_splits)
  have h: "hm_get (im_message_id m) (mr_pending_ack_checks r) = None"
    using assms(2) n(2) by (cases "hm_get (im_message_id m) (mr_pending_ack_checks r)") (auto simp: checks_open_def)
  have "route_after_ack_check P E t ms C m r lc = (d, r', lc')" using assms(1) NotProcessed by (simp add: route_message_def)
  then show ?thesis by (rule route_after_once [OF _ n(1) assms(2) h])
qed

lemma drain_loop_once:
  "drain_loop P Es t ms C i xs r lc = (ds, rest, r', lc') \<Longrightarrow> checks_open r lc \<Longrightarrow> once lc ds lc' \<and> checks_open r' lc'"
proof (induction P Es t ms C i xs r lc arbitrary: ds rest r' lc' rule: drain_loop.induct)
  case (1 P Es t now_ms C i r lc)
  then show ?case by (simp add: once_none)
next
  case (2 P Es t now_ms C i m ms r lc)
  obtain d r1 lc1 where d: "route_message P (Es i) t now_ms C m r lc = (d, r1, lc1)" by (cases "route_message P (Es i) t now_ms C m r lc") auto
  have o1: "once lc [d] lc1 \<and> checks_open r1 lc1" by (rule route_once [OF d "2.prems"(2)])
  show ?case
  proof (cases "needs_error d")
    case True
    then show ?thesis using "2.prems"(1) d o1 by auto
  next
    case False
    obtain ds' rest' r2 lc2 where l: "drain_loop P Es t now_ms C (Suc i) ms r1 lc1 = (ds', rest', r2, lc2)"
      by (cases "drain_loop P Es t now_ms C (Suc i) ms r1 lc1") auto
    have o2: "once lc1 ds' lc2 \<and> checks_open r2 lc2" using "2.IH" [OF d [symmetric] refl False l] o1 by simp
    have "ds = [d] @ ds'" "r' = r2" "lc' = lc2" using "2.prems"(1) d False l by auto
    then show ?thesis using once_trans [of lc "[d]" lc1 ds' lc2] o1 o2 by simp
  qed
qed

lemma checks_update [simp]:
  "mr_pending_ack_checks (prune_arrivals r) = mr_pending_ack_checks r"
  "mr_pending_ack_checks (put_queue c q r) = mr_pending_ack_checks r"
  "mr_pending_ack_checks (requeue_tail c q r) = mr_pending_ack_checks r"
  by (simp_all add: prune_arrivals_def put_queue_def requeue_tail_def)

lemma router_step_once:
  assumes "router_step P C op (r, lc) = (ds, r', lc')" "checks_open r lc"
  shows "once lc ds lc' \<and> checks_open r' lc'"
proof (cases op)
  case (Route E t ms m)
  then obtain d where "ds = [d]" "route_message P E t ms C m r lc = (d, r', lc')" using assms(1) by (auto split: prod.splits)
  then show ?thesis using route_once assms(2) by simp
next
  case (Resume E t ms i b)
  show ?thesis
  proof (cases "hm_get i (mr_pending_ack_checks r)")
    case None
    then show ?thesis using assms Resume by (auto simp: resume_after_ack_check_def once_none)
  next
    case (Some m)
    let ?r = "r\<lparr> mr_pending_ack_checks := hm_remove i (mr_pending_ack_checks r) \<rparr>"
    have i: "im_message_id m = i" "i \<notin> set (ak_cache (lc_ack_store lc))" using assms(2) Some by (auto simp: checks_open_def)
    have c: "checks_open ?r lc" using assms(2) by (auto simp: checks_open_def hm_remove_get hm.wf_remove split: if_splits)
    obtain d where d: "ds = [d]" using assms(1) Resume by (auto split: prod.splits)
    show ?thesis
    proof (cases b)
      case True
      then show ?thesis using assms(1) Resume Some c by (auto simp: resume_after_ack_check_def Let_def once_none)
    next
      case False
      then have "route_after_ack_check P E t ms C m ?r lc = (d, r', lc')"
        using assms(1) Resume Some d by (auto simp: resume_after_ack_check_def Let_def split: prod.splits)
      then show ?thesis unfolding d by (rule route_after_once [OF _ _ c]) (simp_all add: i hm_remove_get)
    qed
  qed
next
  case (Drain Es t ms c)
  let ?r0 = "r\<lparr> mr_pending_queues := hm_remove c (mr_pending_queues r) \<rparr>"
  obtain rest r1 where l: "drain_loop P Es t ms C 0 (pending_messages c r) ?r0 lc = (ds, rest, r1, lc')"
    and r': "r' = prune_arrivals (if rest \<noteq> [] then requeue_tail c rest r1 else r1)"
    using assms(1) Drain by (auto simp: drain_pending_def Let_def split: prod.splits)
  have "checks_open ?r0 lc" using assms(2) by (simp add: checks_open_def)
  then have "once lc ds lc' \<and> checks_open r1 lc'" by (rule drain_loop_once [OF l])
  then show ?thesis by (simp add: checks_open_def r')
next
  case (RemovePending c i)
  have "mr_pending_ack_checks (remove_pending c i r) = mr_pending_ack_checks r"
    by (simp add: remove_pending_def Let_def split: option.split)
  then show ?thesis using assms RemovePending by (auto simp: once_none checks_open_def)
next
  case (TakePending c)
  then show ?thesis using assms by (auto simp: once_none checks_open_def take_pending_def)
next
  case (ForgetContact c)
  then show ?thesis using assms
    by (auto simp: once_none checks_open_def router_forget_contact_def Let_def hm_retain_get hm.wf_retain split: option.splits if_splits)
next
  case (ElsewhereInLifecycle lc2)
  then show ?thesis using assms by (auto simp: once_none checks_open_def)
qed

lemma router_run_once:
  "router_run P C ops (r, lc) = (ds, r', lc') \<Longrightarrow> checks_open r lc \<Longrightarrow> once lc ds lc'"
proof (induction ops arbitrary: r lc ds)
  case (Cons op ops)
  obtain es r1 lc1 where s: "router_step P C op (r, lc) = (es, r1, lc1)" by (cases "router_step P C op (r, lc)") auto
  obtain fs r2 lc2 where u: "router_run P C ops (r1, lc1) = (fs, r2, lc2)" by (cases "router_run P C ops (r1, lc1)") auto
  have "ds = es @ fs" "r' = r2" "lc' = lc2" using Cons.prems(1) s u by auto
  then show ?case using router_step_once [OF s Cons.prems(2)] Cons.IH [of r1 lc1 fs] u once_trans [of lc es lc1 fs lc'] by simp
qed (simp add: once_none)

text \<open>
  C37.  No message is read twice.  Over any sequence of operations of a new router - arrivals, answers of the
  platform about the acknowledgements it holds, drains, removals - no message id is decrypted twice, none that the
  ACK cache already held is decrypted at all, and every id that was decrypted is in the cache at the end.
\<close>

theorem router_decrypts_once:
  "case router_run P C ops (router_new, lc) of (ds, r', lc') \<Rightarrow>
    distinct (decrypted_ids ds) \<and> set (decrypted_ids ds) \<inter> set (ak_cache (lc_ack_store lc)) = {} \<and>
    set (decrypted_ids ds) \<subseteq> set (ak_cache (lc_ack_store lc'))"
proof -
  have "checks_open router_new lc" by (simp add: checks_open_def router_new_def)
  then show ?thesis using router_run_once [of P C ops router_new lc] by (auto simp: once_def split: prod.split)
qed

end
