(* ===== verification/Spec2Isabelle.thy ===== *)
theory Spec2Isabelle
  imports Suite_Id Padding Wire_Payload Ratchet_Batch Cfe_Envelope Ratchet_Storage
    Pq_Prekey_Plan Session_Machine Delivery_Plan Session_Envelope
    First_Flight Message_Router
begin

text \<open>
  A verification development of construct-core.
\<close>

end
